(* ===== verification/P2Pool_Prelude.thy ===== *)
theory P2Pool_Prelude
  imports
    Complex_Main
    "HOL-Library.Word"
    "HOL-Library.List_Lexorder"
    "HOL-Library.Multiset"
begin

text \<open>
  Shared vocabulary of the development: the machine integers, the result of a Rust function
  that may return an error or panic, the Rust collections the sources use (hash sets, hash
  maps, ordered column families), big-endian byte strings, and the generic lemmas about
  them. Nothing in this theory is about one component.
\<close>

named_theorems outcome_simps \<open>unfolding of the result combinators\<close>
named_theorems store_simps \<open>projections of updated stores\<close>

section \<open>Machine integers\<close>

type_synonym u8 = "8 word"
type_synonym u16 = "16 word"
type_synonym u32 = "32 word"
type_synonym u64 = "64 word"
type_synonym i32 = "32 word"
type_synonym bytes = "u8 list"

text \<open>The arithmetic of Rust's standard library on unsigned integers of one width.\<close>

definition saturating_sub :: "'a::len word \<Rightarrow> 'a word \<Rightarrow> 'a word" where
  "saturating_sub x y = (if x < y then 0 else x - y)"

definition saturating_add :: "'a::len word \<Rightarrow> 'a word \<Rightarrow> 'a word" where
  "saturating_add x y = (if unat x + unat y < 2 ^ LENGTH('a) then x + y else - 1)"

definition checked_mul :: "'a::len word \<Rightarrow> 'a word \<Rightarrow> 'a word option" where
  "checked_mul x y = (if unat x * unat y < 2 ^ LENGTH('a) then Some (x * y) else None)"

definition abs_diff :: "'a::len word \<Rightarrow> 'a word \<Rightarrow> 'a word" where
  "abs_diff x y = (if x < y then y - x else x - y)"

lemma unat_saturating_sub [simp]: "unat (saturating_sub x y) = unat x - unat y"
  by (auto simp: saturating_sub_def word_less_nat_alt unat_sub_if')

lemma unat_minus_one_exp: "unat (- 1 :: 'a::len word) = 2 ^ LENGTH('a) - 1"
  by (simp add: unat_eq_nat_uint unsigned_minus_1_eq_mask mask_eq_exp_minus_1 nat_diff_distrib nat_power_eq)

lemma unat_saturating_add:
  fixes x y :: "'a::len word"
  shows "unat (saturating_add x y) = min (unat x + unat y) (2 ^ LENGTH('a) - 1)"
  by (auto simp: saturating_add_def unat_word_ariths unat_minus_one_exp)

lemma unat_abs_diff:
  "unat (abs_diff x y) = (if unat x < unat y then unat y - unat x else unat x - unat y)"
  by (auto simp: abs_diff_def word_less_nat_alt unat_sub_if')

lemma unat_of_nat_u64: "k < 2 ^ 64 \<Longrightarrow> unat (word_of_nat k :: u64) = k"
  by (simp add: unat_of_nat)

lemma unat_ucast_up:
  fixes w :: "'a::len word"
  assumes "LENGTH('a) \<le> LENGTH('b::len)"
  shows "unat (ucast w :: 'b word) = unat w"
proof -
  have "unat w < 2 ^ LENGTH('a)" by (rule unsigned_less)
  also have "\<dots> \<le> 2 ^ LENGTH('b)" using assms by (simp add: power_increasing)
  finally show ?thesis by (simp add: unsigned_ucast_eq take_bit_nat_eq_self)
qed

section \<open>Results, errors and panics\<close>

text \<open>
  A Rust function returns a value, returns an error, or panics (an \<open>unwrap\<close> of
  \<open>None\<close>, an index out of range, an arithmetic underflow that is checked). The three
  outcomes stay apart in the model: \<open>?\<close> passes an error on, nothing catches a panic.
\<close>

datatype ('e, 'a) outcome = Ok 'a | Err 'e | Panic

primrec and_then :: "('e, 'a) outcome \<Rightarrow> ('a \<Rightarrow> ('e, 'b) outcome) \<Rightarrow> ('e, 'b) outcome" where
  "and_then (Ok x) f = f x"
| "and_then (Err e) f = Err e"
| "and_then Panic f = Panic"

primrec map_err :: "('e \<Rightarrow> 'f) \<Rightarrow> ('e, 'a) outcome \<Rightarrow> ('f, 'a) outcome" where
  "map_err f (Ok x) = Ok x"
| "map_err f (Err e) = Err (f e)"
| "map_err f Panic = Panic"

primrec ok_or :: "'e \<Rightarrow> 'a option \<Rightarrow> ('e, 'a) outcome" where
  "ok_or e None = Err e"
| "ok_or e (Some x) = Ok x"

primrec unwrap :: "'a option \<Rightarrow> ('e, 'a) outcome" where
  "unwrap None = Panic"
| "unwrap (Some x) = Ok x"

text \<open>\<open>collect\<close> into a \<open>Result\<close>: the first error stops the iteration.\<close>

fun collect :: "('a \<Rightarrow> ('e, 'b) outcome) \<Rightarrow> 'a list \<Rightarrow> ('e, 'b list) outcome" where
  "collect f [] = Ok []"
| "collect f (x # xs) = and_then (f x) (\<lambda>y. and_then (collect f xs) (\<lambda>ys. Ok (y # ys)))"

lemma and_then_cong [fundef_cong]:
  "m = m' \<Longrightarrow> (\<And>x. m' = Ok x \<Longrightarrow> f x = g x) \<Longrightarrow> and_then m f = and_then m' g"
  by (cases m') simp_all

lemma and_then_Ok_iff [outcome_simps]:
  "and_then m f = Ok y \<longleftrightarrow> (\<exists>x. m = Ok x \<and> f x = Ok y)"
  by (cases m) auto

lemma and_then_Err_iff [outcome_simps]:
  "and_then m f = Err e \<longleftrightarrow> m = Err e \<or> (\<exists>x. m = Ok x \<and> f x = Err e)"
  by (cases m) auto

lemma and_then_Panic_iff [outcome_simps]:
  "and_then m f = Panic \<longleftrightarrow> m = Panic \<or> (\<exists>x. m = Ok x \<and> f x = Panic)"
  by (cases m) auto

lemma map_err_Ok_iff [outcome_simps]: "map_err f m = Ok x \<longleftrightarrow> m = Ok x"
  by (cases m) auto

lemma map_err_Panic_iff [outcome_simps]: "map_err f m = Panic \<longleftrightarrow> m = Panic"
  by (cases m) auto

lemma ok_or_Ok_iff [outcome_simps]: "ok_or e m = Ok x \<longleftrightarrow> m = Some x"
  by (cases m) auto

lemma ok_or_not_Panic [outcome_simps]: "ok_or e m \<noteq> Panic"
  by (cases m) auto

lemma unwrap_Ok_iff [outcome_simps]: "unwrap m = Ok x \<longleftrightarrow> m = Some x"
  by (cases m) auto

lemma unwrap_not_Err [outcome_simps]: "unwrap m \<noteq> Err e"
  by (cases m) auto

lemma collect_Ok_iff:
  "collect f xs = Ok ys \<longleftrightarrow> list_all2 (\<lambda>x y. f x = Ok y) xs ys"
proof (induction xs arbitrary: ys)
  case Nil
  then show ?case by (auto simp: list_all2_Nil)
next
  case (Cons x xs)
  then show ?case by (auto simp: outcome_simps list_all2_Cons1)
qed

lemma collect_length: "collect f xs = Ok ys \<Longrightarrow> length ys = length xs"
  by (simp add: collect_Ok_iff list_all2_lengthD)

section \<open>Hash sets and hash maps\<close>

text \<open>
  A \<open>HashSet\<close> is a list without repetitions and a \<open>HashMap\<close> is an association list
  with distinct keys. Rust leaves the iteration order open; the order of the list stands for
  the order one run happens to take, and the properties hold for every such list.
\<close>

definition hs_insert :: "'a \<Rightarrow> 'a list \<Rightarrow> 'a list" where
  "hs_insert x xs = (if x \<in> set xs then xs else xs @ [x])"

definition hs_remove :: "'a \<Rightarrow> 'a list \<Rightarrow> 'a list" where
  "hs_remove x xs = filter (\<lambda>y. y \<noteq> x) xs"

lemma set_hs_insert [simp]: "set (hs_insert x xs) = insert x (set xs)"
  by (auto simp: hs_insert_def)

lemma set_hs_remove [simp]: "set (hs_remove x xs) = set xs - {x}"
  by (auto simp: hs_remove_def)

lemma distinct_hs_insert [simp]: "distinct (hs_insert x xs) = distinct xs"
  by (auto simp: hs_insert_def)

lemma distinct_hs_remove [simp]: "distinct xs \<Longrightarrow> distinct (hs_remove x xs)"
  by (simp add: hs_remove_def)

text \<open>\<open>entry(k).or_insert(d)\<close> followed by an update of the value in place.\<close>

fun hm_update :: "'k \<Rightarrow> 'v \<Rightarrow> ('v \<Rightarrow> 'v) \<Rightarrow> ('k \<times> 'v) list \<Rightarrow> ('k \<times> 'v) list" where
  "hm_update k d f [] = [(k, f d)]"
| "hm_update k d f ((k', v) # m) = (if k' = k then (k', f v) # m else (k', v) # hm_update k d f m)"

lemma map_of_hm_update:
  "map_of (hm_update k d f m) k' =
     (if k' = k then Some (f (case map_of m k of None \<Rightarrow> d | Some v \<Rightarrow> v)) else map_of m k')"
  by (induction k d f m rule: hm_update.induct) auto

lemma keys_hm_update: "fst ` set (hm_update k d f m) = insert k (fst ` set m)"
  by (induction k d f m rule: hm_update.induct) auto

lemma distinct_hm_update [simp]:
  "distinct (map fst (hm_update k d f m)) = distinct (map fst m)"
proof (induction k d f m rule: hm_update.induct)
  case (2 k d f k' v m)
  then show ?case
    using keys_hm_update [of k d f m] by (auto simp: image_iff)
qed simp

text \<open>\<open>get_mut\<close>: the value under a key is updated when it is there.\<close>

definition hm_adjust :: "'k \<Rightarrow> ('v \<Rightarrow> 'v) \<Rightarrow> ('k \<times> 'v) list \<Rightarrow> ('k \<times> 'v) list" where
  "hm_adjust k f m = map (\<lambda>(k', v). (k', if k' = k then f v else v)) m"

lemma map_of_hm_adjust:
  "map_of (hm_adjust k f m) k' = (if k' = k then map_option f (map_of m k) else map_of m k')"
  by (induction m) (auto simp: hm_adjust_def)

lemma keys_hm_adjust [simp]: "map fst (hm_adjust k f m) = map fst m"
  by (induction m) (auto simp: hm_adjust_def)

text \<open>\<open>insert\<close>, \<open>remove\<close> and \<open>retain\<close>.\<close>

definition hm_retain :: "('k \<Rightarrow> 'v \<Rightarrow> bool) \<Rightarrow> ('k \<times> 'v) list \<Rightarrow> ('k \<times> 'v) list" where
  "hm_retain P m = filter (\<lambda>(k, v). P k v) m"

definition hm_remove :: "'k \<Rightarrow> ('k \<times> 'v) list \<Rightarrow> ('k \<times> 'v) list" where
  "hm_remove k m = hm_retain (\<lambda>k' _. k' \<noteq> k) m"

definition hm_insert :: "'k \<Rightarrow> 'v \<Rightarrow> ('k \<times> 'v) list \<Rightarrow> ('k \<times> 'v) list" where
  "hm_insert k v m = (k, v) # hm_remove k m"

lemma hm_retain_simps [simp]:
  "hm_retain P [] = []" "hm_retain P ((k, v) # m) = (if P k v then (k, v) # hm_retain P m else hm_retain P m)"
  by (simp_all add: hm_retain_def)

lemma keys_hm_retain: "fst ` set (hm_retain P m) \<subseteq> fst ` set m"
  by (auto simp: hm_retain_def)

lemma distinct_hm_retain [simp]: "distinct (map fst m) \<Longrightarrow> distinct (map fst (hm_retain P m))"
  by (induction m) (auto simp: hm_retain_def)

lemma map_of_hm_retain:
  "distinct (map fst m) \<Longrightarrow>
     map_of (hm_retain P m) k = (case map_of m k of Some v \<Rightarrow> if P k v then Some v else None | None \<Rightarrow> None)"
proof (induction m)
  case (Cons e m)
  then show ?case
    by (cases e) (auto split: option.splits simp: weak_map_of_SomeI image_iff dest: map_of_SomeD)
qed simp

lemma map_of_hm_remove [simp]: "map_of (hm_remove k m) = (map_of m)(k := None)"
  by (induction m) (auto simp: hm_remove_def fun_eq_iff)

lemma map_of_hm_insert [simp]: "map_of (hm_insert k v m) = (map_of m)(k \<mapsto> v)"
  by (simp add: hm_insert_def)

lemma set_hm_remove: "set (hm_remove k m) = {e \<in> set m. fst e \<noteq> k}"
  by (auto simp: hm_remove_def hm_retain_def)

lemma distinct_hm_remove [simp]: "distinct (map fst m) \<Longrightarrow> distinct (map fst (hm_remove k m))"
  by (simp add: hm_remove_def)

lemma distinct_hm_insert [simp]: "distinct (map fst m) \<Longrightarrow> distinct (map fst (hm_insert k v m))"
  by (auto simp: hm_insert_def set_hm_remove)

section \<open>Database cells\<close>

text \<open>
  What a point read of a column family yields: no value, a value that decodes, bytes that do
  not decode, or an error of the database. The encodings themselves are the subject of
  theory \<open>Codec\<close>.
\<close>

datatype 'v cell = Absent | Stored 'v | Corrupt | ReadError

datatype store_error = DbError | Message string

primrec stored_value :: "'v cell \<Rightarrow> 'v option" where
  "stored_value Absent = None"
| "stored_value (Stored v) = Some v"
| "stored_value Corrupt = None"
| "stored_value ReadError = None"

lemma stored_value_eq_Some [simp]: "stored_value c = Some v \<longleftrightarrow> c = Stored v"
  by (cases c) auto

section \<open>Big-endian byte strings\<close>

fun be_bytes :: "nat \<Rightarrow> nat \<Rightarrow> bytes" where
  "be_bytes 0 v = []"
| "be_bytes (Suc n) v = word_of_nat (v div 256 ^ n) # be_bytes n v"

definition of_be_bytes :: "bytes \<Rightarrow> nat" where
  "of_be_bytes bs = foldl (\<lambda>acc b. acc * 256 + unat b) 0 bs"

lemma length_be_bytes [simp]: "length (be_bytes n v) = n"
  by (induction n) auto

lemma be_digit: "x div p mod q = x mod (p * q) div p" for x p q :: nat
  by (cases "p = 0") (simp_all add: mod_mult2_eq)

lemma be_bytes_mod: "be_bytes n (v mod 256 ^ m) = be_bytes n v" if "n \<le> m"
  using that
proof (induction n)
  case (Suc n)
  have "v mod 256 ^ m mod 256 ^ Suc n = v mod 256 ^ Suc n"
    using Suc.prems by (intro mod_mod_cancel le_imp_power_dvd)
  then have "v mod 256 ^ m div 256 ^ n mod 256 = v div 256 ^ n mod 256"
    by (metis be_digit power_Suc2)
  then have "(word_of_nat (v mod 256 ^ m div 256 ^ n) :: u8) = word_of_nat (v div 256 ^ n)"
    by (simp add: word_of_nat_eq_iff take_bit_eq_mod)
  with Suc show ?case by simp
qed simp

lemma foldl_be: "foldl (\<lambda>acc b. acc * 256 + unat (b::u8)) a bs
    = a * 256 ^ length bs + of_be_bytes bs"
proof (induction bs rule: rev_induct)
  case Nil
  then show ?case by (simp add: of_be_bytes_def)
next
  case (snoc b bs)
  then show ?case by (simp add: of_be_bytes_def algebra_simps)
qed

lemma of_be_bytes_Cons: "of_be_bytes (b # bs) = unat b * 256 ^ length bs + of_be_bytes bs"
  using foldl_be [of "unat b" bs] by (simp add: of_be_bytes_def)

lemma of_be_bytes_be_bytes: "of_be_bytes (be_bytes n v) = v mod 256 ^ n"
proof (induction n)
  case 0
  then show ?case by (simp add: of_be_bytes_def)
next
  case (Suc n)
  have "v mod 256 ^ Suc n = 256 ^ n * (v div 256 ^ n mod 256) + v mod 256 ^ n"
    using mod_mult2_eq [of v "256 ^ n" 256] by (simp add: mult.commute)
  with Suc show ?case
    by (simp add: of_be_bytes_Cons unat_of_nat mult.commute)
qed

lemma be_bytes_inject:
  "v < 256 ^ n \<Longrightarrow> w < 256 ^ n \<Longrightarrow> be_bytes n v = be_bytes n w \<longleftrightarrow> v = w"
  by (metis mod_less of_be_bytes_be_bytes)

lemma list_less_Cons: "x # xs < y # ys \<longleftrightarrow> x < y \<or> x = y \<and> xs < ys"
  by (simp add: list_less_def)

lemma less_div_mod_iff:
  fixes v w p :: nat
  shows "v < w \<longleftrightarrow> v div p < w div p \<or> v div p = w div p \<and> v mod p < w mod p"
proof -
  have v: "v = v div p * p + v mod p" and w: "w = w div p * p + w mod p" by simp_all
  consider "v div p < w div p" | "v div p = w div p" | "w div p < v div p" by linarith
  then show ?thesis
  proof cases
    case 1
    then have "v < w" using div_le_mono [of w v p] by linarith
    with 1 show ?thesis by simp
  next
    case 2
    with v w have "v < w \<longleftrightarrow> v mod p < w mod p" by (metis nat_add_left_cancel_less)
    with 2 show ?thesis by simp
  next
    case 3
    then have "\<not> v < w" using div_le_mono [of v w p] by linarith
    with 3 show ?thesis by simp
  qed
qed

text \<open>
  Byte strings are ordered bytewise, as the keys of a column family are. On encodings of one
  length this is the order of the numbers.
\<close>

lemma be_bytes_less_iff:
  "v < 256 ^ n \<Longrightarrow> w < 256 ^ n \<Longrightarrow> be_bytes n v < be_bytes n w \<longleftrightarrow> v < w"
proof (induction n arbitrary: v w)
  case (Suc n)
  let ?p = "256 ^ n :: nat"
  have hd: "v div ?p < 256" "w div ?p < 256"
    using Suc.prems by (simp_all add: less_mult_imp_div_less)
  have eq: "(word_of_nat (v div ?p) :: u8) = word_of_nat (w div ?p) \<longleftrightarrow> v div ?p = w div ?p"
    using hd by (simp add: word_of_nat_eq_iff take_bit_nat_eq_self)
  have less: "(word_of_nat (v div ?p) :: u8) < word_of_nat (w div ?p) \<longleftrightarrow> v div ?p < w div ?p"
    using hd by (simp add: word_less_nat_alt unat_of_nat)
  have tl: "be_bytes n v < be_bytes n w \<longleftrightarrow> v mod ?p < w mod ?p"
    using Suc.IH [of "v mod ?p" "w mod ?p"] by (simp add: be_bytes_mod)
  have "v < w \<longleftrightarrow> v div ?p < w div ?p \<or> v div ?p = w div ?p \<and> v mod ?p < w mod ?p"
    by (rule less_div_mod_iff)
  with eq less tl show ?case by (simp add: list_less_Cons)
qed simp

lemma append_less_iff:
  fixes xs ys :: "'a::linorder list"
  assumes "length xs = length ys"
  shows "xs @ us < ys @ vs \<longleftrightarrow> xs < ys \<or> xs = ys \<and> us < vs"
  using assms by (induction xs ys rule: list_induct2) (auto simp: list_less_Cons)

lemma unat_less_256_8 [simp]: "unat (x :: u64) < 256 ^ 8"
  using unsigned_less [of x, where ?'a = nat] by simp

lemma be_bytes_8_less_iff [simp]:
  "be_bytes 8 (unat x) < be_bytes 8 (unat y) \<longleftrightarrow> x < y" for x y :: u64
  using be_bytes_less_iff [OF unat_less_256_8 unat_less_256_8, of x y] by (simp add: word_less_nat_alt)

lemma be_bytes_8_eq_iff [simp]:
  "be_bytes 8 (unat x) = be_bytes 8 (unat y) \<longleftrightarrow> x = y" for x y :: u64
  using be_bytes_inject [OF unat_less_256_8 unat_less_256_8, of x y] by (simp add: word_unat_eq_iff)

lemma be_bytes_8_le_iff [simp]:
  "be_bytes 8 (unat x) \<le> be_bytes 8 (unat y) \<longleftrightarrow> x \<le> y" for x y :: u64
  by (simp add: linorder_not_less [symmetric])

lemma of_be_bytes_8 [simp]: "word_of_nat (of_be_bytes (be_bytes 8 (unat x))) = (x :: u64)"
  using of_be_bytes_be_bytes [of 8 "unat x"] by (simp add: unat_less_256_8 [simplified])

end
