(* ===== verification/F64.thy ===== *)
theory F64
  imports P2Pool_Prelude "HOL-Library.Log_Nat"
begin

text \<open>
  The double-precision numbers of Rust, as far as the sources use them: IEEE 754 binary64
  with rounding to nearest, ties to even, gradual underflow and overflow to infinity; the
  comparisons that are false on NaN; \<open>max\<close> and \<open>min\<close> that ignore a NaN operand;
  \<open>round\<close> and the saturating casts to unsigned integers. A finite number is the rational
  it denotes, so the two zeros are one value. \<open>exp\<close> has an unspecified precision in
  Rust and is therefore an argument of the functions that call it.
\<close>

datatype f64 = Fin rat | Inf | NegInf | NaN

section \<open>Rounding\<close>

text \<open>The exponent of the binade of a positive rational: \<open>2 powi e \<le> x < 2 powi (e + 1)\<close>.\<close>

definition f64_exponent :: "rat \<Rightarrow> int" where
  "f64_exponent x =
     (let (p, q) = quotient_of x;
          k = int (floorlog 2 (nat p)) - int (floorlog 2 (nat q))
      in if x < 2 powi k then k - 1 else k)"

definition f64_ulp :: "rat \<Rightarrow> rat" where
  "f64_ulp x = 2 powi (max (f64_exponent x - 52) (- 1074))"

definition round_half_even :: "rat \<Rightarrow> int" where
  "round_half_even y =
     (let n = \<lfloor>y\<rfloor>; d = y - of_int n
      in if d < 1 / 2 then n else if 1 / 2 < d then n + 1 else if even n then n else n + 1)"

definition f64_round_abs :: "rat \<Rightarrow> rat" where
  "f64_round_abs x = (if x = 0 then 0 else of_int (round_half_even (x / f64_ulp x)) * f64_ulp x)"

definition f64_limit :: rat where
  "f64_limit = 2 ^ 1024"

definition f64_of_rat :: "rat \<Rightarrow> f64" where
  "f64_of_rat x =
     (let r = f64_round_abs \<bar>x\<bar>
      in if f64_limit \<le> r then (if 0 < x then Inf else NegInf)
         else Fin (if 0 \<le> x then r else - r))"

section \<open>Operations\<close>

fun f64_neg :: "f64 \<Rightarrow> f64" where
  "f64_neg (Fin x) = Fin (- x)"
| "f64_neg Inf = NegInf"
| "f64_neg NegInf = Inf"
| "f64_neg NaN = NaN"

fun f64_add :: "f64 \<Rightarrow> f64 \<Rightarrow> f64" where
  "f64_add (Fin x) (Fin y) = f64_of_rat (x + y)"
| "f64_add NaN _ = NaN"
| "f64_add _ NaN = NaN"
| "f64_add Inf NegInf = NaN"
| "f64_add NegInf Inf = NaN"
| "f64_add Inf _ = Inf"
| "f64_add _ Inf = Inf"
| "f64_add NegInf _ = NegInf"
| "f64_add _ NegInf = NegInf"

definition f64_sub :: "f64 \<Rightarrow> f64 \<Rightarrow> f64" where
  "f64_sub x y = f64_add x (f64_neg y)"

definition f64_signed_inf :: "rat \<Rightarrow> f64" where
  "f64_signed_inf s = (if s = 0 then NaN else if 0 < s then Inf else NegInf)"

fun f64_sign :: "f64 \<Rightarrow> rat" where
  "f64_sign (Fin x) = sgn x"
| "f64_sign Inf = 1"
| "f64_sign NegInf = - 1"
| "f64_sign NaN = 0"

fun f64_mul :: "f64 \<Rightarrow> f64 \<Rightarrow> f64" where
  "f64_mul (Fin x) (Fin y) = f64_of_rat (x * y)"
| "f64_mul NaN _ = NaN"
| "f64_mul _ NaN = NaN"
| "f64_mul x y = f64_signed_inf (f64_sign x * f64_sign y)"

fun f64_div :: "f64 \<Rightarrow> f64 \<Rightarrow> f64" where
  "f64_div NaN _ = NaN"
| "f64_div _ NaN = NaN"
| "f64_div (Fin x) (Fin y) = (if y = 0 then f64_signed_inf (sgn x) else f64_of_rat (x / y))"
| "f64_div (Fin x) _ = Fin 0"
| "f64_div x (Fin y) = (if 0 \<le> y then x else f64_neg x)"
| "f64_div _ _ = NaN"

fun f64_less :: "f64 \<Rightarrow> f64 \<Rightarrow> bool" where
  "f64_less NaN _ = False"
| "f64_less _ NaN = False"
| "f64_less (Fin x) (Fin y) = (x < y)"
| "f64_less NegInf y = (y \<noteq> NegInf)"
| "f64_less x Inf = (x \<noteq> Inf)"
| "f64_less _ _ = False"

definition f64_eq :: "f64 \<Rightarrow> f64 \<Rightarrow> bool" where
  "f64_eq x y = (x = y \<and> x \<noteq> NaN)"

definition f64_le :: "f64 \<Rightarrow> f64 \<Rightarrow> bool" where
  "f64_le x y = (f64_less x y \<or> f64_eq x y)"

text \<open>\<open>f64::max\<close> and \<open>f64::min\<close>: if one operand is NaN, the other one is returned.\<close>

definition f64_max :: "f64 \<Rightarrow> f64 \<Rightarrow> f64" where
  "f64_max x y = (if x = NaN then y else if y = NaN then x else if f64_less x y then y else x)"

definition f64_min :: "f64 \<Rightarrow> f64 \<Rightarrow> f64" where
  "f64_min x y = (if x = NaN then y else if y = NaN then x else if f64_less y x then y else x)"

fun is_finite :: "f64 \<Rightarrow> bool" where
  "is_finite (Fin x) = True"
| "is_finite _ = False"

text \<open>\<open>f64::round\<close>: to the nearest integer, ties away from zero. A double is an integer
  already or smaller than \<open>2 ^ 52\<close>, so the result is a double again.\<close>

fun f64_round :: "f64 \<Rightarrow> f64" where
  "f64_round (Fin x) = Fin (of_int (if 0 \<le> x then \<lfloor>x + 1 / 2\<rfloor> else - \<lfloor>- x + 1 / 2\<rfloor>))"
| "f64_round x = x"

text \<open>The casts: \<open>as f64\<close> rounds, \<open>as u64\<close> and \<open>as u128\<close> truncate and saturate,
  with NaN going to zero.\<close>

definition f64_of_nat :: "nat \<Rightarrow> f64" where
  "f64_of_nat n = f64_of_rat (of_nat n)"

fun f64_to_uint :: "nat \<Rightarrow> f64 \<Rightarrow> nat" where
  "f64_to_uint w (Fin x) = (if x \<le> 0 then 0 else min (nat \<lfloor>x\<rfloor>) (2 ^ w - 1))"
| "f64_to_uint w Inf = 2 ^ w - 1"
| "f64_to_uint w NegInf = 0"
| "f64_to_uint w NaN = 0"

definition f64_sum :: "f64 list \<Rightarrow> f64" where
  "f64_sum xs = foldl f64_add (Fin 0) xs"

text \<open>A finite value is a double when rounding leaves it alone.\<close>

fun f64_representable :: "f64 \<Rightarrow> bool" where
  "f64_representable (Fin x) = (f64_of_rat x = Fin x)"
| "f64_representable _ = True"

text \<open>
  \<open>f64::to_bits\<close> and \<open>f64::from_bits\<close>: sign, eleven bits of exponent, fifty-two
  bits of fraction. A NaN is the canonical quiet one.
\<close>

definition f64_pack :: "nat \<Rightarrow> nat \<Rightarrow> nat \<Rightarrow> u64" where
  "f64_pack s e m = word_of_nat ((s * 2 ^ 11 + e) * 2 ^ 52 + m)"

definition f64_abs_bits :: "rat \<Rightarrow> nat \<times> nat" where
  "f64_abs_bits a =
     (if a = 0 then (0, 0)
      else
        let q = max (f64_exponent a - 52) (- 1074); n = nat \<lfloor>a / 2 powi q\<rfloor>
        in if n < 2 ^ 52 then (0, n) else (nat (q + 1075), n - 2 ^ 52))"

fun f64_to_bits :: "f64 \<Rightarrow> u64" where
  "f64_to_bits (Fin x) = (case f64_abs_bits \<bar>x\<bar> of (e, m) \<Rightarrow> f64_pack (if x < 0 then 1 else 0) e m)"
| "f64_to_bits Inf = f64_pack 0 2047 0"
| "f64_to_bits NegInf = f64_pack 1 2047 0"
| "f64_to_bits NaN = f64_pack 0 2047 (2 ^ 51)"

definition f64_from_bits :: "u64 \<Rightarrow> f64" where
  "f64_from_bits w =
     (let v = unat w; m = v mod 2 ^ 52; e = v div 2 ^ 52 mod 2 ^ 11; negative = (v div 2 ^ 63 = 1);
          a = (if e = 0 then of_nat m * 2 powi (- 1074)
               else of_nat (2 ^ 52 + m) * 2 powi (int e - 1075))
      in if e = 2047 then (if m \<noteq> 0 then NaN else if negative then NegInf else Inf)
         else Fin (if negative then - a else a))"

section \<open>Comparisons\<close>

lemma f64_less_irrefl [simp]: "\<not> f64_less x x"
  by (cases x) auto

lemma f64_less_trans: "f64_less x y \<Longrightarrow> f64_less y z \<Longrightarrow> f64_less x z"
  by (cases x; cases y; cases z) auto

lemma f64_le_refl [simp]: "f64_le x x \<longleftrightarrow> x \<noteq> NaN"
  by (simp add: f64_le_def f64_eq_def)

lemma f64_le_trans: "f64_le x y \<Longrightarrow> f64_le y z \<Longrightarrow> f64_le x z"
  using f64_less_trans by (auto simp: f64_le_def f64_eq_def)

lemma f64_le_Fin [simp]: "f64_le (Fin x) (Fin y) \<longleftrightarrow> x \<le> y"
  by (auto simp: f64_le_def f64_eq_def)

lemma f64_le_NaN [simp]: "\<not> f64_le NaN x" "\<not> f64_le x NaN"
  by (cases x; simp add: f64_le_def f64_eq_def)+

lemma f64_le_Inf [simp]: "f64_le x Inf \<longleftrightarrow> x \<noteq> NaN" "f64_le NegInf x \<longleftrightarrow> x \<noteq> NaN"
  by (cases x; simp add: f64_le_def f64_eq_def)+

lemma f64_not_less: "x \<noteq> NaN \<Longrightarrow> y \<noteq> NaN \<Longrightarrow> \<not> f64_less x y \<longleftrightarrow> f64_le y x"
  by (cases x; cases y) (auto simp: f64_le_def f64_eq_def)

lemma f64_less_not_NaN: "f64_less x y \<Longrightarrow> x \<noteq> NaN \<and> y \<noteq> NaN"
  by (cases x; cases y) auto

lemma f64_max_NaN_iff: "f64_max x y = NaN \<longleftrightarrow> x = NaN \<and> y = NaN"
  by (auto simp: f64_max_def)

lemma f64_min_NaN_iff: "f64_min x y = NaN \<longleftrightarrow> x = NaN \<and> y = NaN"
  by (auto simp: f64_min_def)

lemma f64_max_ge: "y \<noteq> NaN \<Longrightarrow> f64_le y (f64_max x y)" "x \<noteq> NaN \<Longrightarrow> f64_le x (f64_max x y)"
  by (cases x; cases y; auto simp: f64_max_def f64_le_def f64_eq_def)+

lemma f64_min_le: "y \<noteq> NaN \<Longrightarrow> f64_le (f64_min x y) y" "x \<noteq> NaN \<Longrightarrow> f64_le (f64_min x y) x"
  by (cases x; cases y; auto simp: f64_min_def f64_le_def f64_eq_def)+

lemma f64_min_greatest: "f64_le z x \<Longrightarrow> f64_le z y \<Longrightarrow> f64_le z (f64_min x y)"
  by (auto simp: f64_min_def)

lemma f64_max_cases: "f64_max x y = x \<or> f64_max x y = y"
  by (auto simp: f64_max_def)

lemma f64_min_cases: "f64_min x y = x \<or> f64_min x y = y"
  by (auto simp: f64_min_def)

section \<open>Facts about rounding\<close>

lemma round_half_even_of_int [simp]: "round_half_even (of_int n) = n"
  by (simp add: round_half_even_def)

lemma round_half_even_le: "y \<le> of_int n \<Longrightarrow> round_half_even y \<le> n"
proof -
  assume y: "y \<le> of_int n"
  show ?thesis
  proof (cases "\<lfloor>y\<rfloor> = n")
    case True
    with y have "y = of_int n" by (metis antisym of_int_floor_le)
    then show ?thesis by simp
  next
    case False
    with y have "\<lfloor>y\<rfloor> + 1 \<le> n" by (simp add: floor_le_iff le_neq_trans zless_imp_add1_zle)
    then show ?thesis by (simp add: round_half_even_def Let_def)
  qed
qed

lemma round_half_even_ge: "of_int n \<le> y \<Longrightarrow> n \<le> round_half_even y"
  by (simp add: round_half_even_def Let_def le_floor_iff add_increasing2)

lemma round_half_even_eqI:
  assumes "of_int n - 1 / 2 < x" "x < of_int n + 1 / 2"
  shows "round_half_even x = n"
proof (cases "of_int n \<le> x")
  case True
  with assms have "\<lfloor>x\<rfloor> = n" by (intro floor_unique) linarith+
  with assms show ?thesis by (simp add: round_half_even_def)
next
  case False
  with assms have "\<lfloor>x\<rfloor> = n - 1" by (intro floor_unique) (auto simp: not_le)
  with assms show ?thesis by (simp add: round_half_even_def Let_def)
qed

lemma floorlog2_bounds:
  "0 < n \<Longrightarrow> 2 ^ (floorlog 2 n - 1) \<le> n \<and> n < 2 ^ floorlog 2 n \<and> 0 < floorlog 2 n"
  using floorlog_bounds [of n 2] by (simp add: floorlog_def)

lemma power_int_Suc: "(2::rat) powi (k + 1) = 2 * 2 powi k"
  by (simp add: power_int_add)

lemma power_int_diff_1: "(2::rat) powi (k - 1) = 2 powi k / 2"
  by (simp add: power_int_diff)

lemma quotient_bounds:
  fixes p q :: nat
  assumes "0 < p" "0 < q"
  defines "k \<equiv> int (floorlog 2 p) - int (floorlog 2 q)"
  shows "2 powi (k - 1) < (of_nat p / of_nat q :: rat)" "of_nat p / of_nat q < (2::rat) powi (k + 1)"
proof -
  note P = floorlog2_bounds [OF assms(1)] and Q = floorlog2_bounds [OF assms(2)]
  obtain a b where a: "floorlog 2 p = Suc a" and b: "floorlog 2 q = Suc b"
    using P Q by (metis gr0_implies_Suc)
  have p: "(2::rat) ^ a \<le> of_nat p" "of_nat p < (2::rat) ^ Suc a"
    using P a by (metis diff_Suc_1 of_nat_le_iff of_nat_numeral of_nat_power,
        metis of_nat_less_iff of_nat_numeral of_nat_power)
  have q: "(2::rat) ^ b \<le> of_nat q" "of_nat q < (2::rat) ^ Suc b"
    using Q b by (metis diff_Suc_1 of_nat_le_iff of_nat_numeral of_nat_power,
        metis of_nat_less_iff of_nat_numeral of_nat_power)
  have k: "k - 1 = int a - int (Suc b)" "k + 1 = int (Suc a) - int b"
    by (simp_all add: k_def a b)
  have "(2::rat) ^ a / 2 ^ Suc b < of_nat p / of_nat q"
    using p q assms(2) by (intro frac_less2) auto
  then show "2 powi (k - 1) < (of_nat p / of_nat q :: rat)"
    unfolding k(1) by (subst power_int_diff) (auto simp del: power_Suc simp flip: power_int_of_nat)
  have "of_nat p / of_nat q < (2::rat) ^ Suc a / 2 ^ b"
    using p q assms(1) by (intro frac_less) auto
  then show "of_nat p / of_nat q < (2::rat) powi (k + 1)"
    unfolding k(2) by (subst power_int_diff) (auto simp del: power_Suc simp flip: power_int_of_nat)
qed

lemma f64_exponent_bounds:
  assumes "0 < x"
  shows "2 powi f64_exponent x \<le> x" "x < 2 powi (f64_exponent x + 1)"
proof -
  obtain p q where pq: "quotient_of x = (p, q)" by fastforce
  then have q: "0 < q" and x: "x = of_int p / of_int q"
    by (auto simp: quotient_of_denom_pos quotient_of_div)
  with assms have p: "0 < p"
    by (simp add: zero_less_divide_iff)
  have x': "x = of_nat (nat p) / of_nat (nat q)"
    using x p q by simp
  note b = quotient_bounds [of "nat p" "nat q", folded x']
  show "2 powi f64_exponent x \<le> x" "x < 2 powi (f64_exponent x + 1)"
    using b p q pq by (auto simp: f64_exponent_def Let_def)
qed

lemma two_powi_less_iff: "(2::rat) powi m < 2 powi n \<longleftrightarrow> m < n"
  using power_int_strict_increasing [of m n "2::rat"] power_int_increasing [of n m "2::rat"]
  by (cases "m < n") auto

lemma two_powi_le_iff: "(2::rat) powi m \<le> 2 powi n \<longleftrightarrow> m \<le> n"
  using two_powi_less_iff [of n m] by linarith

lemma f64_exponent_mono: "0 < x \<Longrightarrow> x \<le> y \<Longrightarrow> f64_exponent x \<le> f64_exponent y"
proof -
  assume a: "0 < x" "x \<le> y"
  then have "2 powi f64_exponent x < (2::rat) powi (f64_exponent y + 1)"
    using f64_exponent_bounds [of x] f64_exponent_bounds [of y] by linarith
  then show ?thesis by (simp add: two_powi_less_iff)
qed

lemma f64_ulp_pos [simp]: "0 < f64_ulp x"
  by (simp add: f64_ulp_def)

text \<open>A multiple of the spacing of a larger binade is one of a smaller binade's.\<close>

lemma two_powi_multiple:
  assumes "m \<le> n"
  shows "\<exists>j::int. (2::rat) powi n = of_int j * 2 powi m"
proof
  have "(2::rat) powi n = 2 powi (n - m) * 2 powi m"
    by (simp flip: power_int_add)
  also have "(2::rat) powi (n - m) = of_int (2 ^ nat (n - m))"
    using assms by (simp add: power_int_def)
  finally show "(2::rat) powi n = of_int (2 ^ nat (n - m)) * 2 powi m" .
qed

lemma f64_ulp_multiple:
  assumes "0 < x" "x \<le> y"
  shows "\<exists>j::int. f64_ulp y = of_int j * f64_ulp x"
  unfolding f64_ulp_def
  using f64_exponent_mono [OF assms] by (intro two_powi_multiple) auto

lemma f64_round_abs_0 [simp]: "f64_round_abs 0 = 0"
  by (simp add: f64_round_abs_def)

lemma f64_round_abs_nonneg [simp]: "0 \<le> x \<Longrightarrow> 0 \<le> f64_round_abs x"
  using round_half_even_ge [of 0 "x / f64_ulp x"]
  by (simp add: f64_round_abs_def less_imp_le)

text \<open>Rounding never crosses a double.\<close>

lemma f64_round_abs_le:
  assumes "0 \<le> x" "x \<le> y" "f64_round_abs y = y"
  shows "f64_round_abs x \<le> y"
proof (cases "x = 0")
  case False
  with assms have x: "0 < x" and y: "y \<noteq> 0" by auto
  from x assms obtain j where j: "f64_ulp y = of_int j * f64_ulp x"
    using f64_ulp_multiple by blast
  let ?r = "round_half_even (y / f64_ulp y)"
  have eq: "y = of_int (?r * j) * f64_ulp x"
    using assms(3) y j by (simp add: f64_round_abs_def mult.assoc)
  have "x / f64_ulp x \<le> of_int (?r * j)"
    using assms(2) eq by (metis divide_le_eq f64_ulp_pos)
  then have "of_int (round_half_even (x / f64_ulp x)) * f64_ulp x \<le> of_int (?r * j) * f64_ulp x"
    by (intro mult_right_mono) (simp_all only: of_int_le_iff round_half_even_le less_imp_le f64_ulp_pos)
  with x eq show ?thesis by (simp add: f64_round_abs_def)
qed (use assms in simp)

lemma f64_round_abs_ge:
  assumes "0 \<le> y" "y \<le> x" "f64_round_abs y = y"
  shows "y \<le> f64_round_abs x"
proof (cases "y = 0")
  case False
  with assms have y: "0 < y" and x: "0 < x" by auto
  have ge: "n \<le> x / f64_ulp x \<Longrightarrow> n \<in> \<int> \<Longrightarrow> n * f64_ulp x \<le> f64_round_abs x" for n
    using x by (auto simp: f64_round_abs_def Ints_def round_half_even_ge)
  show ?thesis
  proof (cases "f64_ulp y = f64_ulp x")
    case True
    have eq: "y = of_int (round_half_even (y / f64_ulp y)) * f64_ulp x"
      using assms(3) y True by (simp add: f64_round_abs_def)
    then have "of_int (round_half_even (y / f64_ulp y)) \<le> x / f64_ulp x"
      using assms(2) by (metis f64_ulp_pos pos_le_divide_eq)
    from ge [OF this] eq show ?thesis by simp
  next
    case False
    then have less: "f64_exponent y < f64_exponent x" and big: "- 1074 < f64_exponent x - 52"
      using f64_exponent_mono [OF y assms(2)]
      by (auto simp: f64_ulp_def max_def order_less_le split: if_splits)
    have u: "f64_ulp x = 2 powi (f64_exponent x - 52)"
      using big by (simp add: f64_ulp_def)
    have two: "(2::rat) powi f64_exponent x = 2 ^ 52 * f64_ulp x"
      by (simp add: u power_int_diff)
    have "2 ^ 52 \<le> x / f64_ulp x"
      using f64_exponent_bounds(1) [OF x] two by (simp add: pos_le_divide_eq)
    from ge [OF this] two have "2 powi f64_exponent x \<le> f64_round_abs x" by simp
    moreover have "y \<le> 2 powi f64_exponent x"
      using f64_exponent_bounds(2) [OF y] less two_powi_le_iff [of "f64_exponent y + 1" "f64_exponent x"]
      by linarith
    ultimately show ?thesis by linarith
  qed
qed (use assms in simp)

text \<open>Integers up to \<open>2 ^ 53\<close> are doubles.\<close>

lemma f64_round_abs_multiple: "f64_round_abs (of_int n * f64_ulp x) = of_int n * f64_ulp x"
  if "of_int n * f64_ulp x = x" for n x
  using that by (metis (no_types, lifting) f64_round_abs_def f64_ulp_pos less_irrefl
      nonzero_eq_divide_eq round_half_even_of_int)

lemma f64_round_abs_of_nat:
  assumes "n \<le> 2 ^ 53"
  shows "f64_round_abs (of_nat n) = of_nat n"
proof (cases "n = 0")
  case False
  then have pos: "0 < (of_nat n :: rat)" by simp
  have small: "f64_exponent (of_nat n) \<le> 53"
  proof -
    have "2 powi f64_exponent (of_nat n) \<le> (2::rat) powi 53"
      using f64_exponent_bounds(1) [OF pos] assms
      by (metis (mono_tags) of_nat_le_iff of_nat_numeral of_nat_power order_trans power_int_numeral)
    then show ?thesis by (simp only: two_powi_le_iff)
  qed
  show ?thesis
  proof (cases "f64_exponent (of_nat n) = 53")
    case True
    then have "n = 2 ^ 53"
      using f64_exponent_bounds(1) [OF pos] assms
      by (metis antisym of_nat_le_iff of_nat_numeral of_nat_power power_int_numeral)
    moreover have "f64_ulp (of_nat n) = 2" using True by (simp add: f64_ulp_def)
    ultimately show ?thesis
      using round_half_even_of_int [of "2 ^ 52"] by (simp add: f64_round_abs_def)
  next
    case False
    then have "max (f64_exponent (of_nat n) - 52) (- 1074) \<le> 0" using small by simp
    then obtain j where "(2::rat) powi 0 = of_int j * f64_ulp (of_nat n)"
      unfolding f64_ulp_def using two_powi_multiple by blast
    then have "of_int (int n * j) * f64_ulp (of_nat n) = (of_nat n :: rat)"
      by (simp add: mult.assoc)
    then show ?thesis using f64_round_abs_multiple by metis
  qed
qed simp

lemma f64_of_nat_exact: "n \<le> 2 ^ 53 \<Longrightarrow> f64_of_nat n = Fin (of_nat n)"
proof -
  assume n: "n \<le> 2 ^ 53"
  then have "(of_nat n :: rat) \<le> 2 ^ 53" by (metis of_nat_le_iff of_nat_numeral of_nat_power)
  also have "(2::rat) ^ 53 < f64_limit"
    unfolding f64_limit_def by (rule power_strict_increasing) simp_all
  finally have "(of_nat n :: rat) < f64_limit" .
  with n show ?thesis
    by (simp add: f64_of_nat_def f64_of_rat_def f64_round_abs_of_nat)
qed

lemma f64_limit_pos [simp]: "0 < f64_limit" "\<not> f64_limit \<le> 0"
  by (simp_all add: f64_limit_def not_le)

lemma f64_of_rat_0 [simp]: "f64_of_rat 0 = Fin 0"
  by (simp add: f64_of_rat_def)

lemma f64_of_rat_not_NaN [simp]: "f64_of_rat x \<noteq> NaN"
  by (simp add: f64_of_rat_def Let_def)

lemma f64_of_rat_nonneg: "0 \<le> x \<Longrightarrow> f64_le (Fin 0) (f64_of_rat x)"
  by (auto simp: f64_of_rat_def Let_def)

lemma representable_round_abs:
  "f64_representable (Fin y) \<Longrightarrow> 0 \<le> y \<Longrightarrow> f64_round_abs y = y \<and> y < f64_limit"
  by (auto simp: f64_of_rat_def Let_def split: if_splits)

lemma f64_of_rat_le:
  assumes "0 \<le> x" "x \<le> y" "f64_representable (Fin y)"
  shows "\<exists>r. f64_of_rat x = Fin r \<and> 0 \<le> r \<and> r \<le> y"
proof -
  from assms have y: "f64_round_abs y = y" "y < f64_limit"
    using representable_round_abs by auto
  with assms(1,2) have "f64_round_abs x \<le> y" by (intro f64_round_abs_le)
  with y(2) assms(1) show ?thesis by (auto simp: f64_of_rat_def Let_def)
qed

lemma f64_of_rat_ge:
  assumes "0 \<le> y" "y \<le> x" "f64_representable (Fin y)"
  shows "f64_le (Fin y) (f64_of_rat x)"
  using assms representable_round_abs [OF assms(3,1)] f64_round_abs_ge [of y x]
  by (cases "x = 0") (simp_all add: f64_of_rat_def Let_def)

lemma f64_representable_of_nat: "n \<le> 2 ^ 53 \<Longrightarrow> f64_representable (Fin (of_nat n))"
  using f64_of_nat_exact by (simp add: f64_of_nat_def)

lemma f64_of_rat_1 [simp]: "f64_of_rat 1 = Fin 1"
  using f64_representable_of_nat [of 1] by simp

lemma f64_of_nat_nonneg [simp]: "f64_le (Fin 0) (f64_of_nat n)"
  by (simp add: f64_of_nat_def f64_of_rat_nonneg)

lemma f64_le_0_cases:
  "f64_le (Fin 0) x \<longleftrightarrow> x = Inf \<or> (\<exists>r. x = Fin r \<and> 0 \<le> r)"
  by (cases x) (auto simp: f64_le_def f64_eq_def)

lemma f64_add_nonneg:
  "f64_le (Fin 0) x \<Longrightarrow> f64_le (Fin 0) y \<Longrightarrow> f64_le (Fin 0) (f64_add x y)"
  by (auto simp: f64_le_0_cases [of x] f64_le_0_cases [of y] f64_of_rat_nonneg)

lemma f64_mul_nonneg:
  "f64_le (Fin 0) x \<Longrightarrow> f64_le (Fin 0) y \<Longrightarrow>
   f64_mul x y \<noteq> NaN \<Longrightarrow> f64_le (Fin 0) (f64_mul x y)"
  by (auto simp: f64_le_0_cases [of x] f64_le_0_cases [of y] f64_of_rat_nonneg
      f64_signed_inf_def split: if_splits)

lemma f64_div_nonneg:
  "f64_le (Fin 0) x \<Longrightarrow> f64_le (Fin 0) y \<Longrightarrow>
   f64_div x y \<noteq> NaN \<Longrightarrow> f64_le (Fin 0) (f64_div x y)"
  by (auto simp: f64_le_0_cases [of x] f64_le_0_cases [of y] f64_of_rat_nonneg
      f64_signed_inf_def sgn_if split: if_splits)

text \<open>Evaluation of one rounding, given the binade.\<close>

lemma f64_exponent_eqI:
  assumes "2 powi e \<le> x" "x < 2 powi (e + 1)"
  shows "f64_exponent x = e"
proof -
  have pos: "0 < x" using assms(1) by (metis less_le_trans zero_less_numeral zero_less_power_int)
  have "2 powi f64_exponent x < (2::rat) powi (e + 1)" "2 powi e < (2::rat) powi (f64_exponent x + 1)"
    using f64_exponent_bounds [OF pos] assms by linarith+
  then show ?thesis by (simp add: two_powi_less_iff)
qed

lemma f64_of_rat_eval:
  assumes "2 powi e \<le> x" "x < 2 powi (e + 1)" "- 1022 \<le> e" "e < 1023"
    and "of_int n - 1 / 2 < x / 2 powi (e - 52)" "x / 2 powi (e - 52) < of_int n + 1 / 2" "n \<le> 2 ^ 53"
  shows "f64_of_rat x = Fin (of_int n * 2 powi (e - 52))"
proof -
  have pos: "0 < x" using assms(1) by (metis less_le_trans zero_less_numeral zero_less_power_int)
  have u: "f64_ulp x = 2 powi (e - 52)"
    using f64_exponent_eqI [OF assms(1,2)] assms(3) by (simp add: f64_ulp_def)
  have "of_int n * (2::rat) powi (e - 52) \<le> 2 ^ 53 * 2 powi (e - 52)"
    using assms(7) by (intro mult_right_mono) (metis of_int_le_iff of_int_numeral of_int_power, simp)
  also have "\<dots> = (2::rat) powi 53 * 2 powi (e - 52)" by (metis power_int_numeral)
  also have "\<dots> = (2::rat) powi (e + 1)" by (subst power_int_add [symmetric]) (simp_all add: add.commute)
  also have "\<dots> < 2 powi 1024" using assms(4) by (subst two_powi_less_iff) simp
  finally have "of_int n * (2::rat) powi (e - 52) < f64_limit"
    unfolding f64_limit_def by (metis power_int_numeral)
  then show ?thesis
    using pos round_half_even_eqI [OF assms(5,6)] by (simp add: f64_of_rat_def f64_round_abs_def u Let_def)
qed

section \<open>The bits of a double\<close>

lemma f64_unpack:
  assumes "s \<le> 1" "e < 2048" "m < 2 ^ 52"
  defines "v \<equiv> unat (f64_pack s e m)"
  shows "v mod 2 ^ 52 = m" "v div 2 ^ 52 mod 2 ^ 11 = e" "v div 2 ^ 63 = s"
proof -
  have "(s * 2 ^ 11 + e) * 2 ^ 52 + m < 2 ^ 64"
  proof -
    have "s * 2 ^ 11 + e < 2 ^ 12" using assms(1,2) by simp
    then have "(s * 2 ^ 11 + e + 1) * 2 ^ 52 \<le> 2 ^ 12 * 2 ^ 52" by (intro mult_le_mono1) simp
    then show ?thesis using assms(3) by simp
  qed
  then have v: "v = (s * 2 ^ 11 + e) * 2 ^ 52 + m"
    unfolding v_def f64_pack_def by (rule unat_of_nat_u64)
  define k where "k = s * 2 ^ 11 + e"
  have v: "v = k * 2 ^ 52 + m" using v by (simp only: k_def)
  show "v mod 2 ^ 52 = m" using assms(3) by (simp add: v)
  have d: "v div 2 ^ 52 = k" using assms(3) by (simp add: v)
  then show "v div 2 ^ 52 mod 2 ^ 11 = e" using assms(2) by (simp add: k_def)
  have "v div 2 ^ 63 = v div 2 ^ 52 div 2 ^ 11" by (simp add: div_mult2_eq [symmetric])
  then show "v div 2 ^ 63 = s" using assms(2) unfolding d by (simp add: k_def)
qed

lemma f64_abs_bits_value:
  assumes "0 \<le> a" "f64_round_abs a = a" "a < f64_limit"
  obtains e m where "f64_abs_bits a = (e, m)" "e < 2047" "m < 2 ^ 52"
    "a = (if e = 0 then of_nat m * 2 powi (- 1074) else of_nat (2 ^ 52 + m) * 2 powi (int e - 1075))"
proof (cases "a = 0")
  case True
  then show ?thesis using that [of 0 0] by (simp add: f64_abs_bits_def)
next
  case False
  then have pos: "0 < a" using assms(1) by simp
  define q where "q = max (f64_exponent a - 52) (- 1074)"
  define n where "n = nat \<lfloor>a / 2 powi q\<rfloor>"
  have u: "f64_ulp a = 2 powi q" by (simp add: f64_ulp_def q_def)
  note b = f64_exponent_bounds [OF pos]
  have "of_int (round_half_even (a / 2 powi q)) * 2 powi q = a"
    using assms(2) False by (simp add: f64_round_abs_def u)
  then have "a / 2 powi q = of_int (round_half_even (a / 2 powi q))"
    by (metis nonzero_eq_divide_eq power_int_eq_0_iff zero_neq_numeral)
  then have int: "a / 2 powi q = of_nat n"
    using pos unfolding n_def
    by (metis floor_of_int int_nat_eq of_int_0_le_iff of_int_of_nat_eq less_imp_le
        divide_pos_pos zero_less_power_int zero_less_numeral)
  then have a: "a = of_nat n * 2 powi q" by (simp add: field_simps)
  have bits: "f64_abs_bits a = (if n < 2 ^ 52 then (0, n) else (nat (q + 1075), n - 2 ^ 52))"
    using False by (simp add: f64_abs_bits_def Let_def flip: q_def n_def)
  have "2 powi f64_exponent a < (2 :: rat) powi 1024"
    using b(1) assms(3) unfolding f64_limit_def
    by (metis le_less_trans power_int_numeral)
  then have "f64_exponent a < 1024" by (simp only: two_powi_less_iff)
  then have q: "- 1074 \<le> q" "q \<le> 971" by (auto simp: q_def)
  have "a < 2 powi (q + 53)"
    using b(2) two_powi_le_iff [of "f64_exponent a + 1" "q + 53"] by (auto simp: q_def)
  then have "of_nat n < (2 :: rat) ^ 53"
    unfolding a by (simp add: power_int_add flip: power_int_numeral)
  then have n53: "n < 2 ^ 53" by (metis of_nat_less_iff of_nat_numeral of_nat_power)
  show ?thesis
  proof (cases "n < 2 ^ 52")
    case True
    have "q = - 1074"
    proof (rule ccontr)
      assume "q \<noteq> - 1074"
      then have "f64_exponent a = q + 52" by (simp add: q_def max_def split: if_splits)
      then have "2 powi (q + 52) \<le> a" using b(1) by simp
      then have "2 powi (q + 52) \<le> of_nat n * (2 :: rat) powi q" by (simp only: a)
      then have "(2 :: rat) ^ 52 \<le> of_nat n" by (simp add: power_int_add flip: power_int_numeral)
      then have "2 ^ 52 \<le> n" by (metis of_nat_le_iff of_nat_numeral of_nat_power)
      with True show False by simp
    qed
    then have "a = of_nat n * 2 powi (- 1074)" using a by (simp only:)
    moreover have "f64_abs_bits a = (0, n)" using bits True by (simp only: if_True)
    ultimately show ?thesis using that [of 0 n] True by (simp only: refl if_True simp_thms)
  next
    case False
    have "f64_abs_bits a = (nat (q + 1075), n - 2 ^ 52)" using bits False by (simp only: if_False)
    moreover have "a = of_nat (2 ^ 52 + (n - 2 ^ 52)) * 2 powi (int (nat (q + 1075)) - 1075)"
      using a False q by simp
    ultimately show ?thesis
      using that [of "nat (q + 1075)" "n - 2 ^ 52"] q n53 False by simp
  qed
qed

lemma f64_from_special:
  assumes "s \<le> 1" "m < 2 ^ 52"
  shows "f64_from_bits (f64_pack s 2047 m) = (if m \<noteq> 0 then NaN else if s = 1 then NegInf else Inf)"
proof -
  have "(2047 :: nat) < 2048" by simp
  note parts = f64_unpack [OF assms(1) this assms(2)]
  show ?thesis unfolding f64_from_bits_def Let_def parts by (simp only: refl if_True)
qed

lemma f64_bits_round_trip:
  assumes "f64_representable x"
  shows "f64_from_bits (f64_to_bits x) = x"
proof (cases x)
  case (Fin r)
  have ok: "f64_round_abs \<bar>r\<bar> = \<bar>r\<bar>" "\<bar>r\<bar> < f64_limit"
    using assms Fin by (auto simp: f64_of_rat_def Let_def split: if_splits)
  obtain e m where em: "f64_abs_bits \<bar>r\<bar> = (e, m)" "e < 2047" "m < 2 ^ 52"
    "\<bar>r\<bar> = (if e = 0 then of_nat m * 2 powi (- 1074) else of_nat (2 ^ 52 + m) * 2 powi (int e - 1075))"
    by (rule f64_abs_bits_value [OF abs_ge_zero ok])
  let ?s = "if r < 0 then 1 else 0 :: nat"
  have w: "f64_to_bits x = f64_pack ?s e m" using Fin em(1) by simp
  have "?s \<le> 1" "e < 2048" using em(2) by simp_all
  note parts = f64_unpack [OF this em(3)]
  have sign: "(?s = 1) = (r < 0)" and not_special: "(e = 2047) = False" using em(2) by simp_all
  have "f64_from_bits (f64_to_bits x) = Fin (if r < 0 then - \<bar>r\<bar> else \<bar>r\<bar>)"
    unfolding w f64_from_bits_def Let_def parts sign not_special if_False em(4) [symmetric] by (rule refl)
  then show ?thesis using Fin by (auto simp: abs_if)
qed (simp_all add: f64_from_special)

end
