(* ===== verification/Difficulty_Adjuster.thy ===== *)
theory Difficulty_Adjuster
  imports F64
begin

text \<open>
  The variable difficulty of one miner's session: the time and decay formulas of
  \<open>accounting/calc.rs\<close> and the adjuster of \<open>stratum/difficulty_adjuster/mod.rs\<close>. The
  formulas are computed in the doubles of theory \<open>F64\<close>, in the order of the source. A
  \<open>SystemTime\<close> is an integer number of nanoseconds; the clock is an argument of the calls
  that read it. The share counter has its 32 bits and wraps.
\<close>

type_synonym system_time = int

section \<open>Time and decay\<close>

definition duration_since :: "system_time \<Rightarrow> system_time \<Rightarrow> nat option" where
  "duration_since now earlier = (if earlier \<le> now then Some (nat (now - earlier)) else None)"

definition as_secs_f64 :: "nat \<Rightarrow> f64" where
  "as_secs_f64 ns =
     f64_add (f64_of_nat (ns div 10 ^ 9)) (f64_div (f64_of_nat (ns mod 10 ^ 9)) (f64_of_nat (10 ^ 9)))"

definition sane_time_diff :: "system_time \<Rightarrow> system_time option \<Rightarrow> f64" where
  "sane_time_diff current_timestamp other =
     (case other of
        None \<Rightarrow> Fin 0
      | Some t \<Rightarrow>
          f64_max (as_secs_f64 (case duration_since current_timestamp t of None \<Rightarrow> 0 | Some d \<Rightarrow> d))
            (f64_of_rat (1 / 1000)))"

definition time_bias :: "(f64 \<Rightarrow> f64) \<Rightarrow> f64 \<Rightarrow> f64 \<Rightarrow> f64" where
  "time_bias exp_fn time_difference period =
     (let exp_power = f64_min (f64_div time_difference period) (Fin 36)
      in f64_sub (Fin 1) (f64_div (Fin 1) (exp_fn exp_power)))"

definition decay_time :: "(f64 \<Rightarrow> f64) \<Rightarrow> f64 \<Rightarrow> f64 \<Rightarrow> f64 \<Rightarrow> u64 \<Rightarrow> f64" where
  "decay_time exp_fn dsps difficulty elapsed_time interval =
     (if f64_le elapsed_time (Fin 0) \<or> \<not> is_finite elapsed_time then dsps
      else if \<not> is_finite dsps then Fin 0
      else
        let dexp = f64_min (f64_div elapsed_time (f64_of_nat (unat interval))) (Fin 36);
            fprop = f64_sub (Fin 1) (f64_div (Fin 1) (exp_fn dexp));
            ftotal = f64_add (Fin 1) fprop;
            new_dsps = f64_div (f64_add dsps (f64_mul (f64_div difficulty elapsed_time) fprop)) ftotal
        in if \<not> is_finite new_dsps then dsps else new_dsps)"

section \<open>The adjuster\<close>

definition TARGET_DRR :: f64 where "TARGET_DRR = f64_of_rat (3 / 10)"
definition MIN_DRR_THRESHOLD :: f64 where "MIN_DRR_THRESHOLD = f64_of_rat (15 / 100)"
definition MAX_DRR_THRESHOLD :: f64 where "MAX_DRR_THRESHOLD = f64_of_rat (4 / 10)"
definition MIN_SHARES_BEFORE_ADJUST :: u32 where "MIN_SHARES_BEFORE_ADJUST = 72"
definition MIN_SECONDS_BEFORE_ADJUST :: u64 where "MIN_SECONDS_BEFORE_ADJUST = 240"
definition BIAS_TIME_CONSTANT :: f64 where "BIAS_TIME_CONSTANT = Fin 300"
definition MIN_DECAY_INTERVAL :: f64 where "MIN_DECAY_INTERVAL = f64_of_rat (5 / 100)"

record adjuster =
  share_submission_difficulty_counter :: u32
  current_difficulty :: f64
  old_difficulty :: f64
  first_share_timestamp :: "system_time option"
  last_difficulty_change_timestamp :: "system_time option"
  last_decay_timestamp :: "system_time option"
  dsps_1min_window :: f64
  dsps_5min_window :: f64
  dsps_1hour_window :: f64
  dsps_24hour_window :: f64
  dsps_7day_window :: f64
  last_diff_change_job_id :: "u64 option"
  pool_minimum_difficulty :: f64
  pool_maximum_difficulty :: "f64 option"
  unaccounted_shares :: f64

datatype dsps = OneMinute | FiveMinutes | OneHour | OneDay | OneWeek

definition adjuster_new :: "f64 \<Rightarrow> f64 \<Rightarrow> f64 option \<Rightarrow> adjuster" where
  "adjuster_new start_difficulty pool_min pool_max =
     \<lparr>share_submission_difficulty_counter = 0,
      current_difficulty = start_difficulty,
      old_difficulty = start_difficulty,
      first_share_timestamp = None,
      last_difficulty_change_timestamp = None,
      last_decay_timestamp = None,
      dsps_1min_window = Fin 0,
      dsps_5min_window = Fin 0,
      dsps_1hour_window = Fin 0,
      dsps_24hour_window = Fin 0,
      dsps_7day_window = Fin 0,
      last_diff_change_job_id = None,
      pool_minimum_difficulty = pool_min,
      pool_maximum_difficulty = pool_max,
      unaccounted_shares = Fin 0\<rparr>"

text \<open>\<open>f64::MAX as u128\<close> saturates at the largest 128-bit number.\<close>

definition saturated_to_u64 :: "nat \<Rightarrow> f64" where
  "saturated_to_u64 v = (if v > 2 ^ 128 - 1 then Fin ((2 - 1 / 2 ^ 52) * 2 ^ 1023) else f64_of_nat v)"

definition apply_difficulty_constraints :: "adjuster \<Rightarrow> f64 \<Rightarrow> f64 option \<Rightarrow> f64" where
  "apply_difficulty_constraints a calculated_diff suggested_difficulty =
     (let diff = f64_max calculated_diff (pool_minimum_difficulty a);
          diff = (case suggested_difficulty of None \<Rightarrow> diff | Some suggested \<Rightarrow> f64_max diff suggested)
      in case pool_maximum_difficulty a of None \<Rightarrow> diff | Some m \<Rightarrow> f64_min diff m)"

definition calculate_new_difficulty ::
  "(f64 \<Rightarrow> f64) \<Rightarrow> adjuster \<Rightarrow> f64 option \<Rightarrow> f64 \<Rightarrow> f64" where
  "calculate_new_difficulty exp_fn a suggested_difficulty time_since_first_share =
     (let bias = time_bias exp_fn time_since_first_share BIAS_TIME_CONSTANT;
          difficulty_shares_per_second = f64_div (dsps_5min_window a) bias;
          difficulty_rate_ratio = f64_div difficulty_shares_per_second (current_difficulty a)
      in if f64_le MIN_DRR_THRESHOLD difficulty_rate_ratio
            \<and> f64_le difficulty_rate_ratio MAX_DRR_THRESHOLD
         then current_difficulty a
         else
           let optimal_diff = f64_to_uint 128
                 (f64_round (f64_mul difficulty_shares_per_second (f64_div (Fin 1) TARGET_DRR)))
           in apply_difficulty_constraints a (saturated_to_u64 optimal_diff) suggested_difficulty)"

text \<open>The error of the source carries only a message; it is the value \<open>None\<close> here.\<close>

definition update_last_decay_timestamp :: "adjuster \<Rightarrow> system_time \<Rightarrow> f64 option \<times> adjuster" where
  "update_last_decay_timestamp a current_timestamp =
     (if f64_less (sane_time_diff current_timestamp (last_decay_timestamp a)) MIN_DECAY_INTERVAL
      then
        (None,
         a\<lparr>last_decay_timestamp :=
              (if last_decay_timestamp a = None then Some current_timestamp else last_decay_timestamp a),
           unaccounted_shares := f64_add (unaccounted_shares a) (current_difficulty a)\<rparr>)
      else
        (Some (f64_max (sane_time_diff current_timestamp (last_decay_timestamp a)) (Fin 1)),
         a\<lparr>last_decay_timestamp := Some current_timestamp\<rparr>))"

definition account_for_unaccounted_shares :: "adjuster \<Rightarrow> f64 \<times> adjuster" where
  "account_for_unaccounted_shares a =
     (f64_add (current_difficulty a) (unaccounted_shares a), a\<lparr>unaccounted_shares := Fin 0\<rparr>)"

definition update_dsps_metric ::
  "(f64 \<Rightarrow> f64) \<Rightarrow> dsps \<Rightarrow> u64 \<Rightarrow> f64 \<Rightarrow> f64 \<Rightarrow> adjuster \<Rightarrow> adjuster" where
  "update_dsps_metric exp_fn which_dsps interval elapsed_time difficulty a =
     (case which_dsps of
        OneMinute \<Rightarrow> a\<lparr>dsps_1min_window :=
          decay_time exp_fn (dsps_1min_window a) difficulty elapsed_time interval\<rparr>
      | FiveMinutes \<Rightarrow> a\<lparr>dsps_5min_window :=
          decay_time exp_fn (dsps_5min_window a) difficulty elapsed_time interval\<rparr>
      | OneHour \<Rightarrow> a\<lparr>dsps_1hour_window :=
          decay_time exp_fn (dsps_1hour_window a) difficulty elapsed_time interval\<rparr>
      | OneDay \<Rightarrow> a\<lparr>dsps_24hour_window :=
          decay_time exp_fn (dsps_24hour_window a) difficulty elapsed_time interval\<rparr>
      | OneWeek \<Rightarrow> a\<lparr>dsps_7day_window :=
          decay_time exp_fn (dsps_7day_window a) difficulty elapsed_time interval\<rparr>)"

definition record_decay :: "(f64 \<Rightarrow> f64) \<Rightarrow> adjuster \<Rightarrow> system_time \<Rightarrow> adjuster" where
  "record_decay exp_fn a current_timestamp =
     (case update_last_decay_timestamp a current_timestamp of
        (Some elapsed_time, a1) \<Rightarrow>
          let (difficulty, a2) = account_for_unaccounted_shares a1;
              a3 = update_dsps_metric exp_fn OneMinute 60 elapsed_time difficulty a2;
              a4 = update_dsps_metric exp_fn FiveMinutes 300 elapsed_time difficulty a3;
              a5 = update_dsps_metric exp_fn OneHour 3600 elapsed_time difficulty a4;
              a6 = update_dsps_metric exp_fn OneDay 86400 elapsed_time difficulty a5
          in update_dsps_metric exp_fn OneWeek 604800 elapsed_time difficulty a6
      | (None, a1) \<Rightarrow> a1)"

definition record_share_submission ::
  "(f64 \<Rightarrow> f64) \<Rightarrow> adjuster \<Rightarrow> f64 \<Rightarrow> u64 \<Rightarrow> f64 option \<Rightarrow> system_time
     \<Rightarrow> (f64 option \<times> bool) \<times> adjuster" where
  "record_share_submission exp_fn a share_diff job_id suggested_difficulty current_timestamp =
     (if first_share_timestamp a = None then
        ((None, True),
         a\<lparr>first_share_timestamp := Some current_timestamp,
           last_difficulty_change_timestamp := Some current_timestamp\<rparr>)
      else
        let a1 = a\<lparr>share_submission_difficulty_counter := share_submission_difficulty_counter a + 1\<rparr>;
            time_since_first_share = sane_time_diff current_timestamp (first_share_timestamp a1);
            time_since_last_difficulty_change =
              sane_time_diff current_timestamp (last_difficulty_change_timestamp a1);
            a2 = record_decay exp_fn a1 current_timestamp;
            should_adjust =
              (MIN_SHARES_BEFORE_ADJUST \<le> share_submission_difficulty_counter a2
               \<or> f64_less (f64_of_nat (unat MIN_SECONDS_BEFORE_ADJUST)) time_since_last_difficulty_change)
              \<and> f64_less (Fin 30) time_since_first_share;
            new_diff = calculate_new_difficulty exp_fn a2 suggested_difficulty time_since_first_share
        in if should_adjust \<and> \<not> f64_eq new_diff (current_difficulty a2) then
             ((Some new_diff, False),
              a2\<lparr>old_difficulty := current_difficulty a2,
                 current_difficulty := new_diff,
                 share_submission_difficulty_counter := 0,
                 last_difficulty_change_timestamp := Some current_timestamp,
                 last_diff_change_job_id := Some job_id\<rparr>)
           else ((None, False), a2))"

definition set_current_difficulty :: "adjuster \<Rightarrow> f64 \<Rightarrow> adjuster" where
  "set_current_difficulty a difficulty = a\<lparr>current_difficulty := difficulty\<rparr>"

definition get_current_difficulty :: "adjuster \<Rightarrow> f64" where
  "get_current_difficulty a = current_difficulty a"

section \<open>Lemmas\<close>

text \<open>What the formulas need of \<open>exp\<close>: on the arguments they pass it, at least one.\<close>

definition exp_law :: "(f64 \<Rightarrow> f64) \<Rightarrow> bool" where
  "exp_law exp_fn \<longleftrightarrow>
     (\<forall>x. f64_le (Fin 0) x \<longrightarrow> f64_le x (Fin 36) \<longrightarrow> f64_le (Fin 1) (exp_fn x))"

lemma f64_le_Fin_cases: "f64_le (Fin y) x \<longleftrightarrow> x = Inf \<or> (\<exists>r. x = Fin r \<and> y \<le> r)"
  by (cases x) (auto simp: f64_le_def f64_eq_def)

lemma f64_inverse_unit:
  assumes "f64_le (Fin 1) e"
  shows "\<exists>r. f64_div (Fin 1) e = Fin r \<and> 0 \<le> r \<and> r \<le> 1"
  using assms f64_of_rat_le [of "1 / r" 1 for r] by (auto simp: f64_le_Fin_cases)

lemma f64_sub_unit:
  assumes "0 \<le> r" "r \<le> 1"
  shows "\<exists>p. f64_sub (Fin 1) (Fin r) = Fin p \<and> 0 \<le> p \<and> p \<le> 1"
  using assms f64_of_rat_le [of "1 - r" 1] by (auto simp: f64_sub_def)

lemma decay_factor:
  assumes "exp_law exp_fn" "f64_le (Fin 0) x"
  shows "\<exists>p. f64_sub (Fin 1) (f64_div (Fin 1) (exp_fn (f64_min x (Fin 36)))) = Fin p \<and> 0 \<le> p \<and> p \<le> 1"
proof -
  have "f64_le (Fin 1) (exp_fn (f64_min x (Fin 36)))"
    using assms f64_min_le(1) [of "Fin 36" x] f64_min_greatest [of "Fin 0" x "Fin 36"]
    by (simp add: exp_law_def)
  from f64_inverse_unit [OF this] show ?thesis
    using f64_sub_unit by auto
qed

lemma decay_time_finite: "is_finite dsps \<Longrightarrow> is_finite (decay_time exp_fn dsps d el iv)"
  by (auto simp: decay_time_def Let_def)

lemma decay_time_nonneg:
  assumes e: "exp_law exp_fn" and d: "f64_le (Fin 0) dsps" "f64_le (Fin 0) d"
  shows "f64_le (Fin 0) (decay_time exp_fn dsps d el iv)"
proof (cases "f64_le el (Fin 0) \<or> \<not> is_finite el \<or> \<not> is_finite dsps")
  case True
  with d show ?thesis by (auto simp: decay_time_def)
next
  case False
  then obtain t where t: "el = Fin t" "0 < t" by (cases el) auto
  have iv: "f64_le (Fin 0) (f64_of_nat (unat iv))"
    by (rule f64_of_nat_nonneg)
  have "f64_div el (f64_of_nat (unat iv)) \<noteq> NaN"
    using iv t by (auto simp: f64_le_0_cases f64_signed_inf_def split: if_splits)
  then have "f64_le (Fin 0) (f64_div el (f64_of_nat (unat iv)))"
    using iv t by (intro f64_div_nonneg) simp_all
  then obtain p where p: "f64_sub (Fin 1) (f64_div (Fin 1)
      (exp_fn (f64_min (f64_div el (f64_of_nat (unat iv))) (Fin 36)))) = Fin p" "0 \<le> p"
    using decay_factor [OF e] by blast
  let ?g = "f64_div d el"
  let ?new = "f64_div (f64_add dsps (f64_mul ?g (Fin p))) (f64_add (Fin 1) (Fin p))"
  have "?g \<noteq> NaN" using d(2) t by (auto simp: f64_le_0_cases)
  then have g: "f64_le (Fin 0) ?g" using d(2) t by (intro f64_div_nonneg) auto
  have "?new = NaN \<or> f64_le (Fin 0) ?new"
  proof (cases "f64_mul ?g (Fin p) = NaN")
    case True
    then show ?thesis using False by (cases dsps) auto
  next
    case ok: False
    show ?thesis
      using f64_div_nonneg [OF f64_add_nonneg [OF d(1) f64_mul_nonneg [OF g _ ok]]
          f64_of_rat_nonneg [of "1 + p"]] p by auto
  qed
  moreover have "decay_time exp_fn dsps d el iv = (if is_finite ?new then ?new else dsps)"
    using False p by (simp add: decay_time_def Let_def)
  ultimately show ?thesis using d(1) by auto
qed

text \<open>
  The invariant of a session's adjuster: the difficulty is within the pool's bounds and the
  five rates are numbers that are not negative.
\<close>

definition window_ok :: "f64 \<Rightarrow> bool" where
  "window_ok x \<longleftrightarrow> is_finite x \<and> f64_le (Fin 0) x"

fun below_maximum :: "f64 option \<Rightarrow> f64 \<Rightarrow> bool" where
  "below_maximum None d = True"
| "below_maximum (Some m) d = f64_le d m"

definition within_pool_bounds :: "adjuster \<Rightarrow> f64 \<Rightarrow> bool" where
  "within_pool_bounds a d \<longleftrightarrow>
     f64_le (pool_minimum_difficulty a) d
     \<and> below_maximum (pool_maximum_difficulty a) d"

definition adjuster_inv :: "adjuster \<Rightarrow> bool" where
  "adjuster_inv a \<longleftrightarrow>
     f64_le (Fin 0) (pool_minimum_difficulty a)
     \<and> below_maximum (pool_maximum_difficulty a) (pool_minimum_difficulty a)
     \<and> within_pool_bounds a (current_difficulty a)
     \<and> window_ok (dsps_1min_window a) \<and> window_ok (dsps_5min_window a)
     \<and> window_ok (dsps_1hour_window a) \<and> window_ok (dsps_24hour_window a)
     \<and> window_ok (dsps_7day_window a)
     \<and> f64_le (Fin 0) (unaccounted_shares a)"

lemma window_ok_decay: 
  "exp_law exp_fn \<Longrightarrow> f64_le (Fin 0) d \<Longrightarrow> window_ok w \<Longrightarrow> window_ok (decay_time exp_fn w d el iv)"
  by (simp add: window_ok_def decay_time_finite decay_time_nonneg)

lemma constraints_within_bounds:
  assumes "f64_le (Fin 0) (pool_minimum_difficulty a)"
    and "below_maximum (pool_maximum_difficulty a) (pool_minimum_difficulty a)"
  shows "within_pool_bounds a (apply_difficulty_constraints a calc sugg)"
proof -
  let ?lo = "pool_minimum_difficulty a"
  define diff where "diff = (case sugg of None \<Rightarrow> f64_max calc ?lo | Some s \<Rightarrow> f64_max (f64_max calc ?lo) s)"
  have lo: "?lo \<noteq> NaN" using assms(1) by auto
  then have "f64_le ?lo (f64_max calc ?lo)" by (rule f64_max_ge)
  moreover from this have "f64_max calc ?lo \<noteq> NaN" by auto
  ultimately have ge: "f64_le ?lo diff"
    using f64_max_ge(2) f64_le_trans by (fastforce simp: diff_def split: option.splits)
  have eq: "apply_difficulty_constraints a calc sugg =
      (case pool_maximum_difficulty a of None \<Rightarrow> diff | Some m \<Rightarrow> f64_min diff m)"
    by (simp add: apply_difficulty_constraints_def diff_def Let_def split: option.split)
  show ?thesis
  proof (cases "pool_maximum_difficulty a")
    case None
    with ge eq show ?thesis by (simp add: within_pool_bounds_def)
  next
    case (Some m)
    with assms(2) have m: "f64_le ?lo m" by simp
    then have "m \<noteq> NaN" by auto
    with Some ge eq m show ?thesis
      by (simp add: within_pool_bounds_def f64_min_greatest f64_min_le)
  qed
qed

lemma calculate_within_bounds:
  assumes "adjuster_inv a"
  shows "within_pool_bounds a (calculate_new_difficulty exp_fn a sugg t)"
  using assms constraints_within_bounds [of a]
  by (simp add: calculate_new_difficulty_def Let_def adjuster_inv_def)

lemma record_decay_frame:
  "pool_minimum_difficulty (record_decay exp_fn a now) = pool_minimum_difficulty a"
  "pool_maximum_difficulty (record_decay exp_fn a now) = pool_maximum_difficulty a"
  "current_difficulty (record_decay exp_fn a now) = current_difficulty a"
  "share_submission_difficulty_counter (record_decay exp_fn a now) = share_submission_difficulty_counter a"
  "first_share_timestamp (record_decay exp_fn a now) = first_share_timestamp a"
  "last_difficulty_change_timestamp (record_decay exp_fn a now) = last_difficulty_change_timestamp a"
  by (auto simp: record_decay_def update_last_decay_timestamp_def account_for_unaccounted_shares_def
      update_dsps_metric_def Let_def)

lemma current_nonneg: "adjuster_inv a \<Longrightarrow> f64_le (Fin 0) (current_difficulty a)"
  using f64_le_trans by (auto simp: adjuster_inv_def within_pool_bounds_def)

lemma record_decay_inv:
  assumes e: "exp_law exp_fn" and a: "adjuster_inv a"
  shows "adjuster_inv (record_decay exp_fn a now)"
proof -
  have c: "f64_le (Fin 0) (current_difficulty a)" and u: "f64_le (Fin 0) (unaccounted_shares a)"
    using current_nonneg [OF a] a by (simp_all add: adjuster_inv_def)
  have d: "f64_le (Fin 0) (f64_add (current_difficulty a) (unaccounted_shares a))"
    "f64_le (Fin 0) (f64_add (unaccounted_shares a) (current_difficulty a))"
    using c u by (simp_all add: f64_add_nonneg)
  show ?thesis
    using a d by (auto simp: record_decay_def update_last_decay_timestamp_def
        account_for_unaccounted_shares_def update_dsps_metric_def Let_def adjuster_inv_def
        within_pool_bounds_def window_ok_decay [OF e])
qed

lemma record_share_submission_inv:
  assumes e: "exp_law exp_fn" and a: "adjuster_inv a"
  shows "adjuster_inv (snd (record_share_submission exp_fn a sd job sugg now))"
proof -
  let ?a1 = "a\<lparr>share_submission_difficulty_counter := share_submission_difficulty_counter a + 1\<rparr>"
  have "adjuster_inv ?a1" using a by (simp add: adjuster_inv_def within_pool_bounds_def)
  then have a2: "adjuster_inv (record_decay exp_fn ?a1 now)" by (rule record_decay_inv [OF e])
  have "adjuster_inv (a\<lparr>first_share_timestamp := t, last_difficulty_change_timestamp := t'\<rparr>)" for t t'
    using a by (simp add: adjuster_inv_def within_pool_bounds_def)
  moreover have "adjuster_inv (record_decay exp_fn ?a1 now\<lparr>old_difficulty := x,
      current_difficulty := calculate_new_difficulty exp_fn (record_decay exp_fn ?a1 now) sugg t,
      share_submission_difficulty_counter := 0, last_difficulty_change_timestamp := t',
      last_diff_change_job_id := j\<rparr>)" for x t t' j
    using a2 calculate_within_bounds [OF a2] by (simp add: adjuster_inv_def within_pool_bounds_def)
  ultimately show ?thesis
    using a2 by (simp add: record_share_submission_def Let_def)
qed

text \<open>A session's history: the submissions in the order they arrive.\<close>

type_synonym submission = "f64 \<times> u64 \<times> f64 option \<times> system_time"

fun record_submissions :: "(f64 \<Rightarrow> f64) \<Rightarrow> submission list \<Rightarrow> adjuster \<Rightarrow> adjuster" where
  "record_submissions exp_fn [] a = a"
| "record_submissions exp_fn ((sd, job, sugg, now) # subs) a =
     record_submissions exp_fn subs (snd (record_share_submission exp_fn a sd job sugg now))"

lemma record_submissions_inv:
  "exp_law exp_fn \<Longrightarrow> adjuster_inv a \<Longrightarrow> adjuster_inv (record_submissions exp_fn subs a)"
proof (induction subs arbitrary: a)
  case (Cons sub subs)
  then show ?case using record_share_submission_inv by (cases sub) auto
qed simp

lemma adjuster_new_inv:
  assumes "f64_le (Fin 0) lo" "f64_le lo start" "below_maximum hi start"
  shows "adjuster_inv (adjuster_new start lo hi)"
  using assms f64_le_trans
  by (cases hi) (auto simp: adjuster_inv_def adjuster_new_def within_pool_bounds_def window_ok_def)

text \<open>
  The five-minute rate after a submission, and the bounds put on a difficulty, written
  without the adjuster's intermediate states.
\<close>

definition five_minute_rate :: "(f64 \<Rightarrow> f64) \<Rightarrow> adjuster \<Rightarrow> system_time \<Rightarrow> f64" where
  "five_minute_rate exp_fn a now =
     (let elapsed = sane_time_diff now (last_decay_timestamp a)
      in if f64_less elapsed (f64_of_rat (5 / 100)) then dsps_5min_window a
         else decay_time exp_fn (dsps_5min_window a)
                (f64_add (current_difficulty a) (unaccounted_shares a)) (f64_max elapsed (Fin 1)) 300)"

definition clamp_difficulty :: "f64 \<Rightarrow> f64 option \<Rightarrow> f64 option \<Rightarrow> f64 \<Rightarrow> f64" where
  "clamp_difficulty lo suggested hi d =
     (let raised = foldl f64_max d (lo # (case suggested of None \<Rightarrow> [] | Some s \<Rightarrow> [s]))
      in foldl f64_min raised (case hi of None \<Rightarrow> [] | Some m \<Rightarrow> [m]))"

lemma constraints_clamp:
  "apply_difficulty_constraints a d sugg =
     clamp_difficulty (pool_minimum_difficulty a) sugg (pool_maximum_difficulty a) d"
  by (simp add: apply_difficulty_constraints_def clamp_difficulty_def split: option.split)

lemma record_decay_five_minutes:
  "dsps_5min_window (record_decay exp_fn a now) = five_minute_rate exp_fn a now"
  by (simp add: record_decay_def five_minute_rate_def update_last_decay_timestamp_def
      account_for_unaccounted_shares_def update_dsps_metric_def MIN_DECAY_INTERVAL_def Let_def)

lemma five_minute_rate_counter [simp]:
  "five_minute_rate exp_fn (a\<lparr>share_submission_difficulty_counter := c\<rparr>) now = five_minute_rate exp_fn a now"
  by (simp add: five_minute_rate_def Let_def)

lemma record_decay_changes:
  "old_difficulty (record_decay exp_fn a now) = old_difficulty a"
  "last_diff_change_job_id (record_decay exp_fn a now) = last_diff_change_job_id a"
  by (auto simp: record_decay_def update_last_decay_timestamp_def account_for_unaccounted_shares_def
      update_dsps_metric_def Let_def)

lemma saturated_in_range: "saturated_to_u64 (f64_to_uint 128 x) = f64_of_nat (f64_to_uint 128 x)"
proof -
  have "f64_to_uint w y \<le> 2 ^ w - 1" for w y by (cases y) simp_all
  from this [of 128 x] show ?thesis by (simp add: saturated_to_u64_def)
qed

text \<open>A ratio inside the band excludes a difficulty that is not a number.\<close>

lemma band_excludes_NaN: "f64_le lo (f64_div x y) \<Longrightarrow> f64_eq y y"
  by (cases y; cases x) (auto simp: f64_eq_def)

section \<open>Properties\<close>




end
