(* ===== verification/Ordered_Table.thy ===== *)
theory Ordered_Table
  imports P2Pool_Prelude
begin

text \<open>
  A column family of RocksDB that the sources iterate over: a table ordered by key, with point
  writes, the deletion of a half-open key range and an iterator that runs backwards from an
  upper key to an inclusive lower bound. The contract is a locale; the list of
  key-value pairs in key order implements it.
\<close>

locale ordered_table =
  fixes empty :: 't
    and lookup :: "'t \<Rightarrow> 'k::linorder \<Rightarrow> 'v option"
    and update :: "'k \<Rightarrow> 'v \<Rightarrow> 't \<Rightarrow> 't"
    and delete_range :: "'k \<Rightarrow> 'k \<Rightarrow> 't \<Rightarrow> 't"
    and scan_back :: "'k option \<Rightarrow> 'k \<Rightarrow> 't \<Rightarrow> ('k \<times> 'v) list"
    and invar :: "'t \<Rightarrow> bool"
  assumes lookup_empty: "lookup empty k = None"
    and lookup_update: "invar t \<Longrightarrow> lookup (update k v t) k' = (if k' = k then Some v else lookup t k')"
    and lookup_delete_range:
      "invar t \<Longrightarrow> lookup (delete_range a b t) k = (if a \<le> k \<and> k < b then None else lookup t k)"
    and scan_back_set:
      "invar t \<Longrightarrow> set (scan_back lo hi t)
         = {(k, v). lookup t k = Some v \<and> (\<forall>l. lo = Some l \<longrightarrow> l \<le> k) \<and> k \<le> hi}"
    and scan_back_descending: "invar t \<Longrightarrow> sorted_wrt (>) (map fst (scan_back lo hi t))"
    and invar_empty: "invar empty"
    and invar_update: "invar t \<Longrightarrow> invar (update k v t)"
    and invar_delete_range: "invar t \<Longrightarrow> invar (delete_range a b t)"
begin

lemma scan_after_update:
  assumes "invar t" "lo = None \<or> (\<exists>l. lo = Some l \<and> l \<le> k)" "k \<le> hi"
  shows "(k, v) \<in> set (scan_back lo hi (update k v t))"
  using assms by (auto simp: scan_back_set invar_update lookup_update)

lemma scan_keeps_others:
  assumes "invar t" "(k', v') \<in> set (scan_back lo hi t)" "k' \<noteq> k"
  shows "(k', v') \<in> set (scan_back lo hi (update k v t))"
  using assms by (auto simp: scan_back_set invar_update lookup_update)

lemma scan_after_delete:
  assumes "invar t"
  shows "set (scan_back lo hi (delete_range a b t))
    = {(k, v) \<in> set (scan_back lo hi t). \<not> (a \<le> k \<and> k < b)}"
  using assms by (auto simp: scan_back_set invar_delete_range lookup_delete_range split: if_splits)

lemma scan_distinct: "invar t \<Longrightarrow> distinct (map fst (scan_back lo hi t))"
  using scan_back_descending [of t lo hi]
  by (simp add: distinct_conv_nth sorted_wrt_iff_nth_less) (metis linorder_neqE_nat order_less_irrefl)

end

section \<open>The implementation\<close>

type_synonym ('k, 'v) table = "('k \<times> 'v) list"

definition table_ok :: "('k::linorder, 'v) table \<Rightarrow> bool" where
  "table_ok t \<longleftrightarrow> sorted_wrt (<) (map fst t)"

fun table_put :: "'k::linorder \<Rightarrow> 'v \<Rightarrow> ('k, 'v) table \<Rightarrow> ('k, 'v) table" where
  "table_put k v [] = [(k, v)]"
| "table_put k v ((k', v') # t) =
     (if k < k' then (k, v) # (k', v') # t
      else if k = k' then (k, v) # t
      else (k', v') # table_put k v t)"

definition table_get :: "('k, 'v) table \<Rightarrow> 'k \<Rightarrow> 'v option" where
  "table_get t = map_of t"

definition table_delete_range :: "'k::linorder \<Rightarrow> 'k \<Rightarrow> ('k, 'v) table \<Rightarrow> ('k, 'v) table" where
  "table_delete_range a b t = filter (\<lambda>(k, v). \<not> (a \<le> k \<and> k < b)) t"

definition table_scan_back :: "'k::linorder option \<Rightarrow> 'k \<Rightarrow> ('k, 'v) table \<Rightarrow> ('k \<times> 'v) list" where
  "table_scan_back lo hi t =
     rev (filter (\<lambda>(k, v). (case lo of None \<Rightarrow> True | Some l \<Rightarrow> l \<le> k) \<and> k \<le> hi) t)"

lemma table_put_keys: "fst ` set (table_put k v t) = insert k (fst ` set t)"
  by (induction k v t rule: table_put.induct) auto

lemma table_put_ok: "table_ok t \<Longrightarrow> table_ok (table_put k v t)"
proof (induction k v t rule: table_put.induct)
  case (2 k v k' v' t)
  then show ?case
    using table_put_keys [of k v t] by (auto simp: table_ok_def)
qed (simp add: table_ok_def)

lemma table_put_get:
  "table_ok t \<Longrightarrow> table_get (table_put k v t) k' = (if k' = k then Some v else table_get t k')"
  by (induction k v t rule: table_put.induct) (auto simp: table_ok_def table_get_def)

lemma table_get_iff: "table_ok t \<Longrightarrow> table_get t k = Some v \<longleftrightarrow> (k, v) \<in> set t"
  using map_of_eq_Some_iff [of t k v]
  by (simp add: table_ok_def table_get_def strict_sorted_iff)

lemma table_put_length: "length (table_put k v t) \<le> Suc (length t)"
  by (induction k v t rule: table_put.induct) auto

lemma table_put_set:
  assumes "table_ok t"
  shows "set (table_put k v t) = insert (k, v) {e \<in> set t. fst e \<noteq> k}"
proof (rule set_eqI)
  fix e :: "'a \<times> 'b"
  obtain k' v' where e: "e = (k', v')" by fastforce
  have "(k', v') \<in> set (table_put k v t) \<longleftrightarrow> table_get (table_put k v t) k' = Some v'"
    by (simp add: table_get_iff table_put_ok assms)
  also have "\<dots> \<longleftrightarrow> k' = k \<and> v' = v \<or> k' \<noteq> k \<and> (k', v') \<in> set t"
    using assms by (auto simp: table_put_get table_get_iff)
  finally show "e \<in> set (table_put k v t) \<longleftrightarrow> e \<in> insert (k, v) {e \<in> set t. fst e \<noteq> k}"
    by (auto simp: e)
qed

lemma table_filter_ok: "table_ok t \<Longrightarrow> table_ok (filter P t)"
  by (induction t) (auto simp: table_ok_def)

lemma table_filter_get:
  "table_ok t \<Longrightarrow> table_get (filter (\<lambda>(k, v). P k) t) k = (if P k then table_get t k else None)"
  by (induction t) (auto simp: table_ok_def table_get_def map_of_eq_None_iff)

interpretation rocks_table: ordered_table "[]" table_get table_put table_delete_range
  table_scan_back table_ok
proof
  show "table_get [] k = None" for k :: 'a by (simp add: table_get_def)
  show "table_ok []" by (simp add: table_ok_def)
next
  fix t :: "('a, 'b) table" and lo hi
  assume t: "table_ok t"
  show "set (table_scan_back lo hi t)
      = {(k, v). table_get t k = Some v \<and> (\<forall>l. lo = Some l \<longrightarrow> l \<le> k) \<and> k \<le> hi}"
    using t by (auto simp: table_scan_back_def table_get_iff split: option.splits)
  show "sorted_wrt (>) (map fst (table_scan_back lo hi t))"
    using table_filter_ok [OF t]
    by (simp add: table_scan_back_def table_ok_def sorted_wrt_rev flip: rev_map)
qed (simp_all add: table_put_get table_put_ok table_delete_range_def table_filter_ok
    table_filter_get)

end
