(* ===== verification/Accounting_Store.thy ===== *)
theory Accounting_Store
  imports F64 Ordered_Table
begin

unbundle bit_operations_syntax

text \<open>
  The accounting half of the store: the PPLNS share record of
  \<open>accounting/simple_pplns/mod.rs\<close>, the identifiers of \<open>utils/snowflake_simplified.rs\<close>, and
  the column families for shares, jobs and users with the operations of
  \<open>store/pplns_shares.rs\<close>, \<open>store/job_store.rs\<close>, \<open>store/user.rs\<close> and
  \<open>store/background_tasks.rs\<close>. The clock is an argument of every operation that reads it.
\<close>

section \<open>Data\<close>

record simple_pplns_share =
  pps_user_id :: u64
  pps_difficulty :: f64
  pps_btcaddress :: "string option"
  pps_workername :: "string option"
  pps_n_time :: u64
  pps_job_id :: string
  pps_extranonce2 :: string
  pps_nonce :: string

definition simple_pplns_share_new ::
  "u64 \<Rightarrow> f64 \<Rightarrow> string \<Rightarrow> string \<Rightarrow> u64 \<Rightarrow> string \<Rightarrow> string \<Rightarrow> string \<Rightarrow> simple_pplns_share" where
  "simple_pplns_share_new user_id difficulty btcaddress workername n_time job_id extranonce2 nonce =
     \<lparr>pps_user_id = user_id, pps_difficulty = difficulty, pps_btcaddress = Some btcaddress,
      pps_workername = Some workername, pps_n_time = n_time, pps_job_id = job_id,
      pps_extranonce2 = extranonce2, pps_nonce = nonce\<rparr>"

definition make_key :: "u64 \<Rightarrow> u64 \<Rightarrow> u64 \<Rightarrow> bytes" where
  "make_key n_time user_id seq =
     be_bytes 8 (unat n_time) @ be_bytes 8 (unat user_id) @ be_bytes 8 (unat seq)"

text \<open>\<open>key[0..8]\<close> and \<open>key[8..16]\<close> panic on a shorter key.\<close>

definition parse_key :: "bytes \<Rightarrow> (store_error, u64 \<times> u64) outcome" where
  "parse_key key =
     (if length key < 16 then Panic
      else Ok (word_of_nat (of_be_bytes (take 8 key)),
               word_of_nat (of_be_bytes (take 8 (drop 8 key)))))"

record stored_user =
  su_user_id :: u64
  su_btcaddress :: string
  su_created_at :: u64

section \<open>Identifiers\<close>

definition CUSTOM_EPOCH :: u64 where "CUSTOM_EPOCH = 1735689600000"

text \<open>The result is the identifier and the advanced global sequence.\<close>

definition get_next_id :: "u64 \<Rightarrow> u32 \<Rightarrow> u64 \<times> u32" where
  "get_next_id now_millis SEQ =
     (let timestamp = now_millis - CUSTOM_EPOCH;
          seq = SEQ AND (push_bit 22 1 - 1)
      in (push_bit 22 timestamp OR ucast seq, SEQ + 1))"

section \<open>The column families\<close>

text \<open>
  Shares and jobs are iterated in key order; users and their index are read by key. What the
  share family keeps of a share is what its encoding keeps, so the address and the worker
  name are dropped on the way in. A store opened read-only refuses writes.
\<close>

record accounting_store =
  share_cf :: "(bytes, simple_pplns_share cell) table"
  job_cf :: "(bytes, string cell) table"
  user_cf :: "u64 \<Rightarrow> stored_user cell"
  user_index_cf :: "string \<Rightarrow> u64 cell"
  id_sequence :: u32
  read_only :: bool

definition stored_form :: "simple_pplns_share \<Rightarrow> simple_pplns_share" where
  "stored_form s = s\<lparr>pps_btcaddress := None, pps_workername := None\<rparr>"

definition add_pplns_share ::
  "u64 \<Rightarrow> simple_pplns_share \<Rightarrow> 'a accounting_store_scheme
     \<Rightarrow> (store_error, unit) outcome \<times> 'a accounting_store_scheme" where
  "add_pplns_share now_millis pplns_share st =
     (let n_time = pps_n_time pplns_share * 1000000;
          (seq_id, seq') = get_next_id now_millis (id_sequence st);
          key = make_key n_time (pps_user_id pplns_share) seq_id;
          st' = st\<lparr>id_sequence := seq'\<rparr>
      in if read_only st then (Err DbError, st')
         else (Ok (), st'\<lparr>share_cf := table_put key (Stored (stored_form pplns_share)) (share_cf st)\<rparr>))"

definition get_btcaddresses_for_user_ids ::
  "'a accounting_store_scheme \<Rightarrow> u64 list \<Rightarrow> (u64 \<times> string) list" where
  "get_btcaddresses_for_user_ids st user_ids =
     List.map_filter
       (\<lambda>user_id. case user_cf st user_id of
          Stored stored_user \<Rightarrow> Some (user_id, su_btcaddress stored_user)
        | _ \<Rightarrow> None)
       user_ids"

definition populate_btcaddresses ::
  "'a accounting_store_scheme \<Rightarrow> simple_pplns_share list \<Rightarrow> simple_pplns_share list" where
  "populate_btcaddresses st shares =
     (let user_ids = map pps_user_id shares;
          btcaddress_map = map_of (rev (get_btcaddresses_for_user_ids st user_ids))
      in List.map_filter
           (\<lambda>share. map_option (\<lambda>btcaddress. share\<lparr>pps_btcaddress := Some btcaddress\<rparr>)
              (btcaddress_map (pps_user_id share)))
           shares)"

definition INITIAL_SHARE_VEC_CAPACITY :: nat where
  "INITIAL_SHARE_VEC_CAPACITY = 100000"

definition get_pplns_shares_filtered ::
  "u64 \<Rightarrow> 'a accounting_store_scheme \<Rightarrow> nat option \<Rightarrow> u64 option \<Rightarrow> u64 option
     \<Rightarrow> simple_pplns_share list" where
  "get_pplns_shares_filtered now_micros st limit start_time end_time =
     (let effective_end_time = (case end_time of Some t \<Rightarrow> t * 1000000 | None \<Rightarrow> now_micros);
          lower_bound = map_option (\<lambda>start. make_key (start * 1000000) 0 0) start_time;
          end_key = make_key effective_end_time (- 1) (- 1);
          use_limit = (case limit of Some l \<Rightarrow> l | None \<Rightarrow> INITIAL_SHARE_VEC_CAPACITY);
          items = take use_limit (table_scan_back lower_bound end_key (share_cf st));
          shares = List.map_filter (\<lambda>(key, value). stored_value value) items
      in populate_btcaddresses st shares)"

definition get_pplns_shares :: "u64 \<Rightarrow> 'a accounting_store_scheme \<Rightarrow> simple_pplns_share list" where
  "get_pplns_shares now_micros st = get_pplns_shares_filtered now_micros st None None None"

definition add_job ::
  "u64 \<Rightarrow> string \<Rightarrow> 'a accounting_store_scheme
     \<Rightarrow> (store_error, unit) outcome \<times> 'a accounting_store_scheme" where
  "add_job timestamp serialized_notify st =
     (if read_only st then (Err DbError, st)
      else (Ok (), st\<lparr>job_cf := table_put (be_bytes 8 (unat timestamp)) (Stored serialized_notify)
                                (job_cf st)\<rparr>))"

definition job_item :: "bytes \<times> string cell \<Rightarrow> (store_error, u64 \<times> string) outcome" where
  "job_item item =
     (case item of (key, value) \<Rightarrow>
        if length key \<noteq> 8 then Err (Message ''Invalid timestamp key'')
        else case stored_value value of
               None \<Rightarrow> Err (Message ''Invalid job data'')
             | Some job_data \<Rightarrow> Ok (word_of_nat (of_be_bytes key), job_data))"

definition get_jobs ::
  "u64 \<Rightarrow> 'a accounting_store_scheme \<Rightarrow> u64 option \<Rightarrow> u64 option \<Rightarrow> nat
     \<Rightarrow> (store_error, (u64 \<times> string) list) outcome" where
  "get_jobs now_micros st start_time end_time limit =
     (let effective_end_time = (case end_time of Some t \<Rightarrow> t | None \<Rightarrow> now_micros);
          lower_bound = map_option (\<lambda>start. be_bytes 8 (unat start)) start_time
      in collect job_item
           (take limit (table_scan_back lower_bound (be_bytes 8 (unat effective_end_time)) (job_cf st))))"

definition add_user ::
  "u64 \<Rightarrow> u64 \<Rightarrow> string \<Rightarrow> 'a accounting_store_scheme
     \<Rightarrow> (store_error, u64) outcome \<times> 'a accounting_store_scheme" where
  "add_user now_millis now_secs btcaddress st =
     (case user_index_cf st btcaddress of
        ReadError \<Rightarrow> (Err DbError, st)
      | Corrupt \<Rightarrow> (Err (Message ''Invalid user ID format in index''), st)
      | Stored user_id \<Rightarrow> (Ok user_id, st)
      | Absent \<Rightarrow>
          let (user_id, seq') = get_next_id now_millis (id_sequence st);
              new_user = \<lparr>su_user_id = user_id, su_btcaddress = btcaddress, su_created_at = now_secs\<rparr>;
              st' = st\<lparr>id_sequence := seq'\<rparr>
          in if read_only st then (Err DbError, st')
             else (Ok user_id,
                   st'\<lparr>user_cf := (user_cf st)(user_id := Stored new_user),
                       user_index_cf := (user_index_cf st)(btcaddress := Stored user_id)\<rparr>))"

definition get_user_by_id ::
  "'a accounting_store_scheme \<Rightarrow> u64 \<Rightarrow> (store_error, stored_user option) outcome" where
  "get_user_by_id st user_id =
     (case user_cf st user_id of
        ReadError \<Rightarrow> Err DbError
      | Stored u \<Rightarrow> Ok (Some u)
      | Corrupt \<Rightarrow> Ok None
      | Absent \<Rightarrow> Ok None)"

definition get_user_by_btcaddress ::
  "'a accounting_store_scheme \<Rightarrow> string \<Rightarrow> (store_error, stored_user option) outcome" where
  "get_user_by_btcaddress st btcaddress =
     (case user_index_cf st btcaddress of
        ReadError \<Rightarrow> Err DbError
      | Corrupt \<Rightarrow> Err (Message ''Invalid user ID format in index'')
      | Stored user_id \<Rightarrow> get_user_by_id st user_id
      | Absent \<Rightarrow> Ok None)"

section \<open>Pruning\<close>

text \<open>One tick of the background task runs both prunings; their errors are only logged.\<close>

definition prune_shares ::
  "u64 \<Rightarrow> u64 \<Rightarrow> 'a accounting_store_scheme
     \<Rightarrow> (store_error, unit) outcome \<times> 'a accounting_store_scheme" where
  "prune_shares now_micros ttl_micros st =
     (let cutoff_micros = saturating_sub now_micros ttl_micros;
          start_key = make_key 0 0 0;
          end_key = make_key (saturating_add cutoff_micros 1) 0 0
      in if read_only st then (Err DbError, st)
         else (Ok (), st\<lparr>share_cf := table_delete_range start_key end_key (share_cf st)\<rparr>))"

definition prune_jobs ::
  "u64 \<Rightarrow> u64 \<Rightarrow> 'a accounting_store_scheme
     \<Rightarrow> (store_error, unit) outcome \<times> 'a accounting_store_scheme" where
  "prune_jobs now_micros ttl_micros st =
     (let cutoff_micros = saturating_sub now_micros ttl_micros;
          start_key = be_bytes 8 0;
          end_key = be_bytes 8 (unat (saturating_add cutoff_micros 1))
      in if read_only st then (Err DbError, st)
         else (Ok (), st\<lparr>job_cf := table_delete_range start_key end_key (job_cf st)\<rparr>))"

definition background_tick ::
  "u64 \<Rightarrow> u64 \<Rightarrow> u64 \<Rightarrow> 'a accounting_store_scheme \<Rightarrow> 'a accounting_store_scheme" where
  "background_tick now_shares now_jobs ttl_micros st =
     snd (prune_jobs now_jobs ttl_micros (snd (prune_shares now_shares ttl_micros st)))"

section \<open>Keys and identifiers\<close>

lemma length_make_key [simp]: "length (make_key t u i) = 24"
  by (simp add: make_key_def)

lemma make_key_less_iff:
  "make_key t u i < make_key t' u' i' \<longleftrightarrow>
     t < t' \<or> t = t' \<and> (u < u' \<or> u = u' \<and> i < i')"
  by (simp add: make_key_def append_less_iff)

lemma make_key_eq_iff: "make_key t u i = make_key t' u' i' \<longleftrightarrow> t = t' \<and> u = u' \<and> i = i'"
  by (auto simp: make_key_def)

lemma make_key_le_iff:
  "make_key t u i \<le> make_key t' u' i' \<longleftrightarrow>
     t < t' \<or> t = t' \<and> (u < u' \<or> u = u' \<and> i \<le> i')"
  by (auto simp: le_less make_key_less_iff make_key_eq_iff)

lemma make_key_lower: "make_key t 0 0 \<le> make_key t' u i \<longleftrightarrow> t \<le> t'"
  by (cases "u = 0") (auto simp: make_key_le_iff word_gt_0 le_less [of t t'])

lemma make_key_upper: "make_key t u i \<le> make_key t' (- 1) (- 1) \<longleftrightarrow> t \<le> t'"
  by (cases "u = - 1")
    (auto simp: make_key_le_iff le_less [of t t'] word_order.not_eq_extremum)

lemma bit_next_id:
  "bit (fst (get_next_id now s)) n \<longleftrightarrow>
     (if n < 22 then bit s n else n < 64 \<and> bit (now - CUSTOM_EPOCH) (n - 22))"
proof -
  have m: "push_bit 22 1 - 1 = (mask 22 :: u32)" by (simp add: mask_eq_exp_minus_1 push_bit_eq_mult)
  show ?thesis
    unfolding get_next_id_def m Let_def
    by (auto simp: bit_simps dest: bit_imp_le_length)
qed

lemma next_id_eq_iff:
  "fst (get_next_id now s) = fst (get_next_id now' s') \<longleftrightarrow>
     take_bit 42 (now - CUSTOM_EPOCH) = take_bit 42 (now' - CUSTOM_EPOCH)
     \<and> take_bit 22 s = take_bit 22 s'"
  (is "?l \<longleftrightarrow> ?r")
proof
  assume ?l
  then have b: "bit (fst (get_next_id now s)) n = bit (fst (get_next_id now' s')) n" for n by simp
  have "bit (now - CUSTOM_EPOCH) n = bit (now' - CUSTOM_EPOCH) n" if "n < 42" for n
    using b [of "n + 22"] that by (simp add: bit_next_id)
  moreover have "bit s n = bit s' n" if "n < 22" for n
    using b [of n] that by (simp add: bit_next_id)
  ultimately show ?r by (auto intro!: bit_eqI simp: bit_take_bit_iff)
next
  assume r: ?r
  have "bit (now - CUSTOM_EPOCH) n = bit (now' - CUSTOM_EPOCH) n" if "n < 42" for n
    using r that by (metis bit_take_bit_iff)
  moreover have "bit s n = bit s' n" if "n < 22" for n
    using r that by (metis bit_take_bit_iff)
  ultimately show ?l by (auto intro!: bit_eqI simp: bit_next_id)
qed

section \<open>The invariant of the accounting store\<close>

text \<open>
  Every share lies under the key made of its own time and user, its time in microseconds
  fits 64 bits; job keys have eight bytes; the index of users and the users agree.
\<close>

definition micros_fit :: "u64 \<Rightarrow> bool" where
  "micros_fit t \<longleftrightarrow> unat t * 1000000 < 2 ^ 64"

definition share_entry_ok :: "bytes \<times> simple_pplns_share cell \<Rightarrow> bool" where
  "share_entry_ok entry \<longleftrightarrow>
     (case entry of (k, c) \<Rightarrow>
        (\<exists>t u i. k = make_key t u i
           \<and> (\<forall>s. c = Stored s \<longrightarrow>
                t = pps_n_time s * 1000000 \<and> u = pps_user_id s \<and> micros_fit (pps_n_time s))))"

definition accounting_inv :: "'a accounting_store_scheme \<Rightarrow> bool" where
  "accounting_inv st \<longleftrightarrow>
     table_ok (share_cf st) \<and> (\<forall>e \<in> set (share_cf st). share_entry_ok e)
     \<and> table_ok (job_cf st) \<and> (\<forall>(k, c) \<in> set (job_cf st). \<exists>t. k = be_bytes 8 (unat (t::u64)))
     \<and> (\<forall>a i. user_index_cf st a = Stored i \<longrightarrow>
          (\<exists>u. user_cf st i = Stored u \<and> su_btcaddress u = a \<and> su_user_id u = i))"

lemma micros_le_iff:
  assumes "micros_fit t" "micros_fit t'"
  shows "t * 1000000 \<le> t' * 1000000 \<longleftrightarrow> t \<le> t'"
  using assms by (simp add: micros_fit_def word_le_nat_alt unat_word_ariths)

lemma add_pplns_share_inv:
  assumes "accounting_inv st" "micros_fit (pps_n_time share)"
  shows "accounting_inv (snd (add_pplns_share now share st))"
proof -
  let ?k = "make_key (pps_n_time share * 1000000) (pps_user_id share) (fst (get_next_id now (id_sequence st)))"
  have "share_entry_ok (?k, Stored (stored_form share))"
    using assms(2) by (auto simp: share_entry_ok_def stored_form_def)
  then show ?thesis
    using assms(1) by (auto simp: accounting_inv_def add_pplns_share_def Let_def split_def
        table_put_ok table_put_set)
qed

lemma add_job_inv:
  assumes "accounting_inv st"
  shows "accounting_inv (snd (add_job t n st))"
  using assms unfolding accounting_inv_def add_job_def
  by (auto simp: table_put_ok table_put_set)

lemma prune_inv:
  assumes "accounting_inv st"
  shows "accounting_inv (snd (prune_shares now ttl st))" "accounting_inv (snd (prune_jobs now ttl st))"
  using assms
  by (auto simp: accounting_inv_def prune_shares_def prune_jobs_def Let_def
      table_delete_range_def table_filter_ok)

lemma add_user_inv:
  assumes "accounting_inv st" "user_cf st (fst (get_next_id now (id_sequence st))) = Absent"
  shows "accounting_inv (snd (add_user now secs a st))"
proof (cases "user_index_cf st a")
  case Absent
  then show ?thesis
    using assms unfolding accounting_inv_def add_user_def
    by (auto simp: Let_def split_def) (metis cell.distinct(1))
qed (use assms(1) in \<open>auto simp: add_user_def\<close>)

section \<open>Queries\<close>

lemma btcaddress_map:
  "map_of (rev (get_btcaddresses_for_user_ids st ids)) i =
     (if i \<in> set ids then map_option su_btcaddress (stored_value (user_cf st i)) else None)"
proof (induction ids)
  case Nil
  then show ?case by (simp add: get_btcaddresses_for_user_ids_def)
next
  case (Cons j ids)
  then show ?case
    by (cases "user_cf st j")
      (auto simp: get_btcaddresses_for_user_ids_def List.map_filter_simps map_add_def
        split: option.splits)
qed

definition enrich :: "'a accounting_store_scheme \<Rightarrow> simple_pplns_share \<Rightarrow> simple_pplns_share option" where
  "enrich st s =
     map_option (\<lambda>u. s\<lparr>pps_btcaddress := Some (su_btcaddress u)\<rparr>) (stored_value (user_cf st (pps_user_id s)))"

lemma map_filter_cong: "(\<And>x. x \<in> set xs \<Longrightarrow> f x = g x) \<Longrightarrow> List.map_filter f xs = List.map_filter g xs"
  by (induction xs) (auto simp: List.map_filter_simps split: option.splits)

lemma populate_eq: "populate_btcaddresses st shares = List.map_filter (enrich st) shares"
  unfolding populate_btcaddresses_def Let_def
  by (rule map_filter_cong) (auto simp: btcaddress_map enrich_def option.map_comp comp_def)

lemma set_map_filter: "set (List.map_filter f xs) = {y. \<exists>x \<in> set xs. f x = Some y}"
  by (induction xs) (auto simp: List.map_filter_simps split: option.splits)

lemma set_decoded:
  "s \<in> set (List.map_filter (\<lambda>(key, value). stored_value value) xs) \<longleftrightarrow>
     (\<exists>k. (k, Stored s) \<in> set xs)"
  by (force simp: set_map_filter)

lemma sorted_wrt_map_filter:
  assumes "sorted_wrt R xs" "\<And>x y x' y'. x \<in> set xs \<Longrightarrow> y \<in> set xs \<Longrightarrow> R x y \<Longrightarrow>
    f x = Some x' \<Longrightarrow> f y = Some y' \<Longrightarrow> Q x' y'"
  shows "sorted_wrt Q (List.map_filter f xs)"
  using assms
proof (induction xs)
  case (Cons x xs)
  have "sorted_wrt Q (List.map_filter f xs)" by (rule Cons.IH) (use Cons.prems in auto)
  moreover have "Q y z" if "f x = Some y" "z \<in> set (List.map_filter f xs)" for y z
    using that Cons.prems(1) by (auto simp: set_map_filter intro: Cons.prems(2))
  ultimately show ?case
    by (auto simp: List.map_filter_simps split: option.splits)
qed (simp add: List.map_filter_simps)

lemma scanned_entry:
  assumes "accounting_inv st" "micros_fit a" "micros_fit b"
    and "(k, c) \<in> set (share_cf st)" "c = Stored s"
  shows "make_key (a * 1000000) 0 0 \<le> k \<longleftrightarrow> a \<le> pps_n_time s"
    and "k \<le> make_key (b * 1000000) (- 1) (- 1) \<longleftrightarrow> pps_n_time s \<le> b"
proof -
  have "share_entry_ok (k, Stored s)" using assms by (simp add: accounting_inv_def)
  then obtain i where "k = make_key (pps_n_time s * 1000000) (pps_user_id s) i" "micros_fit (pps_n_time s)"
    by (auto simp: share_entry_ok_def)
  then show "make_key (a * 1000000) 0 0 \<le> k \<longleftrightarrow> a \<le> pps_n_time s"
    and "k \<le> make_key (b * 1000000) (- 1) (- 1) \<longleftrightarrow> pps_n_time s \<le> b"
    using assms(2,3) by (simp_all add: make_key_lower make_key_upper micros_le_iff)
qed

lemma scan_set:
  assumes "accounting_inv st"
  shows "set (table_scan_back lo hi (share_cf st)) =
    {(k, c). (k, c) \<in> set (share_cf st) \<and> (\<forall>l. lo = Some l \<longrightarrow> l \<le> k) \<and> k \<le> hi}"
  using assms rocks_table.scan_back_set [of "share_cf st" lo hi]
  by (auto simp: accounting_inv_def table_get_iff)

lemma length_scan_back: "length (table_scan_back lo hi t) \<le> length t"
  by (simp add: table_scan_back_def)

text \<open>What a window query is meant to answer, over the entries of the family as a set.\<close>

definition window_shares ::
  "(u64 \<Rightarrow> stored_user cell) \<Rightarrow> (bytes \<times> simple_pplns_share cell) set \<Rightarrow> u64 \<Rightarrow> u64
     \<Rightarrow> simple_pplns_share set" where
  "window_shares users entries a b =
     {s\<lparr>pps_btcaddress := Some (su_btcaddress u)\<rparr> | s u k.
        (k, Stored s) \<in> entries \<and> users (pps_user_id s) = Stored u
        \<and> a \<le> pps_n_time s \<and> pps_n_time s \<le> b}"

lemma window_shares_insert:
  assumes "users (pps_user_id s) = Stored u" "a \<le> pps_n_time s" "pps_n_time s \<le> b"
  shows "window_shares users (insert (k, Stored s) E) a b
    = insert (s\<lparr>pps_btcaddress := Some (su_btcaddress u)\<rparr>) (window_shares users E a b)"
proof (intro set_eqI iffI)
  fix x
  assume "x \<in> window_shares users (insert (k, Stored s) E) a b"
  then show "x \<in> insert (s\<lparr>pps_btcaddress := Some (su_btcaddress u)\<rparr>) (window_shares users E a b)"
    using assms unfolding window_shares_def by auto
next
  fix x
  assume "x \<in> insert (s\<lparr>pps_btcaddress := Some (su_btcaddress u)\<rparr>) (window_shares users E a b)"
  then show "x \<in> window_shares users (insert (k, Stored s) E) a b"
    using assms unfolding window_shares_def by blast
qed

lemma filtered_members:
  assumes inv: "accounting_inv st" and fit: "micros_fit a" "micros_fit b"
    and room: "length (share_cf st) \<le> limit"
  shows "set (get_pplns_shares_filtered now st (Some limit) (Some a) (Some b)) =
    window_shares (user_cf st) (set (share_cf st)) a b"
proof -
  let ?items = "table_scan_back (Some (make_key (a * 1000000) 0 0)) (make_key (b * 1000000) (- 1) (- 1)) (share_cf st)"
  have "take limit ?items = ?items"
    by (rule take_all) (rule order_trans [OF length_scan_back room])
  then have "get_pplns_shares_filtered now st (Some limit) (Some a) (Some b) =
      List.map_filter (enrich st) (List.map_filter (\<lambda>(key, value). stored_value value) ?items)"
    by (simp add: get_pplns_shares_filtered_def populate_eq)
  moreover have "(k, Stored s) \<in> set ?items \<longleftrightarrow>
      (k, Stored s) \<in> set (share_cf st) \<and> a \<le> pps_n_time s \<and> pps_n_time s \<le> b" for k s
    using scanned_entry [OF inv fit, of k "Stored s" s] by (auto simp: scan_set [OF inv])
  then have "s \<in> set (List.map_filter (\<lambda>(key, value). stored_value value) ?items) \<longleftrightarrow>
      (\<exists>k. (k, Stored s) \<in> set (share_cf st) \<and> a \<le> pps_n_time s \<and> pps_n_time s \<le> b)" for s
    by (simp add: set_decoded)
  ultimately show ?thesis
    by (auto simp: set_map_filter [of "enrich st"] enrich_def window_shares_def) blast
qed

text \<open>Whatever the limit, a query answers nothing outside its window.\<close>

lemma filtered_subset:
  assumes "accounting_inv st" "micros_fit a" "micros_fit b"
  shows "set (get_pplns_shares_filtered now st limit (Some a) (Some b))
    \<subseteq> window_shares (user_cf st) (set (share_cf st)) a b"
proof
  fix x
  assume x: "x \<in> set (get_pplns_shares_filtered now st limit (Some a) (Some b))"
  have "x \<in> set (get_pplns_shares_filtered now st (Some (length (share_cf st))) (Some a) (Some b))"
    using x length_scan_back [of _ _ "share_cf st"]
    by (auto simp: get_pplns_shares_filtered_def populate_eq set_map_filter [of "enrich st"] set_decoded
        Bex_def dest!: in_set_takeD)
  then show "x \<in> window_shares (user_cf st) (set (share_cf st)) a b"
    by (simp add: filtered_members [OF assms])
qed

lemma filtered_address:
  "x \<in> set (get_pplns_shares_filtered now st limit start stop) \<Longrightarrow> pps_btcaddress x \<noteq> None"
  by (auto simp: get_pplns_shares_filtered_def populate_eq set_map_filter [of "enrich st"] enrich_def Let_def)

lemma prune_key_bounds:
  assumes "share_entry_ok (k, c)"
  shows "make_key 0 0 0 \<le> k"
  using assms by (auto simp: share_entry_ok_def make_key_lower)

lemma saturating_add_1:
  fixes t c :: u64
  assumes "c \<noteq> - 1"
  shows "saturating_add c 1 \<le> t \<longleftrightarrow> c < t"
proof -
  have "unat c \<noteq> unat (- 1 :: u64)" using assms by (metis unsigned_word_eqI)
  then have "unat c \<noteq> 2 ^ 64 - 1" unfolding unat_minus_one_exp by simp
  then have "unat (saturating_add c 1) = unat c + 1"
    using unsigned_less [of c, where ?'a = nat] by (simp add: unat_saturating_add)
  then show ?thesis by (simp add: word_le_nat_alt word_less_nat_alt Suc_le_eq)
qed

fun next_ids :: "u64 list \<Rightarrow> u32 \<Rightarrow> u64 list" where
  "next_ids [] s = []"
| "next_ids (now # nows) s = (let (i, s') = get_next_id now s in i # next_ids nows s')"

lemma length_next_ids [simp]: "length (next_ids nows s) = length nows"
  by (induction nows s rule: next_ids.induct) (auto simp: get_next_id_def)

lemma next_ids_nth:
  "i < length nows \<Longrightarrow> next_ids nows s ! i = fst (get_next_id (nows ! i) (s + word_of_nat i))"
proof (induction nows arbitrary: s i)
  case (Cons now nows)
  then show ?case
    by (cases i) (simp_all add: get_next_id_def Let_def algebra_simps)
qed simp

lemma sequence_distinct:
  assumes "i < j" "j < 2 ^ 22"
  shows "take_bit 22 (s + word_of_nat i :: u32) \<noteq> take_bit 22 (s + word_of_nat j)"
proof
  have low: "unat (take_bit 22 (s + word_of_nat k :: u32)) = (unat s + k) mod 2 ^ 22" if "k < 2 ^ 22" for k
    using that by (simp add: unsigned_take_bit_eq take_bit_eq_mod unat_word_ariths unat_of_nat mod_mod_cancel)
  assume "take_bit 22 (s + word_of_nat i :: u32) = take_bit 22 (s + word_of_nat j)"
  then have "(unat s + i) mod 2 ^ 22 = (unat s + j) mod 2 ^ 22"
    using assms low [of i] low [of j] by simp
  then have "2 ^ 22 dvd (unat s + j) - (unat s + i)"
    using assms(1) by (metis add_le_cancel_left less_imp_le mod_eq_dvd_iff_nat)
  then show False using assms by (auto dest!: dvd_imp_le)
qed

lemma filtered_descending:
  assumes inv: "accounting_inv st"
  shows "sorted_wrt (\<lambda>s s'. pps_n_time s' \<le> pps_n_time s)
    (get_pplns_shares_filtered now st limit start stop)"
proof -
  have key: "pps_n_time s' \<le> pps_n_time s"
    if "(k, Stored s) \<in> set (share_cf st)" "(k', Stored s') \<in> set (share_cf st)" "k' < k" for k k' s s'
  proof -
    have "share_entry_ok (k, Stored s)" "share_entry_ok (k', Stored s')"
      using that inv by (simp_all add: accounting_inv_def)
    then have "pps_n_time s' * 1000000 \<le> pps_n_time s * 1000000"
      and "micros_fit (pps_n_time s)" "micros_fit (pps_n_time s')"
      using that(3) by (auto simp: share_entry_ok_def make_key_less_iff)
    then show ?thesis by (simp add: micros_le_iff)
  qed
  have desc: "sorted_wrt (\<lambda>e e'. fst e' < fst e) (table_scan_back lo hi (share_cf st))" for lo hi
    using rocks_table.scan_back_descending [of "share_cf st" lo hi] inv
    by (simp add: accounting_inv_def sorted_wrt_map)
  show ?thesis
    unfolding get_pplns_shares_filtered_def populate_eq Let_def
    by (rule sorted_wrt_map_filter [of "\<lambda>s s'. pps_n_time s' \<le> pps_n_time s"],
        rule sorted_wrt_map_filter [OF sorted_wrt_take [OF desc]])
      (auto simp: enrich_def scan_set [OF inv] dest!: in_set_takeD intro: key)
qed

section \<open>Properties\<close>

text \<open>
  The keys of the share family: \<open>parse_key\<close> inverts \<open>make_key\<close>, and the byte
  order of the keys, which is the order RocksDB iterates in, is the order of time first, then
  user, then sequence number.
\<close>

theorem share_key_correct:
  "parse_key (make_key t u i) = Ok (t, u)
   \<and> (make_key t u i < make_key t' u' i' \<longleftrightarrow>
        t < t' \<or> t = t' \<and> (u < u' \<or> u = u' \<and> i < i'))"
proof
  show "parse_key (make_key t u i) = Ok (t, u)"
    by (simp add: parse_key_def make_key_def)
qed (rule make_key_less_iff)

text \<open>
  C10: a time-window query returns exactly the shares of known users whose time lies in the
  window, both ends included, each with the address of its user filled in; and whatever the
  limit, it returns them newest first.
\<close>

theorem filtered_query_correct:
  assumes "accounting_inv st" "micros_fit a" "micros_fit b" "length (share_cf st) \<le> limit"
  shows "set (get_pplns_shares_filtered now st (Some limit) (Some a) (Some b)) =
      {s\<lparr>pps_btcaddress := Some (su_btcaddress u)\<rparr> | s u k.
         (k, Stored s) \<in> set (share_cf st) \<and> user_cf st (pps_user_id s) = Stored u
         \<and> a \<le> pps_n_time s \<and> pps_n_time s \<le> b}
    \<and> sorted_wrt (\<lambda>s s'. pps_n_time s' \<le> pps_n_time s)
        (get_pplns_shares_filtered now st any_limit any_start any_end)"
  using filtered_members [OF assms] filtered_descending [OF assms(1)]
  unfolding window_shares_def by blast

definition fresh_share_id :: "u64 \<Rightarrow> 'a accounting_store_scheme \<Rightarrow> bool" where
  "fresh_share_id now st \<longleftrightarrow>
     (\<forall>t u c. (make_key t u (fst (get_next_id now (id_sequence st))), c) \<notin> set (share_cf st))"

lemma add_share_found:
  assumes "accounting_inv st" "\<not> read_only st" "fresh_share_id now st"
    and "micros_fit (pps_n_time share)" "micros_fit a" "micros_fit b"
    and "user_cf st (pps_user_id share) = Stored u"
    and "a \<le> pps_n_time share" "pps_n_time share \<le> b"
    and "length (share_cf st) < limit"
  shows "fst (add_pplns_share now share st) = Ok ()
    \<and> set (get_pplns_shares_filtered now' (snd (add_pplns_share now share st)) (Some limit) (Some a) (Some b))
      = insert ((stored_form share)\<lparr>pps_btcaddress := Some (su_btcaddress u)\<rparr>)
          (set (get_pplns_shares_filtered now' st (Some limit) (Some a) (Some b)))"
proof -
  let ?st = "snd (add_pplns_share now share st)"
  let ?k = "make_key (pps_n_time share * 1000000) (pps_user_id share) (fst (get_next_id now (id_sequence st)))"
  have inv': "accounting_inv ?st" by (rule add_pplns_share_inv [OF assms(1,4)])
  have ok: "table_ok (share_cf st)" using assms(1) by (simp add: accounting_inv_def)
  have cf: "share_cf ?st = table_put ?k (Stored (stored_form share)) (share_cf st)" "user_cf ?st = user_cf st"
    using assms(2) by (simp_all add: add_pplns_share_def Let_def split_def)
  have new: "e \<in> set (share_cf st) \<Longrightarrow> fst e \<noteq> ?k" for e
    using assms(3) by (cases e) (auto simp: fresh_share_id_def)
  then have set: "set (share_cf ?st) = insert (?k, Stored (stored_form share)) (set (share_cf st))"
    unfolding cf table_put_set [OF ok] by blast
  have "length (share_cf ?st) \<le> limit"
    using assms(10) table_put_length [of ?k "Stored (stored_form share)" "share_cf st"] by (simp add: cf)
  from filtered_members [OF inv' assms(5,6) this]
    filtered_members [OF assms(1,5,6) less_imp_le [OF assms(10)]]
  have "set (get_pplns_shares_filtered now' ?st (Some limit) (Some a) (Some b))
      = insert ((stored_form share)\<lparr>pps_btcaddress := Some (su_btcaddress u)\<rparr>)
          (set (get_pplns_shares_filtered now' st (Some limit) (Some a) (Some b)))"
    unfolding set cf(2) using assms(7-9)
      window_shares_insert [of "user_cf st" "stored_form share" u a b ?k "set (share_cf st)"]
    by (simp add: stored_form_def)
  moreover have "fst (add_pplns_share now share st) = Ok ()"
    using assms(2) by (simp add: add_pplns_share_def Let_def split_def)
  ultimately show ?thesis by blast
qed

text \<open>
  A share that was added is found: after a successful \<open>add_pplns_share\<close> for a known user
  the share, with the user's address, is in the answer of every query whose window contains its
  time, and every share the query found before is still found.
\<close>

theorem added_share_found:
  assumes "accounting_inv st" "\<not> read_only st" "fresh_share_id now st"
    and "micros_fit (pps_n_time share)" "micros_fit a" "micros_fit b"
    and "user_cf st (pps_user_id share) = Stored u"
    and "a \<le> pps_n_time share" "pps_n_time share \<le> b"
    and "length (share_cf st) < limit"
  shows "fst (add_pplns_share now share st) = Ok ()
    \<and> set (get_pplns_shares_filtered now' (snd (add_pplns_share now share st)) (Some limit) (Some a) (Some b))
      = insert ((stored_form share)\<lparr>pps_btcaddress := Some (su_btcaddress u)\<rparr>)
          (set (get_pplns_shares_filtered now' st (Some limit) (Some a) (Some b)))"
  using assms by (rule add_share_found)

text \<open>
  One tick of the background task removes exactly the shares and jobs that are as old as
  the time to live: of the shares those whose time in microseconds is at most the cutoff, of
  the jobs those stamped at or before it. Users are untouched and the store keeps its invariant.
\<close>

theorem background_tick_prunes:
  assumes "accounting_inv st" "\<not> read_only st"
    and "saturating_sub now ttl \<noteq> - 1" "saturating_sub now' ttl \<noteq> - 1"
  shows "set (share_cf (background_tick now now' ttl st)) =
      {(k, c) \<in> set (share_cf st). make_key (saturating_add (saturating_sub now ttl) 1) 0 0 \<le> k}
    \<and> (\<forall>k s. (k, Stored s) \<in> set (share_cf st) \<longrightarrow>
         ((k, Stored s) \<in> set (share_cf (background_tick now now' ttl st)) \<longleftrightarrow>
            saturating_sub now ttl < pps_n_time s * 1000000))
    \<and> set (job_cf (background_tick now now' ttl st)) =
      {(k, c) \<in> set (job_cf st). \<exists>t. k = be_bytes 8 (unat t) \<and> saturating_sub now' ttl < t}
    \<and> user_cf (background_tick now now' ttl st) = user_cf st
    \<and> accounting_inv (background_tick now now' ttl st)"
proof -
  let ?c = "saturating_add (saturating_sub now ttl) 1" and ?c' = "saturating_add (saturating_sub now' ttl) 1"
  have ok: "e \<in> set (share_cf st) \<Longrightarrow> share_entry_ok e"
    "e' \<in> set (job_cf st) \<Longrightarrow> \<exists>t. fst e' = be_bytes 8 (unat (t :: u64))" for e e'
    using assms(1) by (auto simp: accounting_inv_def)
  have shares: "set (share_cf (background_tick now now' ttl st)) = {(k, c) \<in> set (share_cf st). make_key ?c 0 0 \<le> k}"
    using assms(2) ok(1) by (fastforce simp: background_tick_def prune_jobs_def prune_shares_def Let_def
        table_delete_range_def not_less dest: prune_key_bounds)
  have iff: "make_key ?c 0 0 \<le> k \<longleftrightarrow> saturating_sub now ttl < pps_n_time s * 1000000"
    if "(k, Stored s) \<in> set (share_cf st)" for k s
  proof -
    note entry = ok(1) [OF that]
    obtain i where "k = make_key (pps_n_time s * 1000000) (pps_user_id s) i"
      using entry by (auto simp: share_entry_ok_def)
    then show ?thesis by (simp add: make_key_lower saturating_add_1 [OF assms(3)])
  qed
  have "set (job_cf (background_tick now now' ttl st)) =
      {e \<in> set (job_cf st). \<not> (be_bytes 8 (unat (0 :: u64)) \<le> fst e \<and> fst e < be_bytes 8 (unat ?c'))}"
    using assms(2) by (auto simp: background_tick_def prune_jobs_def prune_shares_def Let_def
        table_delete_range_def)
  also have "\<dots> = {(k, c) \<in> set (job_cf st). \<exists>t. k = be_bytes 8 (unat t) \<and> saturating_sub now' ttl < t}"
  proof -
    have "\<not> (be_bytes 8 (unat (0 :: u64)) \<le> k \<and> k < be_bytes 8 (unat ?c')) \<longleftrightarrow>
        (\<exists>t. k = be_bytes 8 (unat t) \<and> saturating_sub now' ttl < t)" if "(k, c) \<in> set (job_cf st)" for k c
    proof -
      note entry = ok(2) [OF that]
      obtain t where "k = be_bytes 8 (unat (t :: u64))" using entry by auto
      then show ?thesis
        using saturating_add_1 [OF assms(4), of t] be_bytes_8_less_iff [of t 0]
        by (auto simp: linorder_not_less [symmetric])
    qed
    then show ?thesis by fastforce
  qed
  finally have jobs: "set (job_cf (background_tick now now' ttl st)) = \<dots>" .
  have "accounting_inv (background_tick now now' ttl st)"
    by (simp add: background_tick_def prune_inv assms(1))
  moreover have "user_cf (background_tick now now' ttl st) = user_cf st"
    by (simp add: background_tick_def prune_jobs_def prune_shares_def Let_def)
  ultimately show ?thesis
    using iff by (simp add: shares jobs)
qed

lemma add_user_stored:
  assumes "accounting_inv st" "add_user now secs a st = (Ok i, st')"
    and "user_cf st (fst (get_next_id now (id_sequence st))) = Absent"
  shows "user_index_cf st' a = Stored i \<and> (\<exists>u. user_cf st' i = Stored u \<and> su_btcaddress u = a \<and> su_user_id u = i)"
proof -
  have "accounting_inv st'" using add_user_inv [OF assms(1,3), of secs a] assms(2) by simp
  moreover have "user_index_cf st' a = Stored i"
    using assms(2) by (auto simp: add_user_def Let_def split_def split: cell.splits if_splits)
  ultimately show ?thesis unfolding accounting_inv_def by blast
qed

text \<open>
  Registering a miner: a successful \<open>add_user\<close> returns an identifier under which, and
  under whose address, the user is found; registering the same address again returns the
  same identifier and changes nothing; users that were there keep their records.
\<close>

theorem add_user_correct:
  assumes "accounting_inv st" "add_user now secs a st = (Ok i, st')"
    and "user_cf st (fst (get_next_id now (id_sequence st))) = Absent"
  shows "(\<exists>u. get_user_by_btcaddress st' a = Ok (Some u) \<and> get_user_by_id st' i = Ok (Some u)
        \<and> su_btcaddress u = a \<and> su_user_id u = i)
    \<and> add_user now2 secs2 a st' = (Ok i, st')
    \<and> (\<forall>j v. user_cf st j = Stored v \<longrightarrow> user_cf st' j = Stored v)
    \<and> accounting_inv st'"
proof (intro conjI)
  show inv': "accounting_inv st'" using add_user_inv [OF assms(1,3), of secs a] assms(2) by simp
  obtain u where idx: "user_index_cf st' a = Stored i" and "user_cf st' i = Stored u" "su_btcaddress u = a" "su_user_id u = i"
    using add_user_stored [OF assms] by blast
  then show "add_user now2 secs2 a st' = (Ok i, st')" by (simp add: add_user_def)
  from idx \<open>user_cf st' i = Stored u\<close> \<open>su_btcaddress u = a\<close> \<open>su_user_id u = i\<close> show "\<exists>u. get_user_by_btcaddress st' a = Ok (Some u) \<and> get_user_by_id st' i = Ok (Some u)
      \<and> su_btcaddress u = a \<and> su_user_id u = i"
    by (simp add: get_user_by_btcaddress_def get_user_by_id_def)
  show "\<forall>j v. user_cf st j = Stored v \<longrightarrow> user_cf st' j = Stored v"
    using assms(2,3) by (auto simp: add_user_def Let_def split_def split: cell.splits if_splits)
qed

text \<open>
  Identifiers do not repeat: whatever the clock returns, even when it stands still or
  goes backwards, any four million consecutive calls of the generator (\<open>2 ^ 22\<close>) return
  pairwise different identifiers.
\<close>

theorem next_ids_distinct:
  assumes "length nows \<le> 2 ^ 22"
  shows "distinct (next_ids nows s)"
proof -
  have "next_ids nows s ! i \<noteq> next_ids nows s ! j" if "i < j" "j < length nows" for i j
    using that assms sequence_distinct [of i j s] by (simp add: next_ids_nth next_id_eq_iff)
  then show ?thesis
    unfolding distinct_conv_nth length_next_ids by (metis linorder_neqE_nat)
qed

text \<open>A small store on which the properties above are applied.\<close>

definition sample_share :: simple_pplns_share where
  "sample_share = simple_pplns_share_new 7 (Fin 4) ''addr'' ''worker'' 100 ''job'' ''00'' ''01''"

definition sample_accounting :: accounting_store where
  "sample_accounting =
     \<lparr>share_cf = [(make_key 90000000 7 1, Stored (stored_form (sample_share\<lparr>pps_n_time := 90\<rparr>)))],
      job_cf = [(be_bytes 8 5, Stored ''notify'')],
      user_cf = (\<lambda>_. Absent)(7 := Stored \<lparr>su_user_id = 7, su_btcaddress = ''addr'', su_created_at = 1\<rparr>),
      user_index_cf = (\<lambda>_. Absent)(''addr'' := Stored 7),
      id_sequence = 0, read_only = False\<rparr>"

lemma sample_accounting_inv: "accounting_inv sample_accounting"
proof -
  have "share_entry_ok (make_key 90000000 7 1, Stored (stored_form (sample_share\<lparr>pps_n_time := 90\<rparr>)))"
    by (auto simp: share_entry_ok_def stored_form_def sample_share_def simple_pplns_share_new_def
        micros_fit_def)
  moreover have "\<exists>t. be_bytes 8 5 = be_bytes 8 (unat (t :: u64))"
    by (rule exI [of _ 5]) simp
  ultimately show ?thesis
    by (simp add: accounting_inv_def sample_accounting_def table_ok_def)
qed

lemma sample_next_id: "get_next_id (CUSTOM_EPOCH + 1) 0 = (4194304, 1)"
  by (simp add: get_next_id_def CUSTOM_EPOCH_def)

theorem filtered_query_correct_witness:
  "set (get_pplns_shares_filtered 0 sample_accounting (Some 5) (Some 80) (Some 95)) =
      {s\<lparr>pps_btcaddress := Some (su_btcaddress u)\<rparr> | s u k.
         (k, Stored s) \<in> set (share_cf sample_accounting)
         \<and> user_cf sample_accounting (pps_user_id s) = Stored u
         \<and> 80 \<le> pps_n_time s \<and> pps_n_time s \<le> 95}"
  using filtered_query_correct [OF sample_accounting_inv, of 80 95 5 0]
  by (simp add: micros_fit_def sample_accounting_def)

theorem added_share_found_witness:
  "(stored_form sample_share)\<lparr>pps_btcaddress := Some ''addr''\<rparr> \<in>
     set (get_pplns_shares_filtered 0 (snd (add_pplns_share (CUSTOM_EPOCH + 1) sample_share sample_accounting))
            (Some 5) (Some 95) (Some 100))"
proof -
  have "fresh_share_id (CUSTOM_EPOCH + 1) sample_accounting"
    by (simp add: fresh_share_id_def sample_accounting_def sample_next_id make_key_eq_iff)
  then show ?thesis
    using added_share_found [OF sample_accounting_inv, of "CUSTOM_EPOCH + 1" sample_share 95 100 _ 5 0]
    by (simp add: micros_fit_def sample_accounting_def sample_share_def simple_pplns_share_new_def)
qed

theorem background_tick_prunes_witness:
  "accounting_inv (background_tick 95000000 95000000 5000000 sample_accounting)
   \<and> user_cf (background_tick 95000000 95000000 5000000 sample_accounting) 7 \<noteq> Absent"
proof -
  have "saturating_sub 95000000 5000000 \<noteq> (- 1 :: u64)" by (simp add: saturating_sub_def)
  then show ?thesis
    using background_tick_prunes [OF sample_accounting_inv, of 95000000 5000000 95000000]
    by (simp add: sample_accounting_def)
qed

theorem add_user_correct_witness:
  "fst (add_user (CUSTOM_EPOCH + 1) 9 ''bob'' sample_accounting) = Ok 4194304
   \<and> accounting_inv (snd (add_user (CUSTOM_EPOCH + 1) 9 ''bob'' sample_accounting))"
proof -
  let ?r = "add_user (CUSTOM_EPOCH + 1) 9 ''bob'' sample_accounting"
  have ok: "fst ?r = Ok 4194304"
    by (simp add: add_user_def sample_accounting_def sample_next_id)
  then have "?r = (Ok 4194304, snd ?r)" by (metis prod.collapse)
  from add_user_correct [OF sample_accounting_inv this] ok show ?thesis
    by (simp add: sample_accounting_def sample_next_id)
qed

theorem next_ids_distinct_witness: "distinct (next_ids [CUSTOM_EPOCH, CUSTOM_EPOCH, CUSTOM_EPOCH - 1] 0)"
  by (rule next_ids_distinct) simp

end
