(* ===== verification/Pool_Config.thy ===== *)
theory Pool_Config
  imports F64
begin

text \<open>
  The stratum configuration and its validation (\<open>config.rs\<close>), with \<open>parse_address\<close> of
  \<open>stratum/work/coinbase.rs\<close>. The address parser and the network check of the bitcoin crate
  are arguments; the type of addresses and of networks is left open.
\<close>

datatype work_error = WorkError string

section \<open>Addresses\<close>

definition parse_address ::
  "(string \<Rightarrow> 'u option) \<Rightarrow> ('u \<Rightarrow> 'net \<Rightarrow> 'addr option) \<Rightarrow> string \<Rightarrow> 'net
     \<Rightarrow> (work_error, 'addr) outcome" where
  "parse_address from_str require_network address network =
     and_then (ok_or (WorkError ''Invalid address'') (from_str address))
       (\<lambda>parsed_address.
          ok_or (WorkError ''Address does not match network'') (require_network parsed_address network))"

section \<open>The stratum configuration\<close>

definition MAX_POOL_SIGNATURE_LENGTH :: nat where
  "MAX_POOL_SIGNATURE_LENGTH = 16"

record ('addr, 'net) stratum_config =
  sc_hostname :: string
  sc_port :: u16
  sc_start_difficulty :: f64
  sc_minimum_difficulty :: f64
  sc_maximum_difficulty :: "f64 option"
  sc_solo_address :: "string option"
  sc_zmqpubhashblock :: string
  sc_bootstrap_address :: string
  sc_donation_address :: "string option"
  sc_donation :: "u16 option"
  sc_fee_address :: "string option"
  sc_fee :: "u16 option"
  sc_network :: 'net
  sc_version_mask :: i32
  sc_difficulty_multiplier :: f64
  sc_ignore_difficulty :: "bool option"
  sc_pool_signature :: "string option"
  sc_bootstrap_address_parsed :: "'addr option"
  sc_donation_address_parsed :: "'addr option"
  sc_fee_address_parsed :: "'addr option"

text \<open>\<open>map(parse).transpose()\<close> on an optional address.\<close>

definition parse_optional ::
  "(string \<Rightarrow> (work_error, 'addr) outcome) \<Rightarrow> string option \<Rightarrow> (work_error, 'addr option) outcome" where
  "parse_optional parse address =
     (case address of None \<Rightarrow> Ok None | Some a \<Rightarrow> and_then (parse a) (\<lambda>p. Ok (Some p)))"

definition config_parse ::
  "(string \<Rightarrow> 'u option) \<Rightarrow> ('u \<Rightarrow> 'net \<Rightarrow> 'addr option) \<Rightarrow> ('addr, 'net) stratum_config
     \<Rightarrow> (work_error, ('addr, 'net) stratum_config) outcome" where
  "config_parse from_str require_network c =
     (let parse = (\<lambda>a. parse_address from_str require_network a (sc_network c))
      in if length (case sc_pool_signature c of None \<Rightarrow> '''' | Some s \<Rightarrow> s) > MAX_POOL_SIGNATURE_LENGTH
         then Err (WorkError ''Pool signature length is limited'')
         else
           and_then (parse (sc_bootstrap_address c)) (\<lambda>bootstrap.
           and_then (parse_optional parse (sc_donation_address c)) (\<lambda>donation.
           and_then (parse_optional parse (sc_fee_address c)) (\<lambda>fee.
             Ok (c\<lparr>sc_bootstrap_address_parsed := Some bootstrap,
                   sc_donation_address_parsed := donation,
                   sc_fee_address_parsed := fee\<rparr>)))))"

definition bootstrap_address :: "('addr, 'net) stratum_config \<Rightarrow> ('e, 'addr) outcome" where
  "bootstrap_address c = unwrap (sc_bootstrap_address_parsed c)"

definition donation_address :: "('addr, 'net) stratum_config \<Rightarrow> 'addr option" where
  "donation_address c = sc_donation_address_parsed c"

definition fee_address :: "('addr, 'net) stratum_config \<Rightarrow> 'addr option" where
  "fee_address c = sc_fee_address_parsed c"

section \<open>Lemmas\<close>

lemma parse_address_Ok_iff:
  "parse_address fs rn a n = Ok p \<longleftrightarrow> (\<exists>u. fs a = Some u \<and> rn u n = Some p)"
  by (auto simp: parse_address_def outcome_simps)

lemma parse_address_not_Panic: "parse_address fs rn a n \<noteq> Panic"
  by (auto simp: parse_address_def outcome_simps)

lemma parse_optional_Ok_iff:
  "parse_optional f a = Ok p \<longleftrightarrow>
     (case a of None \<Rightarrow> p = None | Some s \<Rightarrow> \<exists>q. f s = Ok q \<and> p = Some q)"
  by (auto simp: parse_optional_def outcome_simps split: option.splits)

section \<open>Properties\<close>

text \<open>
  A configuration that was parsed is usable: its pool signature fits the coinbase,
  \<open>bootstrap_address\<close> does not panic on it, every parsed address is the one the configured
  string denotes on the configured network, an address is parsed exactly when one is
  configured, and everything else is as configured. Validation itself never panics.
\<close>

theorem config_parse_sound:
  assumes "config_parse from_str require_network c = Ok p"
  shows "length (case sc_pool_signature p of None \<Rightarrow> '''' | Some s \<Rightarrow> s) \<le> 16
    \<and> (\<exists>a u. (bootstrap_address p :: (work_error, 'addr) outcome) = Ok a
          \<and> from_str (sc_bootstrap_address c) = Some u \<and> require_network u (sc_network c) = Some a)
    \<and> (\<forall>s. sc_donation_address c = Some s \<longrightarrow>
          (\<exists>a u. donation_address p = Some a \<and> from_str s = Some u \<and> require_network u (sc_network c) = Some a))
    \<and> (\<forall>s. sc_fee_address c = Some s \<longrightarrow>
          (\<exists>a u. fee_address p = Some a \<and> from_str s = Some u \<and> require_network u (sc_network c) = Some a))
    \<and> (sc_donation_address c = None \<longrightarrow> donation_address p = None)
    \<and> (sc_fee_address c = None \<longrightarrow> fee_address p = None)
    \<and> p = c\<lparr>sc_bootstrap_address_parsed := sc_bootstrap_address_parsed p,
            sc_donation_address_parsed := sc_donation_address_parsed p,
            sc_fee_address_parsed := sc_fee_address_parsed p\<rparr>
    \<and> config_parse from_str require_network d \<noteq> Panic"
proof -
  have "config_parse from_str require_network d \<noteq> Panic"
    by (auto simp: config_parse_def Let_def outcome_simps parse_address_not_Panic parse_optional_def
        split: option.splits)
  moreover from assms obtain b d f
    where p: "p = c\<lparr>sc_bootstrap_address_parsed := Some b, sc_donation_address_parsed := d,
        sc_fee_address_parsed := f\<rparr>"
      and sig: "length (case sc_pool_signature c of None \<Rightarrow> '''' | Some s \<Rightarrow> s) \<le> 16"
      and b: "parse_address from_str require_network (sc_bootstrap_address c) (sc_network c) = Ok b"
      and d: "parse_optional (\<lambda>a. parse_address from_str require_network a (sc_network c))
        (sc_donation_address c) = Ok d"
      and f: "parse_optional (\<lambda>a. parse_address from_str require_network a (sc_network c))
        (sc_fee_address c) = Ok f"
    unfolding config_parse_def Let_def
    by (simp add: outcome_simps MAX_POOL_SIGNATURE_LENGTH_def not_less split: if_splits) blast
  ultimately show ?thesis
    using sig b d f
    by (simp add: parse_address_Ok_iff parse_optional_Ok_iff bootstrap_address_def
        donation_address_def fee_address_def p outcome_simps split: option.splits) blast+
qed

definition sample_config :: "(string, unit) stratum_config" where
  "sample_config =
     \<lparr>sc_hostname = ''localhost'', sc_port = 3333, sc_start_difficulty = Fin 1,
      sc_minimum_difficulty = Fin 1, sc_maximum_difficulty = Some (Fin 1000),
      sc_solo_address = None, sc_zmqpubhashblock = ''zmq'', sc_bootstrap_address = ''boot'',
      sc_donation_address = Some ''dev'', sc_donation = Some 100, sc_fee_address = None,
      sc_fee = None, sc_network = (), sc_version_mask = 0x1fffe000,
      sc_difficulty_multiplier = Fin 1, sc_ignore_difficulty = None, sc_pool_signature = None,
      sc_bootstrap_address_parsed = Some ''boot'', sc_donation_address_parsed = Some ''dev'',
      sc_fee_address_parsed = None\<rparr>"

theorem config_parse_sound_witness:
  "donation_address sample_config = Some ''dev''"
  using config_parse_sound [of "\<lambda>s. Some s" "\<lambda>a n. Some a" sample_config sample_config]
  by (simp add: sample_config_def config_parse_def parse_address_def parse_optional_def
      MAX_POOL_SIGNATURE_LENGTH_def)

end
