(* ===== verification/Payout.thy ===== *)
theory Payout
  imports Accounting_Store Pool_Config
begin

text \<open>
  The PPLNS payout of \<open>accounting/simple_pplns/payout.rs\<close>: collecting shares backwards in time
  until their difficulty covers the window, cutting donation and fee, and splitting the rest in
  proportion to difficulty. Amounts are the 64-bit satoshi counts of the bitcoin crate, whose
  operators panic on overflow and underflow. The collecting loop may run forever, so it is a
  partial function into \<open>option\<close>, \<open>None\<close> being divergence. The order in which a
  \<open>HashMap\<close> is traversed is an argument.
\<close>

section \<open>Amounts\<close>

type_synonym amount = u64

definition amount_add :: "amount \<Rightarrow> amount \<Rightarrow> ('e, amount) outcome" where
  "amount_add x y = (if unat x + unat y < 2 ^ 64 then Ok (x + y) else Panic)"

definition amount_sub :: "amount \<Rightarrow> amount \<Rightarrow> ('e, amount) outcome" where
  "amount_sub x y = (if y \<le> x then Ok (x - y) else Panic)"

record 'addr output_pair =
  op_address :: 'addr
  op_amount :: amount

datatype payout_error = InvalidAddress string

section \<open>Collecting shares\<close>

fun collect_batch ::
  "f64 \<Rightarrow> simple_pplns_share list \<Rightarrow> f64 \<Rightarrow> simple_pplns_share list \<Rightarrow> f64 \<times> simple_pplns_share list" where
  "collect_batch total_difficulty [] accumulated result = (accumulated, result)"
| "collect_batch total_difficulty (share # batch) accumulated result =
     (if f64_less accumulated total_difficulty
      then collect_batch total_difficulty batch (f64_add accumulated (pps_difficulty share)) (result @ [share])
      else collect_batch total_difficulty batch accumulated result)"

partial_function (option) get_shares_loop ::
  "(u64 \<Rightarrow> u64 \<Rightarrow> simple_pplns_share list) \<Rightarrow> u64 \<Rightarrow> f64 \<Rightarrow> u64 \<Rightarrow> f64
     \<Rightarrow> simple_pplns_share list \<Rightarrow> simple_pplns_share list option" where
  "get_shares_loop query step_size_seconds total_difficulty end_time accumulated result =
     (if f64_less accumulated total_difficulty then
        let start_time = saturating_sub end_time step_size_seconds;
            batch = query start_time end_time
        in if batch = [] then Some result
           else
             let (accumulated', result') = collect_batch total_difficulty batch accumulated result
             in get_shares_loop query step_size_seconds total_difficulty
                  (if f64_less accumulated' total_difficulty then start_time else end_time)
                  accumulated' result'
      else Some result)"

definition get_shares_for_difficulty ::
  "(u64 \<Rightarrow> u64 \<Rightarrow> simple_pplns_share list) \<Rightarrow> u64 \<Rightarrow> u64 \<Rightarrow> f64 \<Rightarrow> simple_pplns_share list option" where
  "get_shares_for_difficulty query step_size_seconds current_time total_difficulty =
     get_shares_loop query step_size_seconds total_difficulty current_time (Fin 0) []"

section \<open>Dividing the reward\<close>

definition BASIS_POINT_FACTOR :: u64 where "BASIS_POINT_FACTOR = 10000"

definition include_address_and_cut ::
  "'addr output_pair list \<Rightarrow> amount \<Rightarrow> 'addr option \<Rightarrow> u16 option
     \<Rightarrow> (payout_error, 'addr output_pair list \<times> amount) outcome" where
  "include_address_and_cut distribution total_amount address cut_option =
     (case (address, cut_option) of
        (Some addr, Some cut_bp) \<Rightarrow>
          if 0 < cut_bp then
            case checked_mul total_amount (ucast cut_bp) of
              Some amount \<Rightarrow>
                let div_amount = amount div BASIS_POINT_FACTOR
                in and_then (amount_sub total_amount div_amount) (\<lambda>remaining.
                     Ok (distribution @ [\<lparr>op_address = addr, op_amount = div_amount\<rparr>], remaining))
            | None \<Rightarrow> Ok (distribution, total_amount)
          else Ok (distribution, total_amount)
      | _ \<Rightarrow> Ok (distribution, total_amount))"

fun group_shares_by_address :: "simple_pplns_share list \<Rightarrow> (string \<times> f64) list \<Rightarrow> (string \<times> f64) list" where
  "group_shares_by_address [] address_difficulty_map = address_difficulty_map"
| "group_shares_by_address (share # shares) address_difficulty_map =
     group_shares_by_address shares
       (case pps_btcaddress share of
          None \<Rightarrow> address_difficulty_map
        | Some btcaddress \<Rightarrow>
            hm_update btcaddress (Fin 0) (\<lambda>d. f64_add d (pps_difficulty share)) address_difficulty_map)"

text \<open>The loop over the map's entries; the last entry takes what is left.\<close>

fun append_entries ::
  "(string \<Rightarrow> 'addr option) \<Rightarrow> f64 \<Rightarrow> amount \<Rightarrow> (string \<times> f64) list \<Rightarrow> amount
     \<Rightarrow> 'addr output_pair list \<Rightarrow> (payout_error, 'addr output_pair list) outcome" where
  "append_entries parse total_difficulty total_amount [] distributed_amount distribution = Ok distribution"
| "append_entries parse total_difficulty total_amount ((address_str, difficulty) # entries)
     distributed_amount distribution =
     and_then (ok_or (InvalidAddress address_str) (parse address_str)) (\<lambda>address.
     and_then
       (if entries = [] then amount_sub total_amount distributed_amount
        else Ok (word_of_nat (f64_to_uint 64 (f64_round
               (f64_mul (f64_of_nat (unat total_amount)) (f64_div difficulty total_difficulty))))))
       (\<lambda>amount.
     and_then (amount_add distributed_amount amount) (\<lambda>distributed_amount'.
       append_entries parse total_difficulty total_amount entries distributed_amount'
         (distribution @ [\<lparr>op_address = address, op_amount = amount\<rparr>]))))"

definition append_proportional_distribution ::
  "(string \<Rightarrow> 'addr option) \<Rightarrow> (string \<times> f64) list \<Rightarrow> amount \<Rightarrow> 'addr output_pair list
     \<Rightarrow> (payout_error, 'addr output_pair list) outcome" where
  "append_proportional_distribution parse address_difficulty_map total_amount distribution =
     append_entries parse (f64_sum (map snd address_difficulty_map)) total_amount
       address_difficulty_map 0 distribution"

definition get_output_distribution ::
  "(string \<Rightarrow> 'addr option) \<Rightarrow> ((string \<times> f64) list \<Rightarrow> (string \<times> f64) list)
     \<Rightarrow> (u64 \<Rightarrow> u64 \<Rightarrow> simple_pplns_share list) \<Rightarrow> u64 \<Rightarrow> u64 \<Rightarrow> f64 \<Rightarrow> amount
     \<Rightarrow> ('addr, 'net) stratum_config \<Rightarrow> (payout_error, 'addr output_pair list) outcome option" where
  "get_output_distribution parse hash_order query step_size_seconds current_time total_difficulty
     total_amount config =
     (case and_then (include_address_and_cut [] total_amount (donation_address config) (sc_donation config))
             (\<lambda>(distribution, remaining).
                include_address_and_cut distribution remaining (fee_address config) (sc_fee config)) of
        Ok (distribution, remaining_total_amount) \<Rightarrow>
          if 0 < remaining_total_amount then
            case get_shares_for_difficulty query step_size_seconds current_time total_difficulty of
              None \<Rightarrow> None
            | Some shares \<Rightarrow>
                Some (if shares = [] then
                        and_then (bootstrap_address config)
                          (\<lambda>a. Ok [\<lparr>op_address = a, op_amount = total_amount\<rparr>])
                      else append_proportional_distribution parse
                             (hash_order (group_shares_by_address shares []))
                             remaining_total_amount distribution)
          else Some (Ok distribution)
      | Err e \<Rightarrow> Some (Err e)
      | Panic \<Rightarrow> Some Panic)"

section \<open>Lemmas: amounts\<close>

definition total_paid :: "'addr output_pair list \<Rightarrow> nat" where
  "total_paid ps = (\<Sum>p\<leftarrow>ps. unat (op_amount p))"

lemma total_paid_simps [simp]:
  "total_paid [] = 0" "total_paid (ps @ qs) = total_paid ps + total_paid qs"
  "total_paid (p # ps) = unat (op_amount p) + total_paid ps"
  by (simp_all add: total_paid_def)

lemma amount_sub_Ok: "amount_sub x y = Ok z \<longleftrightarrow> y \<le> x \<and> z = x - y"
  by (auto simp: amount_sub_def)

lemma amount_add_Ok: "amount_add x y = Ok z \<longleftrightarrow> unat x + unat y < 2 ^ 64 \<and> z = x + y"
  by (auto simp: amount_add_def)

lemma unat_add_exact: "unat x + unat y < 2 ^ 64 \<Longrightarrow> unat (x + y) = unat x + unat y" for x y :: u64
  by (simp add: unat_word_ariths)

lemma unat_sub_exact: "y \<le> x \<Longrightarrow> unat (x - y) = unat x - unat y" for x y :: u64
  by (simp add: unat_sub_if' word_le_nat_alt)

lemma cut_conserves:
  assumes "include_address_and_cut ps tot addr c0 = Ok (ps', rest)"
  shows "total_paid ps' + unat rest = total_paid ps + unat tot"
  using assms
  by (auto simp: include_address_and_cut_def outcome_simps amount_sub_Ok unat_sub_exact
      word_le_nat_alt Let_def split: option.splits if_splits)

lemma cut_no_panic:
  assumes "\<forall>c. c0 = Some c \<longrightarrow> c \<le> 10000"
  shows "include_address_and_cut ps tot addr c0 \<noteq> Panic"
proof -
  have "amount_sub tot (p div BASIS_POINT_FACTOR) \<noteq> (Panic :: (payout_error, amount) outcome)"
    if c: "c0 = Some c" and p: "checked_mul tot (ucast c) = Some p" for c p
  proof -
    have c10: "unat c \<le> 10000" using assms c by (simp add: word_le_nat_alt)
    have "unat p = unat tot * unat c"
      using p unat_ucast_up [of c, where ?'b = 64]
      by (auto simp: checked_mul_def unat_word_ariths split: if_splits)
    then have "unat p div 10000 \<le> unat tot"
      using c10 by (metis div_le_mono div_mult_self_is_m le_refl mult_le_mono2 zero_less_numeral)
    then have "p div BASIS_POINT_FACTOR \<le> tot"
      by (simp add: word_le_nat_alt unat_div BASIS_POINT_FACTOR_def)
    then show ?thesis by (simp add: amount_sub_def)
  qed
  then show ?thesis
    by (auto simp: include_address_and_cut_def outcome_simps Let_def split: option.splits)
qed

lemma append_entries_conserves:
  assumes "append_entries parse D tot entries distributed ps = Ok ps'" "entries \<noteq> []"
  shows "total_paid ps' + unat distributed = total_paid ps + unat tot"
  using assms
proof (induction entries arbitrary: distributed ps)
  case (Cons e entries)
  show ?case
  proof (cases "entries = []")
    case True
    with Cons.prems show ?thesis
      by (cases e) (auto simp: outcome_simps amount_sub_Ok amount_add_Ok unat_sub_exact word_le_nat_alt)
  next
    case False
    with Cons show ?thesis
      by (cases e) (fastforce simp: outcome_simps amount_add_Ok unat_add_exact)
  qed
qed simp

section \<open>Lemmas: the collecting loop\<close>

text \<open>The difficulty accumulated by a list of shares, and that every share of it was needed.\<close>

definition accumulate :: "f64 \<Rightarrow> simple_pplns_share list \<Rightarrow> f64" where
  "accumulate acc xs = foldl f64_add acc (map pps_difficulty xs)"

fun all_needed :: "f64 \<Rightarrow> f64 \<Rightarrow> simple_pplns_share list \<Rightarrow> bool" where
  "all_needed goal acc [] = True"
| "all_needed goal acc (x # xs) \<longleftrightarrow> f64_less acc goal \<and> all_needed goal (f64_add acc (pps_difficulty x)) xs"

lemma accumulate_simps [simp]:
  "accumulate acc [] = acc"
  "accumulate acc (x # xs) = accumulate (f64_add acc (pps_difficulty x)) xs"
  "accumulate acc (xs @ ys) = accumulate (accumulate acc xs) ys"
  by (simp_all add: accumulate_def)

lemma all_needed_append:
  "all_needed goal acc (xs @ ys) \<longleftrightarrow> all_needed goal acc xs \<and> all_needed goal (accumulate acc xs) ys"
  by (induction xs arbitrary: acc) auto

lemma all_needed_iff:
  "all_needed goal acc xs \<longleftrightarrow> (\<forall>i < length xs. f64_less (accumulate acc (take i xs)) goal)"
proof (induction xs arbitrary: acc)
  case (Cons x xs)
  then show ?case by (auto simp: less_Suc_eq_0_disj)
qed simp

lemma collect_batch_spec:
  assumes "collect_batch goal batch acc res = (acc', res')"
  shows "\<exists>taken rest. batch = taken @ rest \<and> res' = res @ taken \<and> acc' = accumulate acc taken
    \<and> all_needed goal acc taken \<and> (rest \<noteq> [] \<longrightarrow> \<not> f64_less acc' goal)"
  using assms
proof (induction goal batch acc res rule: collect_batch.induct)
  case (2 goal share batch acc res)
  show ?case
  proof (cases "f64_less acc goal")
    case True
    with 2 obtain taken rest where
      "batch = taken @ rest" "res' = (res @ [share]) @ taken"
      "acc' = accumulate (f64_add acc (pps_difficulty share)) taken"
      "all_needed goal (f64_add acc (pps_difficulty share)) taken" "rest \<noteq> [] \<longrightarrow> \<not> f64_less acc' goal"
      by auto
    with True show ?thesis by (intro exI [of _ "share # taken"] exI [of _ rest]) simp
  next
    case False
    then have stop: "collect_batch goal b acc r = (acc, r)" for b r
      by (induction b arbitrary: r) auto
    from 2(3) False stop have "acc' = acc" "res' = res" by simp_all
    with False show ?thesis by (intro exI [of _ "[]"] exI [of _ "share # batch"]) simp
  qed
qed simp

lemma collect_batch_first:
  "f64_less acc goal \<Longrightarrow> collect_batch goal (x # batch) acc res =
     collect_batch goal batch (f64_add acc (pps_difficulty x)) (res @ [x])"
  by simp

text \<open>The windows the search goes through, backwards from a moment.\<close>

fun window_end :: "u64 \<Rightarrow> u64 \<Rightarrow> nat \<Rightarrow> u64" where
  "window_end step e 0 = e"
| "window_end step e (Suc i) = window_end step (saturating_sub e step) i"

definition share_window ::
  "(u64 \<Rightarrow> u64 \<Rightarrow> simple_pplns_share list) \<Rightarrow> u64 \<Rightarrow> u64 \<Rightarrow> nat \<Rightarrow> simple_pplns_share list" where
  "share_window query step e i = query (window_end step e (Suc i)) (window_end step e i)"

definition share_windows ::
  "(u64 \<Rightarrow> u64 \<Rightarrow> simple_pplns_share list) \<Rightarrow> u64 \<Rightarrow> u64 \<Rightarrow> nat \<Rightarrow> simple_pplns_share list" where
  "share_windows query step e n = concat (map (share_window query step e) [0..<n])"

lemma window_end_le: "window_end step e i \<le> e"
proof (induction i arbitrary: e)
  case (Suc i)
  have "saturating_sub e step \<le> e" by (simp add: word_le_nat_alt)
  with Suc show ?case by (metis window_end.simps(2) order_trans)
qed simp

lemma window_end_step: "window_end step e (Suc i) = saturating_sub (window_end step e i) step"
  by (induction i arbitrary: e) simp_all

lemma share_window_simps [simp]:
  "share_window query step e 0 = query (saturating_sub e step) e"
  "share_window query step e (Suc i) = share_window query step (saturating_sub e step) i"
  by (simp_all add: share_window_def)

lemma share_windows_simps [simp]:
  "share_windows query step e 0 = []"
  "share_windows query step e (Suc n) =
     query (saturating_sub e step) e @ share_windows query step (saturating_sub e step) n"
  by (simp_all add: share_windows_def upt_conv_Cons map_Suc_upt [symmetric] comp_def del: upt_Suc)

lemma share_windows_member:
  "x \<in> set (share_windows query step e n) \<Longrightarrow> \<exists>i. x \<in> set (share_window query step e i)"
  by (auto simp: share_windows_def)

text \<open>What a run of the loop that returns has done.\<close>

lemma get_shares_loop_spec:
  assumes "get_shares_loop query step goal e acc res = Some out"
  shows "\<exists>taken rest n. out = res @ taken \<and> share_windows query step e n = taken @ rest
    \<and> (\<forall>i < n. share_window query step e i \<noteq> []) \<and> all_needed goal acc taken
    \<and> (f64_less (accumulate acc taken) goal \<longrightarrow> rest = [] \<and> share_window query step e n = [])"
  using assms
proof (induction rule: get_shares_loop.raw_induct [rotated, consumes 1])
  case (1 rec query step goal e acc res out)
  let ?start = "saturating_sub e step"
  show ?case
  proof (cases "f64_less acc goal \<and> query ?start e \<noteq> []")
    case False
    with 1(2) show ?thesis
      by (intro exI [of _ "[]"] exI [of _ 0]) (auto simp: Let_def split: if_splits)
  next
    case True
    obtain acc' res' where cb: "collect_batch goal (query ?start e) acc res = (acc', res')" by fastforce
    from collect_batch_spec [OF this] obtain taken rest where t:
      "query ?start e = taken @ rest" "res' = res @ taken" "acc' = accumulate acc taken"
      "all_needed goal acc taken" "rest \<noteq> [] \<longrightarrow> \<not> f64_less acc' goal" by blast
    let ?e = "if f64_less acc' goal then ?start else e"
    have "rec query step goal ?e acc' res' = Some out"
      using 1(2) True cb by (simp add: Let_def)
    from 1(1) [OF this] obtain more rest' n where m: "out = res' @ more"
      "share_windows query step ?e n = more @ rest'" "\<forall>i < n. share_window query step ?e i \<noteq> []"
      "all_needed goal acc' more"
      "f64_less (accumulate acc' more) goal \<longrightarrow> rest' = [] \<and> share_window query step ?e n = []" by blast
    show ?thesis
    proof (cases "f64_less acc' goal")
      case less: True
      with True t m show ?thesis
        by (intro exI [of _ "taken @ more"] exI [of _ rest'] exI [of _ "Suc n"])
          (auto simp: all_needed_append less_Suc_eq_0_disj)
    next
      case full: False
      with m(4) have "more = []" by (cases more) simp_all
      with full True t m(1) show ?thesis
        by (intro exI [of _ taken] exI [of _ rest] exI [of _ 1]) simp
    qed
  qed
qed

lemma get_shares_loop_stops:
  assumes "\<not> f64_less acc goal"
  shows "get_shares_loop query step goal e acc res = Some res"
  using assms by (simp add: get_shares_loop.simps)

text \<open>The loop returns when its windows move and nothing is stored at time zero.\<close>

lemma get_shares_loop_returns:
  assumes "step \<noteq> 0" "query 0 0 = []"
  shows "\<exists>out. get_shares_loop query step goal e acc res = Some out"
proof (induction "unat e" arbitrary: e acc res rule: less_induct)
  case less
  let ?start = "saturating_sub e step"
  obtain acc' res' where cb: "collect_batch goal (query ?start e) acc res = (acc', res')" by fastforce
  have "unat ?start < unat e" if "query ?start e \<noteq> []"
  proof -
    have "e \<noteq> 0"
    proof
      assume "e = 0"
      then have "?start = 0" by (simp add: saturating_sub_def word_gt_0)
      with \<open>e = 0\<close> that assms(2) show False by simp
    qed
    then show ?thesis
      using assms(1) by (metis diff_less unat_gt_0 unat_saturating_sub)
  qed
  then have "query ?start e \<noteq> [] \<Longrightarrow> \<exists>out. get_shares_loop query step goal ?start acc' res' = Some out"
    using less by blast
  then show ?case
    using cb get_shares_loop_stops [of acc' goal query step e res']
    by (subst get_shares_loop.simps) (auto simp: Let_def)
qed

section \<open>The source of shares\<close>

text \<open>
  What the payout relies on of the store: a query over a window answers shares of that window,
  each with an address. The store's filtered query is an instance.
\<close>

locale share_source =
  fixes invar :: "'s \<Rightarrow> bool"
    and query :: "'s \<Rightarrow> u64 \<Rightarrow> u64 \<Rightarrow> simple_pplns_share list"
    and fits :: "u64 \<Rightarrow> bool"
  assumes query_window:
      "invar s \<Longrightarrow> fits b \<Longrightarrow> a \<le> b \<Longrightarrow> x \<in> set (query s a b) \<Longrightarrow> a \<le> pps_n_time x \<and> pps_n_time x \<le> b"
    and query_address: "x \<in> set (query s a b) \<Longrightarrow> pps_btcaddress x \<noteq> None"
    and query_descending: "invar s \<Longrightarrow> sorted_wrt (\<lambda>x y. pps_n_time y \<le> pps_n_time x) (query s a b)"
    and fits_down: "fits b \<Longrightarrow> a \<le> b \<Longrightarrow> fits a"
begin

lemma windows_not_later:
  assumes "invar s" "fits e" "x \<in> set (share_windows (query s) step e n)"
  shows "pps_n_time x \<le> e"
proof -
  from share_windows_member [OF assms(3)] obtain i
    where x: "x \<in> set (query s (window_end step e (Suc i)) (window_end step e i))"
    by (auto simp: share_window_def)
  have "window_end step e (Suc i) \<le> window_end step e i"
    by (simp add: window_end_step word_le_nat_alt del: window_end.simps)
  then have "pps_n_time x \<le> window_end step e i"
    using query_window [OF assms(1) fits_down [OF assms(2) window_end_le] _ x] by blast
  then show ?thesis using window_end_le order_trans by blast
qed

lemma windows_descending:
  assumes "invar s" "fits e"
  shows "sorted_wrt (\<lambda>x y. pps_n_time y \<le> pps_n_time x) (share_windows (query s) step e n)"
  using assms(2)
proof (induction n arbitrary: e)
  case (Suc n)
  let ?start = "saturating_sub e step"
  have le: "?start \<le> e" by (simp add: word_le_nat_alt)
  note fit = fits_down [OF Suc.prems le]
  have "pps_n_time y \<le> pps_n_time x"
    if "x \<in> set (query s ?start e)" "y \<in> set (share_windows (query s) step ?start n)" for x y
    using query_window [OF assms(1) Suc.prems le that(1)] windows_not_later [OF assms(1) fit that(2)]
    by (meson order_trans)
  with Suc.IH [OF fit] query_descending [OF assms(1)] show ?case by (simp add: sorted_wrt_append)
qed simp

lemma windows_addresses: "x \<in> set (share_windows (query s) step e n) \<Longrightarrow> pps_btcaddress x \<noteq> None"
  using share_windows_member query_address unfolding share_window_def by blast

lemma selection_windows:
  assumes "get_shares_for_difficulty (query s) step now goal = Some shares"
  shows "\<exists>n rest. share_windows (query s) step now n = shares @ rest
    \<and> (\<forall>i < n. share_window (query s) step now i \<noteq> [])
    \<and> (\<forall>i < length shares. f64_less (f64_sum (map pps_difficulty (take i shares))) goal)
    \<and> (f64_less (f64_sum (map pps_difficulty shares)) goal \<longrightarrow>
         rest = [] \<and> share_window (query s) step now n = [])"
proof -
  have "accumulate (Fin 0) xs = f64_sum (map pps_difficulty xs)" for xs
    by (simp add: accumulate_def f64_sum_def)
  with get_shares_loop_spec [OF assms [unfolded get_shares_for_difficulty_def]] show ?thesis
    by (simp add: all_needed_iff) blast
qed

lemma selection_addresses:
  assumes "get_shares_for_difficulty (query s) step now goal = Some shares" "x \<in> set shares"
  shows "pps_btcaddress x \<noteq> None"
proof -
  from selection_windows [OF assms(1)] obtain n rest
    where "share_windows (query s) step now n = shares @ rest" by blast
  with assms(2) have "x \<in> set (share_windows (query s) step now n)" by simp
  then show ?thesis by (rule windows_addresses)
qed

end

definition store_query :: "u64 \<Rightarrow> 'a accounting_store_scheme \<Rightarrow> u64 \<Rightarrow> u64 \<Rightarrow> simple_pplns_share list" where
  "store_query now_micros st start_time end_time =
     get_pplns_shares_filtered now_micros st None (Some start_time) (Some end_time)"

lemma micros_fit_down: "micros_fit b \<Longrightarrow> a \<le> b \<Longrightarrow> micros_fit a"
  unfolding micros_fit_def word_le_nat_alt by (meson le_less_trans mult_le_mono1)

interpretation pplns_store: share_source accounting_inv "store_query now_micros" micros_fit
  for now_micros
proof
  fix s :: "'a accounting_store_scheme" and a b x
  show "x \<in> set (store_query now_micros s a b) \<Longrightarrow> pps_btcaddress x \<noteq> None"
    unfolding store_query_def by (rule filtered_address)
  assume "accounting_inv s" "micros_fit b" "a \<le> b" "x \<in> set (store_query now_micros s a b)"
  then have "x \<in> window_shares (user_cf s) (set (share_cf s)) a b"
    unfolding store_query_def using filtered_subset micros_fit_down by blast
  then show "a \<le> pps_n_time x \<and> pps_n_time x \<le> b"
    by (auto simp: window_shares_def)
qed (auto simp: store_query_def intro: filtered_descending micros_fit_down)

lemma store_window_members:
  assumes "accounting_inv st" "micros_fit now" "length (share_cf st) \<le> INITIAL_SHARE_VEC_CAPACITY"
  shows "set (share_window (store_query now_micros st) step now i) =
    window_shares (user_cf st) (set (share_cf st)) (window_end step now (Suc i)) (window_end step now i)"
proof -
  have "get_pplns_shares_filtered m st None = get_pplns_shares_filtered m st (Some INITIAL_SHARE_VEC_CAPACITY)" for m
    by (intro ext) (simp add: get_pplns_shares_filtered_def)
  then show ?thesis
    using filtered_members [OF assms(1) _ _ assms(3)] micros_fit_down [OF assms(2) window_end_le]
    by (simp add: share_window_def store_query_def del: window_end.simps)
qed

section \<open>Lemmas: grouping\<close>

lemma group_not_empty:
  assumes "\<forall>x \<in> set shares. pps_btcaddress x \<noteq> None" "shares \<noteq> [] \<or> m \<noteq> []"
  shows "group_shares_by_address shares m \<noteq> []"
  using assms
proof (induction shares arbitrary: m)
  case (Cons x shares)
  have "hm_update k d f m \<noteq> []" for k d f by (cases m) (auto split: if_splits)
  with Cons show ?case by (auto split: option.splits)
qed simp

lemma group_keys:
  "fst ` set (group_shares_by_address shares m)
     = fst ` set m \<union> {a. \<exists>x \<in> set shares. pps_btcaddress x = Some a}"
proof (induction shares arbitrary: m)
  case (Cons x shares)
  then show ?case by (cases "pps_btcaddress x") (auto simp: keys_hm_update)
qed simp

lemma group_distinct:
  "distinct (map fst m) \<Longrightarrow> distinct (map fst (group_shares_by_address shares m))"
  by (induction shares arbitrary: m) (auto split: option.splits)

section \<open>Lemmas: one miner's amount\<close>

lemma round_le_nat:
  assumes "0 \<le> q" "q \<le> of_nat T"
  shows "f64_to_uint 64 (f64_round (Fin q)) \<le> T"
proof -
  have "q + 1 / 2 < of_int (int T + 1)" using assms(2) by simp
  then have "\<lfloor>q + 1 / 2\<rfloor> \<le> int T" by (simp only: floor_less_iff zless_add1_eq [symmetric] zle_add1_eq_le flip: floor_less_iff)
  then show ?thesis using assms(1) by (auto simp: min_def)
qed

lemma miner_amount_le_total:
  assumes d: "0 \<le> d" and D: "D = Inf \<or> (\<exists>s. D = Fin s \<and> d \<le> s)" and T: "T \<le> 2 ^ 53"
  shows "f64_to_uint 64 (f64_round (f64_mul (f64_of_nat T) (f64_div (Fin d) D))) \<le> T"
proof (cases "D = Inf \<or> d = 0")
  case True
  have "f64_div (Fin d) D = Fin 0 \<or> f64_div (Fin d) D = NaN"
    using True D by (auto simp: f64_signed_inf_def)
  then show ?thesis by (auto simp: f64_of_nat_exact [OF T])
next
  case False
  then obtain s where s: "D = Fin s" "d \<le> s" "0 < d" using D d by auto
  then obtain r where r: "f64_of_rat (d / s) = Fin r" "0 \<le> r" "r \<le> 1"
    using f64_of_rat_le [of "d / s" 1] by auto
  have "0 \<le> rat_of_nat T * r" "rat_of_nat T * r \<le> of_nat T"
    using r by (simp_all add: mult_left_le)
  then obtain q where q: "f64_of_rat (of_nat T * r) = Fin q" "0 \<le> q" "q \<le> of_nat T"
    using f64_of_rat_le f64_representable_of_nat [OF T] by blast
  have "f64_mul (f64_of_nat T) (f64_div (Fin d) D) = Fin q"
    using s r q by (simp add: f64_of_nat_exact [OF T])
  then show ?thesis using round_le_nat [OF q(2,3)] by metis
qed

lemma distribution_conserves:
  assumes "get_output_distribution parse hash_order (store_query now_micros st) step now goal
      total_amount config = Some (Ok ps)"
    and "\<forall>m. mset (hash_order m) = mset m"
  shows "total_paid ps = unat total_amount"
proof -
  obtain ds rem where cuts:
    "and_then (include_address_and_cut [] total_amount (donation_address config) (sc_donation config))
       (\<lambda>(d, r). include_address_and_cut d r (fee_address config) (sc_fee config)) = Ok (ds, rem)"
    using assms(1) by (auto simp: get_output_distribution_def split: outcome.splits)
  then have paid: "total_paid ds + unat rem = unat total_amount"
    by (auto simp: outcome_simps dest!: cut_conserves)
  show ?thesis
  proof (cases "0 < rem")
    case False
    with assms(1) cuts paid show ?thesis
      by (auto simp: get_output_distribution_def word_gt_0)
  next
    case True
    with assms(1) cuts obtain shares where sel:
      "get_shares_for_difficulty (store_query now_micros st) step now goal = Some shares"
      by (auto simp: get_output_distribution_def split: option.splits)
    show ?thesis
    proof (cases "shares = []")
      case True
      with assms(1) cuts sel \<open>0 < rem\<close> show ?thesis
        by (auto simp: get_output_distribution_def outcome_simps)
    next
      case False
      let ?m = "hash_order (group_shares_by_address shares [])"
      have "group_shares_by_address shares [] \<noteq> []"
        using group_not_empty [of shares "[]"] pplns_store.selection_addresses [OF sel] False by blast
      then have "?m \<noteq> []" using assms(2) by (metis mset_zero_iff)
      moreover have "append_entries parse (f64_sum (map snd ?m)) rem ?m 0 ds = Ok ps"
        using assms(1) cuts sel \<open>0 < rem\<close> False
        by (simp add: get_output_distribution_def append_proportional_distribution_def)
      ultimately show ?thesis using append_entries_conserves paid by fastforce
    qed
  qed
qed

section \<open>Properties\<close>

text \<open>
  C1: no satoshi is created or lost: when the distribution is computed without error, the
  amounts paid out, donation and fee included, add up to the block reward exactly, whatever
  the shares, the difficulty window and the order in which the hash map is traversed.
\<close>

theorem payout_conserves_reward:
  assumes "get_output_distribution parse hash_order (store_query now_micros st) step now goal
      total_amount config = Some (Ok ps)"
    and "\<forall>m. mset (hash_order m) = mset m"
  shows "total_paid ps = unat total_amount"
  using assms by (rule distribution_conserves)

text \<open>
  C2: the shares that are paid. The search goes backwards from the moment of payout
  through windows of \<open>step\<close> seconds, each ending where the one before it starts. What it
  selects is, share for share, the beginning of the windows read one after another: none is
  passed over, and each is needed, as those before it do not reach the difficulty goal. If
  the selection stops short of the goal, it is all the shares of those windows, and the next
  window is empty; no window before it is. The shares are ordered from the newest to
  the oldest, none is later than the payout, and each has its miner's address. As long as the
  store holds no more shares than one query returns, a window has every stored share of
  a known user whose time is in it, and nothing else.
\<close>

theorem selection_correct:
  assumes "get_shares_for_difficulty (store_query now_micros st) step now goal = Some shares"
    and "accounting_inv st" "micros_fit now"
  shows "(\<exists>n rest. share_windows (store_query now_micros st) step now n = shares @ rest
      \<and> (\<forall>i < n. share_window (store_query now_micros st) step now i \<noteq> [])
      \<and> (f64_less (f64_sum (map pps_difficulty shares)) goal \<longrightarrow>
           rest = [] \<and> share_window (store_query now_micros st) step now n = []))
    \<and> (\<forall>i < length shares. f64_less (f64_sum (map pps_difficulty (take i shares))) goal)
    \<and> sorted_wrt (\<lambda>x y. pps_n_time y \<le> pps_n_time x) shares
    \<and> (\<forall>x \<in> set shares. pps_btcaddress x \<noteq> None \<and> pps_n_time x \<le> now)
    \<and> (length (share_cf st) \<le> INITIAL_SHARE_VEC_CAPACITY \<longrightarrow>
         (\<forall>i. set (share_window (store_query now_micros st) step now i) =
            {s\<lparr>pps_btcaddress := Some (su_btcaddress u)\<rparr> | s u k.
               (k, Stored s) \<in> set (share_cf st) \<and> user_cf st (pps_user_id s) = Stored u
               \<and> window_end step now (Suc i) \<le> pps_n_time s \<and> pps_n_time s \<le> window_end step now i}))"
proof -
  from pplns_store.selection_windows [OF assms(1)] obtain n rest where n:
    "share_windows (store_query now_micros st) step now n = shares @ rest"
    "\<forall>i < n. share_window (store_query now_micros st) step now i \<noteq> []"
    "\<forall>i < length shares. f64_less (f64_sum (map pps_difficulty (take i shares))) goal"
    "f64_less (f64_sum (map pps_difficulty shares)) goal \<longrightarrow>
       rest = [] \<and> share_window (store_query now_micros st) step now n = []" by blast
  have "sorted_wrt (\<lambda>x y. pps_n_time y \<le> pps_n_time x) shares"
    using pplns_store.windows_descending [OF assms(2,3), of now_micros step n] n(1)
    by (simp add: sorted_wrt_append)
  moreover have "\<forall>x \<in> set shares. pps_btcaddress x \<noteq> None \<and> pps_n_time x \<le> now"
    using pplns_store.windows_not_later [OF assms(2,3), of _ now_micros step n] n(1)
      pplns_store.selection_addresses [OF assms(1)] by simp
  ultimately show ?thesis
    using n store_window_members [OF assms(2,3)] unfolding window_shares_def by blast
qed

text \<open>
  C32: the selection returns: with a positive step, and no share stored with time zero, the
  backwards search ends, whatever the store holds and whatever difficulty is asked for.
\<close>

theorem selection_returns:
  assumes "accounting_inv st" "step \<noteq> 0"
    and "\<forall>k s. (k, Stored s) \<in> set (share_cf st) \<longrightarrow> pps_n_time s \<noteq> 0"
  shows "\<exists>shares. get_shares_for_difficulty (store_query now_micros st) step now goal = Some shares"
proof -
  have "micros_fit 0" by (simp add: micros_fit_def)
  then have "set (store_query now_micros st 0 0) \<subseteq> window_shares (user_cf st) (set (share_cf st)) 0 0"
    unfolding store_query_def by (intro filtered_subset assms(1))
  also have "\<dots> = {}" using assms(3) by (auto simp: window_shares_def)
  finally have "store_query now_micros st 0 0 = []" by simp
  then show ?thesis
    unfolding get_shares_for_difficulty_def by (intro get_shares_loop_returns assms(2))
qed

text \<open>
  With at most two miners the division never panics: for a reward of at most \<open>2 ^ 53\<close>
  satoshis, more than there are, and difficulties that are doubles and not negative, the
  amount of the first miner never exceeds the reward.
\<close>

theorem two_miners_no_panic:
  assumes "unat total_amount \<le> 2 ^ 53" "length entries \<le> 2"
    and "\<forall>(a, d) \<in> set entries. \<exists>r. d = Fin r \<and> 0 \<le> r \<and> f64_representable d"
  shows "append_proportional_distribution parse entries total_amount ps \<noteq> Panic"
proof -
  consider "entries = []" | a d where "entries = [(a, d)]"
    | a d b e where "entries = [(a, d), (b, e)]"
    using assms(2) by (cases entries rule: remdups_adj.cases) (auto simp: Suc_le_eq)
  then show ?thesis
  proof cases
    case (3 a d b e)
    then obtain r s where rs: "d = Fin r" "0 \<le> r" "f64_of_rat r = Fin r" "e = Fin s" "0 \<le> s"
      using assms(3) by auto
    have "f64_le (Fin r) (f64_of_rat (r + s))" using rs by (intro f64_of_rat_ge) auto
    then have "f64_of_rat (r + s) = Inf \<or> (\<exists>u. f64_of_rat (r + s) = Fin u \<and> r \<le> u)"
      by (cases "f64_of_rat (r + s)") (auto simp: f64_le_def f64_eq_def)
    then have le: "f64_to_uint 64 (f64_round (f64_mul (f64_of_nat (unat total_amount))
        (f64_div d (f64_of_rat (r + s))))) \<le> unat total_amount" (is "?n \<le> _")
      unfolding rs(1) by (intro miner_amount_le_total rs(2) assms(1))
    then have "unat (word_of_nat ?n :: u64) = ?n"
      using unsigned_less [of total_amount, where ?'a = nat] by (simp add: unat_of_nat)
    then have n: "word_of_nat ?n \<le> total_amount" using le by (simp add: word_le_nat_alt)
    have add: "amount_add 0 x \<noteq> Panic" "amount_add x (total_amount - x) \<noteq> Panic" if "x \<le> total_amount" for x
      using that unsigned_less [of total_amount, where ?'a = nat]
      by (auto simp: amount_add_def unat_sub_exact word_le_nat_alt)
    show ?thesis
      using 3 rs n add by (auto simp: append_proportional_distribution_def f64_sum_def outcome_simps
          amount_add_Ok amount_sub_Ok amount_sub_def split: if_splits)
  qed (use unsigned_less [of total_amount, where ?'a = nat] in
      \<open>auto simp: append_proportional_distribution_def outcome_simps amount_sub_def amount_add_def\<close>)
qed

text \<open>
  Three miners can make the payout panic. Two miners with the same difficulty and a third
  one whose difficulty is negligible beside theirs split an odd amount of satoshis: both
  halves are rounded up, and subtracting them from the total for the third miner underflows.
\<close>

theorem three_miners_panic:
  "append_proportional_distribution Some
     [(''a'', Fin 1), (''b'', Fin 1), (''c'', Fin (1 / 2 ^ 60))] 312500001 [] = Panic"
proof -
  have sum: "f64_of_rat (2 + 1 / 2 ^ 60) = Fin 2"
    by (subst f64_of_rat_eval [of 1 _ "2 ^ 52"]) simp_all
  have half: "f64_of_rat (1 / 2) = Fin (1 / 2)"
    by (subst f64_of_rat_eval [of "- 1" _ "2 ^ 52"])
      (simp_all add: power_int_minus_divide)
  have part: "f64_of_rat (312500001 / 2) = Fin (312500001 / 2)"
    by (subst f64_of_rat_eval [of 27 _ "312500001 * 2 ^ 24"])
      (simp_all add: power_int_minus_divide)
  have two: "f64_of_rat 2 = Fin 2" and tot: "f64_of_nat 312500001 = Fin 312500001"
    using f64_representable_of_nat [of 2] f64_of_nat_exact [of 312500001] by simp_all
  show ?thesis
    using sum by (simp add: append_proportional_distribution_def f64_sum_def two half tot part
        amount_add_def amount_sub_def unat_of_nat)
qed

text \<open>Applications of the properties to concrete inputs.\<close>

lemma sample_query:
  "store_query 0 sample_accounting 80 100
     = [(stored_form (sample_share\<lparr>pps_n_time := 90\<rparr>))\<lparr>pps_btcaddress := Some ''addr''\<rparr>]"
  by (simp add: store_query_def get_pplns_shares_filtered_def INITIAL_SHARE_VEC_CAPACITY_def
      table_scan_back_def sample_accounting_def make_key_lower make_key_upper populate_eq enrich_def
      List.map_filter_simps sample_share_def simple_pplns_share_new_def stored_form_def)

lemma sample_selection:
  "get_shares_for_difficulty (store_query 0 sample_accounting) 20 100 (Fin 3)
     = Some [(stored_form (sample_share\<lparr>pps_n_time := 90\<rparr>))\<lparr>pps_btcaddress := Some ''addr''\<rparr>]"
proof -
  have four: "f64_of_rat 4 = Fin 4" using f64_representable_of_nat [of 4] by simp
  have "saturating_sub 100 20 = (80 :: u64)" by (simp add: saturating_sub_def)
  then show ?thesis
    unfolding get_shares_for_difficulty_def
    by (subst get_shares_loop.simps)
      (simp add: sample_query stored_form_def sample_share_def simple_pplns_share_new_def four
        get_shares_loop_stops)
qed

theorem payout_conserves_reward_witness:
  "total_paid [\<lparr>op_address = ''dev'', op_amount = 10\<rparr>, \<lparr>op_address = ''addr'', op_amount = 990\<rparr>] = 1000"
proof -
  have four: "f64_of_rat 4 = Fin 4" using f64_representable_of_nat [of 4] by simp
  have "get_output_distribution Some (\<lambda>m. m) (store_query 0 sample_accounting) 20 100 (Fin 3) 1000
      sample_config
    = Some (Ok [\<lparr>op_address = ''dev'', op_amount = 10\<rparr>, \<lparr>op_address = ''addr'', op_amount = 990\<rparr>])"
    by (simp add: get_output_distribution_def sample_selection include_address_and_cut_def checked_mul_def
        BASIS_POINT_FACTOR_def amount_sub_def amount_add_def append_proportional_distribution_def
        donation_address_def fee_address_def sample_config_def stored_form_def sample_share_def
        simple_pplns_share_new_def)
  from payout_conserves_reward [OF this] show ?thesis by simp
qed

theorem selection_returns_witness:
  "\<exists>shares. get_shares_for_difficulty (store_query 0 sample_accounting) 20 100 (Fin 1000) = Some shares"
  by (rule selection_returns [OF sample_accounting_inv])
    (auto simp: sample_accounting_def stored_form_def)

theorem two_miners_no_panic_witness:
  "append_proportional_distribution Some [(''a'', Fin 1), (''b'', Fin 1)] 312500001 [] \<noteq> Panic"
  by (rule two_miners_no_panic) simp_all

theorem selection_correct_witness:
  "\<exists>shares n rest. get_shares_for_difficulty (store_query 0 sample_accounting) 20 100 (Fin 3) = Some shares
     \<and> shares \<noteq> [] \<and> share_windows (store_query 0 sample_accounting) 20 100 n = shares @ rest
     \<and> (\<forall>x \<in> set shares. pps_btcaddress x \<noteq> None \<and> pps_n_time x \<le> 100)"
  using selection_correct [OF sample_selection sample_accounting_inv] sample_selection
  by (simp add: micros_fit_def) blast

end
