(* ===== verification/Codec.thy ===== *)
theory Codec
  imports P2Pool_Prelude
begin

text \<open>
  Encoding and decoding in the style of the bitcoin crate's \<open>Encodable\<close> and
  \<open>Decodable\<close>: an encoder yields bytes, a decoder reads a value from the front of a byte
  string and returns what is left. The contract is the prefix round trip; it is a predicate for
  use in hypotheses and a locale for its consequences. The combinators at the end build
  encodings for which the contract holds.
\<close>

type_synonym 'a decoder = "bytes \<Rightarrow> ('a \<times> bytes) option"

record 'a codec =
  enc :: "'a \<Rightarrow> bytes"
  dec :: "'a decoder"

definition round_trips :: "('a \<Rightarrow> bool) \<Rightarrow> ('a \<Rightarrow> bytes) \<Rightarrow> 'a decoder \<Rightarrow> bool" where
  "round_trips P e d \<longleftrightarrow> (\<forall>x rest. P x \<longrightarrow> d (e x @ rest) = Some (x, rest))"

abbreviation codec_ok :: "'a codec \<Rightarrow> bool" where
  "codec_ok c \<equiv> round_trips (\<lambda>_. True) (enc c) (dec c)"

text \<open>Sequencing of decoders, the \<open>?\<close> of the sources.\<close>

definition decode_then :: "'a decoder \<Rightarrow> ('a \<Rightarrow> 'b decoder) \<Rightarrow> 'b decoder" where
  "decode_then d f bs = (case d bs of None \<Rightarrow> None | Some (x, rest) \<Rightarrow> f x rest)"

definition decode_return :: "'a \<Rightarrow> 'a decoder" where
  "decode_return x bs = Some (x, bs)"

definition decode_fail :: "'a decoder" where
  "decode_fail bs = None"

text \<open>\<open>for _ in 0..n { ret.push(decode(r)?) }\<close>\<close>

fun decode_many :: "'a decoder \<Rightarrow> nat \<Rightarrow> 'a list decoder" where
  "decode_many d 0 = decode_return []"
| "decode_many d (Suc n) = decode_then d (\<lambda>x. decode_then (decode_many d n) (\<lambda>xs. decode_return (x # xs)))"

text \<open>\<open>r.take(n)\<close>: the decoder sees at most \<open>n\<close> bytes of the reader.\<close>

definition decode_limited :: "nat \<Rightarrow> 'a decoder \<Rightarrow> 'a decoder" where
  "decode_limited n d bs = (case d (take n bs) of None \<Rightarrow> None | Some (x, rest) \<Rightarrow> Some (x, rest @ drop n bs))"

text \<open>\<open>encode::deserialize\<close> accepts a value only if it consumes all the bytes.\<close>

definition deserialize :: "'a decoder \<Rightarrow> bytes \<Rightarrow> 'a option" where
  "deserialize d bs = (case d bs of Some (x, []) \<Rightarrow> Some x | _ \<Rightarrow> None)"

section \<open>The contract\<close>

lemma decode_then_encoded:
  "round_trips P e d \<Longrightarrow> P x \<Longrightarrow> decode_then d f (e x @ rest) = f x rest"
  by (simp add: round_trips_def decode_then_def)

lemma decode_then_total [simp]:
  "round_trips (\<lambda>_. True) e d \<Longrightarrow> decode_then d f (e x @ rest) = f x rest"
  "round_trips (\<lambda>_. True) e d \<Longrightarrow> decode_then d f (e x) = f x []"
  using decode_then_encoded [of "\<lambda>_. True" e d x f rest] decode_then_encoded [of "\<lambda>_. True" e d x f "[]"]
  by simp_all

lemma decode_return_simp [simp]: "decode_return x bs = Some (x, bs)"
  by (simp add: decode_return_def)

lemma round_tripsI: "(\<And>x rest. P x \<Longrightarrow> d (e x @ rest) = Some (x, rest)) \<Longrightarrow> round_trips P e d"
  by (simp add: round_trips_def)

lemma round_tripsD: "round_trips P e d \<Longrightarrow> P x \<Longrightarrow> d (e x @ rest) = Some (x, rest)"
  by (simp add: round_trips_def)

lemma round_trips_weaken: "round_trips P e d \<Longrightarrow> (\<And>x. Q x \<Longrightarrow> P x) \<Longrightarrow> round_trips Q e d"
  by (auto simp: round_trips_def)

lemma decode_many_encoded:
  assumes "round_trips P e d" "\<forall>x \<in> set xs. P x"
  shows "decode_many d (length xs) (concat (map e xs) @ rest) = Some (xs, rest)"
  using assms
proof (induction xs)
  case (Cons x xs)
  then show ?case
    by (simp add: decode_then_encoded [OF Cons.prems(1)] decode_then_def [of "decode_many d (length xs)"])
qed simp

lemma decode_many_total [simp]:
  "round_trips (\<lambda>_. True) e d \<Longrightarrow>
     decode_many d (length xs) (concat (map e xs) @ rest) = Some (xs, rest)"
  by (simp add: decode_many_encoded)

lemma decode_limited_encoded:
  assumes "round_trips P e d" "P x" "length (e x) \<le> n"
  shows "decode_limited n d (e x @ rest) = Some (x, rest)"
  using assms by (simp add: decode_limited_def round_tripsD flip: append_assoc)

locale wire_format =
  fixes valid :: "'a \<Rightarrow> bool"
    and encode :: "'a \<Rightarrow> bytes"
    and decode :: "'a decoder"
  assumes decode_encode: "valid x \<Longrightarrow> decode (encode x @ rest) = Some (x, rest)"
begin

lemma format_round_trips: "round_trips valid encode decode"
  by (simp add: round_trips_def decode_encode)

lemma prefix_free:
  assumes "valid x" "valid y" "encode x @ r = encode y @ s"
  shows "x = y \<and> r = s"
  using decode_encode [OF assms(1), of r] decode_encode [OF assms(2), of s] unfolding assms(3) by simp

lemma encode_inject: "valid x \<Longrightarrow> valid y \<Longrightarrow> encode x = encode y \<longleftrightarrow> x = y"
  using prefix_free [of x y "[]" "[]"] by auto

lemma deserialize_encode: "valid x \<Longrightarrow> deserialize decode (encode x) = Some x"
  using decode_encode [of x "[]"] by (simp add: deserialize_def)

end

section \<open>Combinators\<close>

definition word_codec :: "nat \<Rightarrow> 'a::len word codec" where
  "word_codec n =
     \<lparr>enc = (\<lambda>w. be_bytes n (unat w)),
      dec = (\<lambda>bs. if length bs < n then None
                  else Some (word_of_nat (of_be_bytes (take n bs)), drop n bs))\<rparr>"

definition pair_codec :: "'a codec \<Rightarrow> 'b codec \<Rightarrow> ('a \<times> 'b) codec" where
  "pair_codec c d =
     \<lparr>enc = (\<lambda>(x, y). enc c x @ enc d y),
      dec = decode_then (dec c) (\<lambda>x. decode_then (dec d) (\<lambda>y. decode_return (x, y)))\<rparr>"

definition iso_codec :: "('b \<Rightarrow> 'a) \<Rightarrow> ('a \<Rightarrow> 'b) \<Rightarrow> 'a codec \<Rightarrow> 'b codec" where
  "iso_codec to from c =
     \<lparr>enc = (\<lambda>x. enc c (to x)), dec = decode_then (dec c) (\<lambda>y. decode_return (from y))\<rparr>"

definition to_le_bytes :: "u32 \<Rightarrow> bytes" where
  "to_le_bytes w = rev (be_bytes 4 (unat w))"

definition from_le_bytes :: "bytes \<Rightarrow> u32" where
  "from_le_bytes bs = word_of_nat (of_be_bytes (rev bs))"

definition le_u32_codec :: "u32 codec" where
  "le_u32_codec =
     \<lparr>enc = to_le_bytes,
      dec = (\<lambda>bs. if length bs < 4 then None else Some (from_le_bytes (take 4 bs), drop 4 bs))\<rparr>"

text \<open>A list is its length and its elements.\<close>

definition counted_codec :: "'a codec \<Rightarrow> 'a list codec" where
  "counted_codec c =
     \<lparr>enc = (\<lambda>xs. enc (word_codec 8 :: u64 codec) (word_of_nat (length xs)) @ concat (map (enc c) xs)),
      dec = decode_then (dec (word_codec 8 :: u64 codec)) (\<lambda>n. decode_many (dec c) (unat n))\<rparr>"

text \<open>A list is a byte one before every element and a byte zero at the end.\<close>

fun flagged_dec :: "'a decoder \<Rightarrow> nat \<Rightarrow> 'a list decoder" where
  "flagged_dec d 0 bs = None"
| "flagged_dec d (Suc n) [] = None"
| "flagged_dec d (Suc n) (b # bs) =
     (if b = 0 then Some ([], bs)
      else decode_then d (\<lambda>x. decode_then (flagged_dec d n) (\<lambda>xs. decode_return (x # xs))) bs)"

definition list_codec :: "'a codec \<Rightarrow> 'a list codec" where
  "list_codec c =
     \<lparr>enc = (\<lambda>xs. concat (map (\<lambda>x. 1 # enc c x) xs) @ [0]),
      dec = (\<lambda>bs. flagged_dec (dec c) (length bs) bs)\<rparr>"

lemma word_codec_round_trip:
  assumes "LENGTH('a) \<le> 8 * n"
  shows "decode_then (dec (word_codec n)) f (enc (word_codec n) (w :: 'a::len word) @ rest) = f w rest"
proof -
  have "unat w < 2 ^ LENGTH('a)" by (rule unsigned_less)
  also have "\<dots> \<le> 2 ^ (8 * n)" using assms by (simp add: power_increasing)
  also have "(2 :: nat) ^ (8 * n) = 256 ^ n" by (simp add: power_mult)
  finally show ?thesis
    by (simp add: decode_then_def word_codec_def of_be_bytes_be_bytes)
qed

lemma word_codec_ok: "LENGTH('a) \<le> 8 * n \<Longrightarrow> codec_ok (word_codec n :: 'a::len word codec)"
  using word_codec_round_trip [of n "\<lambda>w rest. Some (w, rest)"]
  by (intro round_tripsI) (simp add: decode_then_def word_codec_def split: if_splits)

lemma length_to_le_bytes [simp]: "length (to_le_bytes w) = 4"
  by (simp add: to_le_bytes_def)

lemma from_to_le_bytes [simp]: "from_le_bytes (to_le_bytes w) = w"
proof -
  have "unat w < 256 ^ 4" using unsigned_less [of w, where ?'a = nat] by simp
  then show ?thesis by (simp add: from_le_bytes_def to_le_bytes_def of_be_bytes_be_bytes)
qed

lemma le_u32_codec_ok: "codec_ok le_u32_codec"
  by (intro round_tripsI) (simp add: le_u32_codec_def)

lemma counted_codec_ok:
  assumes "round_trips P (enc c) (dec c)"
  shows "round_trips (\<lambda>xs. length xs < 2 ^ 64 \<and> list_all P xs) (enc (counted_codec c)) (dec (counted_codec c))"
proof (rule round_tripsI)
  fix xs :: "'a list" and rest :: bytes
  assume xs: "length xs < 2 ^ 64 \<and> list_all P xs"
  then have "unat (word_of_nat (length xs) :: u64) = length xs" by (simp add: unat_of_nat)
  then show "dec (counted_codec c) (enc (counted_codec c) xs @ rest) = Some (xs, rest)"
    using decode_many_encoded [OF assms, of xs rest] xs
    by (simp add: counted_codec_def word_codec_round_trip list_all_iff)
qed

lemma counted_codec_length:
  assumes "\<And>x. enc c x \<noteq> []"
  shows "length xs \<le> length (enc (counted_codec c) xs)"
proof -
  have "length xs \<le> length (concat (map (enc c) xs))"
  proof (induction xs)
    case (Cons x xs)
    then show ?case using assms [of x] by (cases "enc c x") auto
  qed simp
  then show ?thesis by (simp add: counted_codec_def)
qed

lemma pair_codec_ok: "codec_ok c \<Longrightarrow> codec_ok d \<Longrightarrow> codec_ok (pair_codec c d)"
  by (intro round_tripsI) (auto simp: pair_codec_def)

lemma iso_codec_ok: "codec_ok c \<Longrightarrow> (\<And>x. from (to x) = x) \<Longrightarrow> codec_ok (iso_codec to from c)"
  by (intro round_tripsI) (auto simp: iso_codec_def)

lemma flagged_dec_encoded:
  assumes "codec_ok c" "length xs < n"
  shows "flagged_dec (dec c) n (concat (map (\<lambda>x. 1 # enc c x) xs) @ 0 # rest) = Some (xs, rest)"
  using assms
proof (induction xs arbitrary: n)
  case Nil
  then show ?case by (cases n) auto
next
  case (Cons x xs)
  then obtain m where m: "n = Suc m" "length xs < m" by (cases n) auto
  from Cons.IH [OF Cons.prems(1) m(2)] show ?case
    using Cons.prems(1) by (simp add: m decode_then_def [of "flagged_dec (dec c) m"])
qed

lemma list_codec_ok:
  assumes "codec_ok c"
  shows "codec_ok (list_codec c)"
proof (rule round_tripsI)
  fix xs and rest :: bytes
  have "length xs \<le> length (concat (map (\<lambda>x. 1 # enc c x) xs))"
    by (induction xs) auto
  then show "dec (list_codec c) (enc (list_codec c) xs @ rest) = Some (xs, rest)"
    using flagged_dec_encoded [OF assms, of xs] by (simp add: list_codec_def)
qed

interpretation word_format: wire_format "\<lambda>_. True" "enc (word_codec 8 :: u64 codec)" "dec (word_codec 8)"
  using word_codec_ok [of 8, where ?'a = 64] by unfold_locales (simp add: round_trips_def)

end
