(* ===== verification/Share_Block.thy ===== *)
theory Share_Block
  imports Accounting_Store Codec
begin

text \<open>
  The data of the share chain and its encodings: share headers, share blocks and the form in
  which they are stored (\<open>shares/share_block/\<close>), the commitment a miner puts into the bitcoin
  coinbase (\<open>shares/share_commitment.rs\<close>), the metadata of blocks and transactions
  (\<open>store/block_tx_metadata.rs\<close>) and the stored users and PPLNS shares. The public data types
  of the bitcoin crate are records; its functions (the encodings of its types, hashes, work,
  merkle roots, scripts) are the fields of one argument, the record \<open>btc\<close>. Hashes,
  transaction ids and merkle nodes, which the crate encodes alike as 32 bytes, share one codec, as do
  the crate's wrappers of a 32-bit integer.
\<close>

section \<open>Types of the bitcoin crate\<close>

type_synonym blockhash = "256 word"
type_synonym txid = "256 word"
type_synonym merkle_node = "256 word"
type_synonym work = "256 word"
type_synonym pubkey = bytes

datatype network = Bitcoin | Testnet | Testnet4 | Signet | Regtest

record txin =
  ti_previous_output :: "txid \<times> u32"
  ti_script_sig :: bytes
  ti_sequence :: u32
  ti_witness :: "bytes list"

record txout =
  to_value :: u64
  to_script_pubkey :: bytes

record transaction =
  tx_version :: i32
  tx_lock_time :: u32
  tx_input :: "txin list"
  tx_output :: "txout list"

record bitcoin_header =
  bh_version :: i32
  bh_prev_blockhash :: blockhash
  bh_merkle_root :: merkle_node
  bh_time :: u32
  bh_bits :: u32
  bh_nonce :: u32

text \<open>
  The functions of the crate the sources call. \<open>hash_blockhash\<close> and \<open>hash_sha256\<close> are
  the hash engines, \<open>wire_txin\<close> is what remains of an input after it is encoded and decoded
  (the crate keeps witnesses outside the encoding of inputs), \<open>max_vec_size\<close> and \<open>max_msg_size\<close> its limits on what a decoder reads.
\<close>

record btc =
  c_u8 :: "u8 codec"
  c_u32 :: "u32 codec"
  c_u64 :: "u64 codec"
  c_varint :: "u64 codec"
  c_bool :: "bool codec"
  c_string :: "string codec"
  c_word256 :: "256 word codec"
  c_word256s :: "256 word list codec"
  c_work :: "work codec"
  c_array4 :: "bytes codec"
  c_pubkey :: "pubkey codec"
  c_header :: "bitcoin_header codec"
  c_transaction :: "transaction codec"
  c_transactions :: "transaction list codec"
  hash_blockhash :: "bytes \<Rightarrow> blockhash"
  hash_sha256 :: "bytes \<Rightarrow> 256 word"
  wire_txin :: "txin \<Rightarrow> txin"
  compute_txid :: "transaction \<Rightarrow> txid"
  to_work :: "u32 \<Rightarrow> work"
  calculate_root :: "txid list \<Rightarrow> merkle_node option"
  p2pkh_script :: "pubkey \<Rightarrow> network \<Rightarrow> bytes"
  max_vec_size :: nat
  max_msg_size :: nat
  valid_pubkey :: "pubkey \<Rightarrow> bool"

text \<open>
  The documented contract of the encodings: decoding inverts encoding, for vectors, strings and
  transactions up to the crate's size limit and for the byte strings that are public keys.
\<close>

definition fits :: "btc \<Rightarrow> 'a codec \<Rightarrow> 'a \<Rightarrow> bool" where
  "fits B c x \<longleftrightarrow> length (enc c x) \<le> max_vec_size B"

abbreviation sized_codec_ok :: "btc \<Rightarrow> 'a codec \<Rightarrow> bool" where
  "sized_codec_ok B c \<equiv> round_trips (fits B c) (enc c) (dec c)"

definition btc_ok :: "btc \<Rightarrow> bool" where
  "btc_ok B \<longleftrightarrow>
     codec_ok (c_u8 B) \<and> codec_ok (c_u32 B) \<and> codec_ok (c_u64 B) \<and> codec_ok (c_varint B)
     \<and> codec_ok (c_bool B) \<and> sized_codec_ok B (c_string B) \<and> codec_ok (c_word256 B)
     \<and> sized_codec_ok B (c_word256s B) \<and> codec_ok (c_work B)
     \<and> round_trips (\<lambda>bs. length bs = 4) (enc (c_array4 B)) (dec (c_array4 B))
     \<and> round_trips (valid_pubkey B) (enc (c_pubkey B)) (dec (c_pubkey B)) \<and> codec_ok (c_header B)
     \<and> sized_codec_ok B (c_transaction B) \<and> sized_codec_ok B (c_transactions B)"

section \<open>Share header\<close>

record share_header =
  sh_prev_share_blockhash :: blockhash
  sh_uncles :: "blockhash list"
  sh_miner_pubkey :: pubkey
  sh_merkle_root :: merkle_node
  sh_bitcoin_header :: bitcoin_header
  sh_bits :: u32
  sh_time :: u32

definition share_header_encode :: "btc \<Rightarrow> share_header \<Rightarrow> bytes" where
  "share_header_encode B h =
     enc (c_word256 B) (sh_prev_share_blockhash h) @ enc (c_word256s B) (sh_uncles h)
     @ enc (c_pubkey B) (sh_miner_pubkey h) @ enc (c_word256 B) (sh_merkle_root h)
     @ enc (c_header B) (sh_bitcoin_header h) @ enc (c_u32 B) (sh_bits h) @ enc (c_u32 B) (sh_time h)"

definition share_header_decode :: "btc \<Rightarrow> share_header decoder" where
  "share_header_decode B =
     decode_then (dec (c_word256 B)) (\<lambda>prev.
     decode_then (dec (c_word256s B)) (\<lambda>uncles.
     decode_then (dec (c_pubkey B)) (\<lambda>key.
     decode_then (dec (c_word256 B)) (\<lambda>root.
     decode_then (dec (c_header B)) (\<lambda>header.
     decode_then (dec (c_u32 B)) (\<lambda>bits.
     decode_then (dec (c_u32 B)) (\<lambda>time.
       decode_return
         \<lparr>sh_prev_share_blockhash = prev, sh_uncles = uncles, sh_miner_pubkey = key,
          sh_merkle_root = root, sh_bitcoin_header = header, sh_bits = bits, sh_time = time\<rparr>)))))))"

definition get_work :: "btc \<Rightarrow> share_header \<Rightarrow> work" where
  "get_work B h = to_work B (sh_bits h)"

definition header_block_hash :: "btc \<Rightarrow> share_header \<Rightarrow> blockhash" where
  "header_block_hash B h = hash_blockhash B (share_header_encode B h)"

text \<open>All fields but the bitcoin header.\<close>

definition header_commitment_bytes :: "btc \<Rightarrow> share_header \<Rightarrow> bytes" where
  "header_commitment_bytes B h =
     enc (c_word256 B) (sh_prev_share_blockhash h) @ enc (c_word256s B) (sh_uncles h)
     @ enc (c_pubkey B) (sh_miner_pubkey h) @ enc (c_word256 B) (sh_merkle_root h)
     @ enc (c_u32 B) (sh_bits h) @ enc (c_u32 B) (sh_time h)"

definition header_commitment_hash :: "btc \<Rightarrow> share_header \<Rightarrow> 256 word" where
  "header_commitment_hash B h = hash_sha256 B (header_commitment_bytes B h)"

section \<open>Share commitment\<close>

record share_commitment =
  sc_prev_share_blockhash :: blockhash
  sc_uncles :: "blockhash list"
  sc_miner_pubkey :: pubkey
  sc_merkle_root :: "merkle_node option"
  sc_bits :: u32
  sc_time :: u32

text \<open>An optional value is a flag followed by the value when there is one.\<close>

definition option_encode :: "btc \<Rightarrow> ('a \<Rightarrow> bytes) \<Rightarrow> 'a option \<Rightarrow> bytes" where
  "option_encode B e x =
     (case x of Some v \<Rightarrow> enc (c_bool B) True @ e v | None \<Rightarrow> enc (c_bool B) False)"

definition option_decode :: "btc \<Rightarrow> 'a decoder \<Rightarrow> 'a option decoder" where
  "option_decode B d =
     decode_then (dec (c_bool B)) (\<lambda>present.
       if present then decode_then d (\<lambda>v. decode_return (Some v)) else decode_return None)"

definition share_commitment_encode :: "btc \<Rightarrow> share_commitment \<Rightarrow> bytes" where
  "share_commitment_encode B c =
     enc (c_word256 B) (sc_prev_share_blockhash c) @ enc (c_word256s B) (sc_uncles c)
     @ enc (c_pubkey B) (sc_miner_pubkey c) @ option_encode B (enc (c_word256 B)) (sc_merkle_root c)
     @ enc (c_u32 B) (sc_bits c) @ enc (c_u32 B) (sc_time c)"

definition share_commitment_decode :: "btc \<Rightarrow> share_commitment decoder" where
  "share_commitment_decode B =
     decode_then (dec (c_word256 B)) (\<lambda>prev.
     decode_then (dec (c_word256s B)) (\<lambda>uncles.
     decode_then (dec (c_pubkey B)) (\<lambda>key.
     decode_then (option_decode B (dec (c_word256 B))) (\<lambda>root.
     decode_then (dec (c_u32 B)) (\<lambda>bits.
     decode_then (dec (c_u32 B)) (\<lambda>time.
       decode_return
         \<lparr>sc_prev_share_blockhash = prev, sc_uncles = uncles, sc_miner_pubkey = key,
          sc_merkle_root = root, sc_bits = bits, sc_time = time\<rparr>))))))"

definition commitment_hash :: "btc \<Rightarrow> share_commitment \<Rightarrow> 256 word" where
  "commitment_hash B c = hash_sha256 B (share_commitment_encode B c)"

definition from_commitment_and_header ::
  "share_commitment \<Rightarrow> bitcoin_header \<Rightarrow> merkle_node \<Rightarrow> share_header" where
  "from_commitment_and_header commitment header share_chain_merkle_root =
     \<lparr>sh_prev_share_blockhash = sc_prev_share_blockhash commitment,
      sh_uncles = sc_uncles commitment,
      sh_miner_pubkey = sc_miner_pubkey commitment,
      sh_merkle_root = share_chain_merkle_root,
      sh_bitcoin_header = header,
      sh_bits = sc_bits commitment,
      sh_time = sc_time commitment\<rparr>"

section \<open>Share block and its stored form\<close>

record share_block =
  sb_header :: share_header
  sb_transactions :: "transaction list"
  sb_bitcoin_transactions :: "transaction list"

definition block_hash :: "btc \<Rightarrow> share_block \<Rightarrow> blockhash" where
  "block_hash B b = header_block_hash B (sb_header b)"

definition share_block_encode :: "btc \<Rightarrow> share_block \<Rightarrow> bytes" where
  "share_block_encode B b =
     share_header_encode B (sb_header b)
     @ enc (c_varint B) (word_of_nat (length (sb_transactions b)))
     @ concat (map (enc (c_transaction B)) (sb_transactions b))
     @ enc (c_transactions B) (sb_bitcoin_transactions b)"

definition share_block_decode :: "btc \<Rightarrow> share_block decoder" where
  "share_block_decode B =
     decode_then (share_header_decode B) (\<lambda>header.
     decode_then (dec (c_varint B)) (\<lambda>tx_count.
     decode_then (decode_many (dec (c_transaction B)) (unat tx_count)) (\<lambda>transactions.
     decode_then (dec (c_transactions B)) (\<lambda>bitcoin_transactions.
       decode_return
         \<lparr>sb_header = header, sb_transactions = transactions,
          sb_bitcoin_transactions = bitcoin_transactions\<rparr>))))"

definition txids_encode :: "btc \<Rightarrow> txid list \<Rightarrow> bytes" where
  "txids_encode B txids =
     enc (c_varint B) (word_of_nat (length txids)) @ concat (map (enc (c_word256 B)) txids)"

definition txids_decode_finite :: "btc \<Rightarrow> txid list decoder" where
  "txids_decode_finite B =
     decode_then (dec (c_varint B)) (\<lambda>len. decode_many (dec (c_word256 B)) (unat len))"

text \<open>\<open>consensus_decode\<close> of a type that defines only the decoder for finite readers
  limits the reader to the crate's largest vector.\<close>

definition txids_decode :: "btc \<Rightarrow> txid list decoder" where
  "txids_decode B = decode_limited (max_vec_size B) (txids_decode_finite B)"

record storage_share_block =
  ssb_header :: share_header
  ssb_txids :: "txid list"
  ssb_bitcoin_txids :: "txid list"

definition to_storage_share_block :: "btc \<Rightarrow> share_block \<Rightarrow> storage_share_block" where
  "to_storage_share_block B b =
     \<lparr>ssb_header = sb_header b,
      ssb_txids = map (compute_txid B) (sb_transactions b),
      ssb_bitcoin_txids = map (compute_txid B) (sb_bitcoin_transactions b)\<rparr>"

definition storage_share_block_encode :: "btc \<Rightarrow> storage_share_block \<Rightarrow> bytes" where
  "storage_share_block_encode B b =
     share_header_encode B (ssb_header b) @ txids_encode B (ssb_txids b)
     @ txids_encode B (ssb_bitcoin_txids b)"

definition storage_share_block_decode :: "btc \<Rightarrow> storage_share_block decoder" where
  "storage_share_block_decode B =
     decode_then (share_header_decode B) (\<lambda>header.
     decode_then (txids_decode B) (\<lambda>txids.
     decode_then (txids_decode B) (\<lambda>bitcoin_txids.
       decode_return
         \<lparr>ssb_header = header, ssb_txids = txids, ssb_bitcoin_txids = bitcoin_txids\<rparr>)))"

section \<open>Metadata\<close>

record tx_metadata =
  tm_txid :: txid
  tm_version :: i32
  tm_lock_time :: u32
  tm_input_count :: u32
  tm_output_count :: u32
  tm_validated :: bool

definition tx_metadata_encode :: "btc \<Rightarrow> tx_metadata \<Rightarrow> bytes" where
  "tx_metadata_encode B m =
     enc (c_word256 B) (tm_txid m) @ enc (c_u32 B) (tm_version m) @ enc (c_u32 B) (tm_lock_time m)
     @ enc (c_u32 B) (tm_input_count m) @ enc (c_u32 B) (tm_output_count m)
     @ enc (c_bool B) (tm_validated m)"

definition tx_metadata_decode :: "btc \<Rightarrow> tx_metadata decoder" where
  "tx_metadata_decode B =
     decode_then (dec (c_word256 B)) (\<lambda>txid.
     decode_then (dec (c_u32 B)) (\<lambda>version.
     decode_then (dec (c_u32 B)) (\<lambda>lock_time.
     decode_then (dec (c_u32 B)) (\<lambda>input_count.
     decode_then (dec (c_u32 B)) (\<lambda>output_count.
     decode_then (dec (c_bool B)) (\<lambda>validated.
       decode_return
         \<lparr>tm_txid = txid, tm_version = version, tm_lock_time = lock_time,
          tm_input_count = input_count, tm_output_count = output_count, tm_validated = validated\<rparr>))))))"

record block_metadata =
  bm_expected_height :: "u32 option"
  bm_chain_work :: work

definition block_metadata_encode :: "btc \<Rightarrow> block_metadata \<Rightarrow> bytes" where
  "block_metadata_encode B m =
     option_encode B (enc (c_u32 B)) (bm_expected_height m) @ enc (c_work B) (bm_chain_work m)"

definition block_metadata_decode :: "btc \<Rightarrow> block_metadata decoder" where
  "block_metadata_decode B =
     decode_then (option_decode B (dec (c_u32 B))) (\<lambda>height.
     decode_then (dec (c_work B)) (\<lambda>chain_work.
       decode_return \<lparr>bm_expected_height = height, bm_chain_work = chain_work\<rparr>))"

section \<open>Accounting records\<close>

definition stored_user_encode :: "btc \<Rightarrow> stored_user \<Rightarrow> bytes" where
  "stored_user_encode B u =
     enc (c_u64 B) (su_user_id u) @ enc (c_string B) (su_btcaddress u) @ enc (c_u64 B) (su_created_at u)"

definition stored_user_decode :: "btc \<Rightarrow> stored_user decoder" where
  "stored_user_decode B =
     decode_then (dec (c_u64 B)) (\<lambda>user_id.
     decode_then (dec (c_string B)) (\<lambda>btcaddress.
     decode_then (dec (c_u64 B)) (\<lambda>created_at.
       decode_return \<lparr>su_user_id = user_id, su_btcaddress = btcaddress, su_created_at = created_at\<rparr>)))"

definition pplns_share_encode :: "btc \<Rightarrow> simple_pplns_share \<Rightarrow> bytes" where
  "pplns_share_encode B s =
     enc (c_u64 B) (pps_user_id s) @ enc (c_u64 B) (f64_to_bits (pps_difficulty s))
     @ enc (c_u64 B) (pps_n_time s) @ enc (c_string B) (pps_job_id s)
     @ enc (c_string B) (pps_extranonce2 s) @ enc (c_string B) (pps_nonce s)"

definition pplns_share_decode :: "btc \<Rightarrow> simple_pplns_share decoder" where
  "pplns_share_decode B =
     decode_then (dec (c_u64 B)) (\<lambda>user_id.
     decode_then (dec (c_u64 B)) (\<lambda>bits.
     decode_then (dec (c_u64 B)) (\<lambda>n_time.
     decode_then (dec (c_string B)) (\<lambda>job_id.
     decode_then (dec (c_string B)) (\<lambda>extranonce2.
     decode_then (dec (c_string B)) (\<lambda>nonce.
       decode_return
         \<lparr>pps_user_id = user_id, pps_difficulty = f64_from_bits bits, pps_btcaddress = None,
          pps_workername = None, pps_n_time = n_time, pps_job_id = job_id,
          pps_extranonce2 = extranonce2, pps_nonce = nonce\<rparr>))))))"

section \<open>New blocks\<close>

definition SHARE_VALUE :: u64 where "SHARE_VALUE = 1"

text \<open>\<open>Amount::from_int_btc\<close> is a hundred million satoshis per coin.\<close>

definition create_coinbase_transaction :: "btc \<Rightarrow> pubkey \<Rightarrow> network \<Rightarrow> transaction" where
  "create_coinbase_transaction B key network =
     \<lparr>tx_version = 2, tx_lock_time = 0,
      tx_input = [\<lparr>ti_previous_output = (0, - 1), ti_script_sig = [], ti_sequence = - 1, ti_witness = []\<rparr>],
      tx_output = [\<lparr>to_value = SHARE_VALUE * 100000000, to_script_pubkey = p2pkh_script B key network\<rparr>]\<rparr>"

definition share_block_new ::
  "btc \<Rightarrow> bitcoin_header \<Rightarrow> transaction list \<Rightarrow> blockhash \<Rightarrow> blockhash list \<Rightarrow> pubkey
     \<Rightarrow> transaction list \<Rightarrow> network \<Rightarrow> (store_error, share_block) outcome" where
  "share_block_new B header txdata prev_share_blockhash uncles miner_pubkey transactions network =
     (let all_transactions = create_coinbase_transaction B miner_pubkey network # transactions
      in and_then (unwrap (calculate_root B (map (compute_txid B) all_transactions))) (\<lambda>merkle_root.
           Ok \<lparr>sb_header =
                \<lparr>sh_prev_share_blockhash = prev_share_blockhash, sh_uncles = uncles,
                 sh_miner_pubkey = miner_pubkey, sh_merkle_root = merkle_root,
                 sh_bitcoin_header = header, sh_bits = 0x1f03e7ff, sh_time = 1700000000\<rparr>,
               sb_transactions = all_transactions,
               sb_bitcoin_transactions = txdata\<rparr>))"

record genesis_data =
  gd_public_key :: string
  gd_bitcoin_block_hex :: string

definition genesis_data_for ::
  "(network \<Rightarrow> string) \<Rightarrow> network \<Rightarrow> (store_error, genesis_data) outcome" where
  "genesis_data_for included_hex network =
     (let key = ''02ac493f2130ca56cb5c3a559860cef9a84f90b5a85dfe4ec6e6067eeee17f4d2d''
      in case network of
           Testnet \<Rightarrow> Err (Message ''Unsupported network'')
         | _ \<Rightarrow> Ok \<lparr>gd_public_key = key, gd_bitcoin_block_hex = included_hex network\<rparr>)"

definition build_genesis ::
  "btc \<Rightarrow> (string \<Rightarrow> pubkey option) \<Rightarrow> (string \<Rightarrow> bytes option) \<Rightarrow> (bytes \<Rightarrow> bitcoin_header option)
     \<Rightarrow> genesis_data \<Rightarrow> network \<Rightarrow> (store_error, share_block) outcome" where
  "build_genesis B parse_key_string hex_decode decode_compact data network =
     and_then (unwrap (parse_key_string (gd_public_key data))) (\<lambda>public_key.
     let transactions = [create_coinbase_transaction B public_key network]
     in and_then (unwrap (calculate_root B (map (compute_txid B) transactions))) (\<lambda>merkle_root.
        and_then (unwrap (hex_decode (gd_bitcoin_block_hex data))) (\<lambda>block_bytes.
        and_then (unwrap (decode_compact block_bytes)) (\<lambda>header.
          Ok \<lparr>sb_header =
               \<lparr>sh_prev_share_blockhash = 0, sh_uncles = [], sh_miner_pubkey = public_key,
                sh_merkle_root = merkle_root, sh_bitcoin_header = header,
                sh_bits = 0x1f03e7ff, sh_time = 1700000000\<rparr>,
              sb_transactions = transactions,
              sb_bitcoin_transactions = []\<rparr>))))"

definition build_genesis_for_network ::
  "btc \<Rightarrow> (network \<Rightarrow> string) \<Rightarrow> (string \<Rightarrow> pubkey option) \<Rightarrow> (string \<Rightarrow> bytes option)
     \<Rightarrow> (bytes \<Rightarrow> bitcoin_header option) \<Rightarrow> network \<Rightarrow> (store_error, share_block) outcome" where
  "build_genesis_for_network B included_hex parse_key_string hex_decode decode_compact network =
     (if network = Testnet then Panic
      else case genesis_data_for included_hex network of
             Ok data \<Rightarrow> build_genesis B parse_key_string hex_decode decode_compact data network
           | _ \<Rightarrow> Panic)"

section \<open>Lemmas\<close>

lemma option_format:
  assumes "codec_ok (c_bool B)" "round_trips P e d"
  shows "round_trips (\<lambda>x. \<forall>v. x = Some v \<longrightarrow> P v) (option_encode B e) (option_decode B d)"
  using assms by (intro round_tripsI)
    (auto simp: option_encode_def option_decode_def decode_then_encoded [OF assms(2)] split: option.splits)

lemma option_format_total:
  assumes "codec_ok (c_bool B)" "round_trips (\<lambda>_. True) e d"
  shows "round_trips (\<lambda>_. True) (option_encode B e) (option_decode B d)"
  using option_format [OF assms] by simp

lemma btc_decode_then [simp]:
  assumes "btc_ok B"
  shows "decode_then (dec (c_u8 B)) f1 (enc (c_u8 B) x1 @ rest) = f1 x1 rest"
    and "decode_then (dec (c_u32 B)) f2 (enc (c_u32 B) x2 @ rest) = f2 x2 rest"
    and "decode_then (dec (c_u64 B)) f3 (enc (c_u64 B) x3 @ rest) = f3 x3 rest"
    and "decode_then (dec (c_varint B)) f4 (enc (c_varint B) x4 @ rest) = f4 x4 rest"
    and "decode_then (dec (c_bool B)) f5 (enc (c_bool B) x5 @ rest) = f5 x5 rest"
    and "decode_then (dec (c_word256 B)) f6 (enc (c_word256 B) x6 @ rest) = f6 x6 rest"
    and "decode_then (dec (c_work B)) f7 (enc (c_work B) x7 @ rest) = f7 x7 rest"
    and "decode_then (dec (c_header B)) f8 (enc (c_header B) x8 @ rest) = f8 x8 rest"
    and "fits B (c_string B) x9 \<Longrightarrow> decode_then (dec (c_string B)) f9 (enc (c_string B) x9 @ rest) = f9 x9 rest"
    and "fits B (c_word256s B) xa \<Longrightarrow>
           decode_then (dec (c_word256s B)) fa (enc (c_word256s B) xa @ rest) = fa xa rest"
    and "length xb = 4 \<Longrightarrow> decode_then (dec (c_array4 B)) fb (enc (c_array4 B) xb @ rest) = fb xb rest"
    and "valid_pubkey B xc \<Longrightarrow> decode_then (dec (c_pubkey B)) fc (enc (c_pubkey B) xc @ rest) = fc xc rest"
    and "fits B (c_transaction B) xd \<Longrightarrow>
           decode_then (dec (c_transaction B)) fd (enc (c_transaction B) xd @ rest) = fd xd rest"
    and "fits B (c_transactions B) xe \<Longrightarrow>
           decode_then (dec (c_transactions B)) fe (enc (c_transactions B) xe @ rest) = fe xe rest"
  using assms by (simp_all add: btc_ok_def round_trips_def decode_then_def)

definition header_fits :: "btc \<Rightarrow> share_header \<Rightarrow> bool" where
  "header_fits B h \<longleftrightarrow> fits B (c_word256s B) (sh_uncles h) \<and> valid_pubkey B (sh_miner_pubkey h)"

definition commitment_fits :: "btc \<Rightarrow> share_commitment \<Rightarrow> bool" where
  "commitment_fits B c \<longleftrightarrow> fits B (c_word256s B) (sc_uncles c) \<and> valid_pubkey B (sc_miner_pubkey c)"

definition block_fits :: "btc \<Rightarrow> share_block \<Rightarrow> bool" where
  "block_fits B b \<longleftrightarrow> header_fits B (sb_header b) \<and> length (sb_transactions b) < 2 ^ 64
     \<and> list_all (fits B (c_transaction B)) (sb_transactions b)
     \<and> fits B (c_transactions B) (sb_bitcoin_transactions b)"

lemma share_header_format:
  "btc_ok B \<Longrightarrow> round_trips (header_fits B) (share_header_encode B) (share_header_decode B)"
  by (intro round_tripsI) (simp add: header_fits_def share_header_encode_def share_header_decode_def)

lemma share_commitment_format:
  assumes "btc_ok B"
  shows "round_trips (commitment_fits B) (share_commitment_encode B) (share_commitment_decode B)"
proof -
  have "round_trips (\<lambda>_. True) (option_encode B (enc (c_word256 B))) (option_decode B (dec (c_word256 B)))"
    using assms by (intro option_format_total) (simp_all add: btc_ok_def)
  with assms show ?thesis
    by (intro round_tripsI) (simp add: commitment_fits_def share_commitment_encode_def share_commitment_decode_def)
qed

lemma decode_then_many:
  assumes "round_trips P e d" "list_all P xs"
  shows "decode_then (decode_many d (length xs)) f (concat (map e xs) @ rest) = f xs rest"
  using decode_many_encoded [OF assms(1), of xs rest] assms(2) by (simp add: decode_then_def list_all_iff)

lemma share_block_format:
  assumes "btc_ok B"
  shows "round_trips (block_fits B) (share_block_encode B) (share_block_decode B)"
proof -
  have "sized_codec_ok B (c_transaction B)" using assms by (simp add: btc_ok_def)
  with assms show ?thesis
    by (intro round_tripsI) (simp add: block_fits_def share_block_encode_def share_block_decode_def
        unat_of_nat_u64 decode_then_encoded [OF share_header_format] decode_then_many)
qed

definition txids_fit :: "btc \<Rightarrow> txid list \<Rightarrow> bool" where
  "txids_fit B ts \<longleftrightarrow> length ts < 2 ^ 64 \<and> length (txids_encode B ts) \<le> max_vec_size B"

lemma txids_format:
  assumes "btc_ok B"
  shows "round_trips (txids_fit B) (txids_encode B) (txids_decode B)"
proof -
  have "round_trips (\<lambda>ts. length ts < 2 ^ 64) (txids_encode B) (txids_decode_finite B)"
    using assms by (intro round_tripsI) (simp add: txids_encode_def txids_decode_finite_def unat_of_nat_u64
        decode_many_total btc_ok_def)
  then show ?thesis
    by (intro round_tripsI) (simp add: txids_fit_def txids_decode_def decode_limited_encoded
        [where P = "\<lambda>ts. length ts < 2 ^ 64"])
qed

definition storage_fits :: "btc \<Rightarrow> storage_share_block \<Rightarrow> bool" where
  "storage_fits B b \<longleftrightarrow> header_fits B (ssb_header b) \<and> txids_fit B (ssb_txids b) \<and> txids_fit B (ssb_bitcoin_txids b)"

lemma storage_share_block_format:
  assumes "btc_ok B"
  shows "round_trips (storage_fits B) (storage_share_block_encode B) (storage_share_block_decode B)"
  by (intro round_tripsI)
    (simp add: storage_fits_def storage_share_block_encode_def storage_share_block_decode_def
      decode_then_encoded [OF txids_format [OF assms]] decode_then_encoded [OF share_header_format [OF assms]])

lemma tx_metadata_format:
  "btc_ok B \<Longrightarrow> round_trips (\<lambda>_. True) (tx_metadata_encode B) (tx_metadata_decode B)"
  by (intro round_tripsI) (simp add: tx_metadata_encode_def tx_metadata_decode_def)

lemma block_metadata_format:
  assumes "btc_ok B"
  shows "round_trips (\<lambda>_. True) (block_metadata_encode B) (block_metadata_decode B)"
proof -
  have "round_trips (\<lambda>_. True) (option_encode B (enc (c_u32 B))) (option_decode B (dec (c_u32 B)))"
    using assms by (intro option_format_total) (simp_all add: btc_ok_def)
  with assms show ?thesis
    by (intro round_tripsI) (simp add: block_metadata_encode_def block_metadata_decode_def)
qed

lemma stored_user_format:
  "btc_ok B \<Longrightarrow>
     round_trips (\<lambda>u. fits B (c_string B) (su_btcaddress u)) (stored_user_encode B) (stored_user_decode B)"
  by (intro round_tripsI) (simp add: stored_user_encode_def stored_user_decode_def)

definition share_fits :: "btc \<Rightarrow> simple_pplns_share \<Rightarrow> bool" where
  "share_fits B s \<longleftrightarrow> f64_representable (pps_difficulty s) \<and> fits B (c_string B) (pps_job_id s)
     \<and> fits B (c_string B) (pps_extranonce2 s) \<and> fits B (c_string B) (pps_nonce s)"

lemma pplns_share_format:
  assumes "btc_ok B" "share_fits B s"
  shows "pplns_share_decode B (pplns_share_encode B s @ rest) = Some (stored_form s, rest)"
  using assms
  by (simp add: share_fits_def pplns_share_encode_def pplns_share_decode_def stored_form_def f64_bits_round_trip)

interpretation header_format: wire_format "\<lambda>h. btc_ok B \<and> header_fits B h" "share_header_encode B" "share_header_decode B"
  for B
  by unfold_locales (rule round_tripsD [OF share_header_format], simp_all)

interpretation commitment_format: wire_format "\<lambda>c. btc_ok B \<and> commitment_fits B c" "share_commitment_encode B"
  "share_commitment_decode B"
  for B
  by unfold_locales (rule round_tripsD [OF share_commitment_format], simp_all)

interpretation block_format: wire_format "\<lambda>b. btc_ok B \<and> block_fits B b"
  "share_block_encode B" "share_block_decode B"
  for B
  by unfold_locales (rule round_tripsD [OF share_block_format], simp_all)

section \<open>An instance of the crate's functions\<close>

definition byte_codec :: "u8 codec" where "byte_codec = word_codec 1"
definition char_codec :: "char codec" where
  "char_codec = iso_codec (\<lambda>c. word_of_nat (of_char c)) (\<lambda>w. char_of (unat w)) byte_codec"
definition bytes_codec :: "bytes codec" where "bytes_codec = list_codec byte_codec"
definition u32_codec :: "u32 codec" where "u32_codec = word_codec 4"
definition u64_codec :: "u64 codec" where "u64_codec = word_codec 8"
definition word256_codec :: "256 word codec" where "word256_codec = word_codec 32"

definition txin_codec :: "txin codec" where
  "txin_codec =
     iso_codec (\<lambda>i. (ti_previous_output i, ti_script_sig i, ti_sequence i, ti_witness i))
       (\<lambda>(p, s, q, w). \<lparr>ti_previous_output = p, ti_script_sig = s, ti_sequence = q, ti_witness = w\<rparr>)
       (pair_codec (pair_codec word256_codec u32_codec)
         (pair_codec bytes_codec (pair_codec u32_codec (list_codec bytes_codec))))"

definition txout_codec :: "txout codec" where
  "txout_codec =
     iso_codec (\<lambda>out. (to_value out, to_script_pubkey out))
       (\<lambda>(v, s). \<lparr>to_value = v, to_script_pubkey = s\<rparr>) (pair_codec u64_codec bytes_codec)"

definition transaction_codec :: "transaction codec" where
  "transaction_codec =
     iso_codec (\<lambda>t. (tx_version t, tx_lock_time t, tx_input t, tx_output t))
       (\<lambda>(v, l, i, out). \<lparr>tx_version = v, tx_lock_time = l, tx_input = i, tx_output = out\<rparr>)
       (pair_codec u32_codec (pair_codec u32_codec (pair_codec (list_codec txin_codec) (list_codec txout_codec))))"

definition bitcoin_header_codec :: "bitcoin_header codec" where
  "bitcoin_header_codec =
     iso_codec (\<lambda>h. (bh_version h, bh_prev_blockhash h, bh_merkle_root h, bh_time h, bh_bits h, bh_nonce h))
       (\<lambda>(v, p, m, t, b, n). \<lparr>bh_version = v, bh_prev_blockhash = p, bh_merkle_root = m, bh_time = t,
          bh_bits = b, bh_nonce = n\<rparr>)
       (pair_codec u32_codec (pair_codec word256_codec (pair_codec word256_codec
         (pair_codec u32_codec (pair_codec u32_codec u32_codec)))))"

text \<open>The hashes of the instance read the bytes as a number.\<close>

definition number_hash :: "bytes \<Rightarrow> 256 word" where
  "number_hash bs = word_of_nat (of_be_bytes bs)"

definition sample_btc :: btc where
  "sample_btc =
     \<lparr>c_u8 = byte_codec, c_u32 = u32_codec, c_u64 = u64_codec, c_varint = u64_codec,
      c_bool = iso_codec (\<lambda>b. if b then 1 else 0) (\<lambda>w. w \<noteq> 0) byte_codec,
      c_string = list_codec char_codec, c_word256 = word256_codec,
      c_word256s = list_codec word256_codec, c_work = word256_codec,
      c_array4 = \<lparr>enc = (\<lambda>bs. bs), dec = (\<lambda>bs. if length bs < 4 then None else Some (take 4 bs, drop 4 bs))\<rparr>,
      c_pubkey = bytes_codec, c_header = bitcoin_header_codec,
      c_transaction = transaction_codec, c_transactions = list_codec transaction_codec,
      hash_blockhash = number_hash, hash_sha256 = number_hash,
      wire_txin = (\<lambda>i. i\<lparr>ti_witness := []\<rparr>),
      compute_txid = (\<lambda>t. number_hash (enc transaction_codec t)),
      to_work = (\<lambda>bits. ucast bits),
      calculate_root = (\<lambda>ids. case ids of [] \<Rightarrow> None | i # _ \<Rightarrow> Some i),
      p2pkh_script = (\<lambda>key _. key),
      max_vec_size = 4000000, max_msg_size = 5000000, valid_pubkey = (\<lambda>_. True)\<rparr>"

lemma leaf_codecs_ok:
  "codec_ok byte_codec" "codec_ok u32_codec" "codec_ok u64_codec" "codec_ok word256_codec"
  by (simp_all add: byte_codec_def u32_codec_def u64_codec_def word256_codec_def word_codec_ok)

lemma char_codec_ok: "codec_ok char_codec"
  unfolding char_codec_def
proof (rule iso_codec_ok [OF leaf_codecs_ok(1)])
  fix c :: char
  have "of_char c < (256 :: nat)" by (rule nat_of_char_less_256)
  then show "char_of (unat (word_of_nat (of_char c) :: u8)) = c" by (simp add: unat_of_nat)
qed

lemma bytes_codec_ok: "codec_ok bytes_codec"
  by (simp add: bytes_codec_def list_codec_ok leaf_codecs_ok)

lemma txin_codec_ok: "codec_ok txin_codec"
  unfolding txin_codec_def
  by (intro iso_codec_ok pair_codec_ok list_codec_ok leaf_codecs_ok bytes_codec_ok) simp

lemma txout_codec_ok: "codec_ok txout_codec"
  unfolding txout_codec_def by (intro iso_codec_ok pair_codec_ok leaf_codecs_ok bytes_codec_ok) simp

lemma transaction_codec_ok: "codec_ok transaction_codec"
  unfolding transaction_codec_def
  by (intro iso_codec_ok pair_codec_ok list_codec_ok leaf_codecs_ok txin_codec_ok txout_codec_ok) simp

lemma bitcoin_header_codec_ok: "codec_ok bitcoin_header_codec"
  unfolding bitcoin_header_codec_def
  by (intro iso_codec_ok pair_codec_ok leaf_codecs_ok) simp

lemma sample_btc_ok: "btc_ok sample_btc"
proof -
  have "codec_ok (iso_codec (\<lambda>b. if b then 1 else 0) (\<lambda>w. w \<noteq> 0) byte_codec)"
    by (intro iso_codec_ok leaf_codecs_ok) simp
  moreover have "round_trips (\<lambda>bs. length bs = 4) (\<lambda>bs. bs)
      (\<lambda>bs. if length bs < 4 then None else Some (take 4 bs, drop 4 bs))"
    by (intro round_tripsI) simp
  ultimately show ?thesis
    by (simp add: btc_ok_def sample_btc_def leaf_codecs_ok char_codec_ok bytes_codec_ok
        list_codec_ok transaction_codec_ok bitcoin_header_codec_ok round_trips_weaken [where P = "\<lambda>_. True"])
qed

section \<open>Properties\<close>

text \<open>
  C26: a share block survives the wire: decoding the encoding of a share block, whatever bytes
  follow it, returns the block and leaves those bytes, so different blocks have different
  encodings.
\<close>

theorem share_block_round_trip:
  assumes "btc_ok B" "block_fits B b" "block_fits B b'"
  shows "share_block_decode B (share_block_encode B b @ rest) = Some (b, rest)
    \<and> (share_block_encode B b = share_block_encode B b' \<longrightarrow> b = b')"
  using assms block_format.decode_encode [of B b rest] block_format.encode_inject [of B b b'] by simp

text \<open>
  C27: everything the store writes is read back: stored blocks, block metadata, transaction
  metadata, lists of transaction ids and users deserialise to what was serialised, as long as
  lists and strings respect the crate's size limit; a PPLNS share comes back without its address and
  worker name.
\<close>

theorem stored_records_round_trip:
  assumes "btc_ok B" "txids_fit B ids" "storage_fits B blk" "fits B (c_string B) (su_btcaddress user)"
    and "share_fits B share"
  shows "deserialize (storage_share_block_decode B) (storage_share_block_encode B blk) = Some blk
    \<and> deserialize (block_metadata_decode B) (block_metadata_encode B bm) = Some bm
    \<and> deserialize (tx_metadata_decode B) (tx_metadata_encode B tm) = Some tm
    \<and> deserialize (txids_decode B) (txids_encode B ids) = Some ids
    \<and> deserialize (stored_user_decode B) (stored_user_encode B user) = Some user
    \<and> deserialize (pplns_share_decode B) (pplns_share_encode B share) = Some (stored_form share)"
proof -
  have d: "d (e x @ []) = Some (y, []) \<Longrightarrow> deserialize d (e x) = Some y" for d e x y
    by (simp add: deserialize_def)
  show ?thesis
    using assms
    by (intro conjI d round_tripsD [OF storage_share_block_format] round_tripsD [OF block_metadata_format]
        round_tripsD [OF tx_metadata_format] round_tripsD [OF txids_format]
        round_tripsD [OF stored_user_format] pplns_share_format) simp_all
qed

text \<open>
  C28: a commitment binds the miner: its encoding decodes to it, whatever bytes follow, and
  two different commitments (another parent, other uncles, miner, merkle root, target or time)
  have different encodings, so that if their commitment hashes agree these two encodings are a
  collision of SHA-256, found by encoding the two commitments. With a hash that has no such
  collision, the commitment hash determines every field.
\<close>

theorem commitment_binding:
  assumes "btc_ok B" "commitment_fits B c" "commitment_fits B c'"
  shows "share_commitment_decode B (share_commitment_encode B c @ rest) = Some (c, rest)
    \<and> (c \<noteq> c' \<longrightarrow> share_commitment_encode B c \<noteq> share_commitment_encode B c')
    \<and> (commitment_hash B c = commitment_hash B c'
        \<longrightarrow> hash_sha256 B (share_commitment_encode B c) = hash_sha256 B (share_commitment_encode B c'))
    \<and> (inj_on (hash_sha256 B) {share_commitment_encode B c, share_commitment_encode B c'}
        \<longrightarrow> (commitment_hash B c = commitment_hash B c' \<longleftrightarrow>
             sc_prev_share_blockhash c = sc_prev_share_blockhash c' \<and> sc_uncles c = sc_uncles c'
             \<and> sc_miner_pubkey c = sc_miner_pubkey c' \<and> sc_merkle_root c = sc_merkle_root c'
             \<and> sc_bits c = sc_bits c' \<and> sc_time c = sc_time c'))"
  using commitment_format.encode_inject [of B c c'] commitment_format.decode_encode [of B c rest] assms
  by (auto simp: commitment_hash_def inj_on_def)

text \<open>
  The commitment hash of a header is not the hash of the commitment it was built from: the
  bytes hashed on the two sides always differ, because the commitment encodes its merkle root
  with a presence flag and the header without.
\<close>

theorem header_commitment_differs:
  assumes "btc_ok B" "sc_merkle_root c = Some r"
  shows "header_commitment_bytes B (from_commitment_and_header c header r)
    \<noteq> share_commitment_encode B c"
proof
  assume eq: "header_commitment_bytes B (from_commitment_and_header c header r) = share_commitment_encode B c"
  have "length (enc (c_bool B) True) = 0"
    using arg_cong [OF eq, of length] assms(2)
    by (simp add: header_commitment_bytes_def from_commitment_and_header_def share_commitment_encode_def
        option_encode_def)
  then have "enc (c_bool B) True = []" by simp
  then have "dec (c_bool B) (enc (c_bool B) False) = Some (True, enc (c_bool B) False)"
    using assms(1) round_tripsD [of "\<lambda>_. True" "enc (c_bool B)" "dec (c_bool B)" True "enc (c_bool B) False"]
    by (simp add: btc_ok_def)
  moreover have "dec (c_bool B) (enc (c_bool B) False) = Some (False, [])"
    using assms(1) round_tripsD [of "\<lambda>_. True" "enc (c_bool B)" "dec (c_bool B)" False "[]"]
    by (simp add: btc_ok_def)
  ultimately show False by simp
qed

definition sample_header :: bitcoin_header where
  "sample_header = \<lparr>bh_version = 1, bh_prev_blockhash = 2, bh_merkle_root = 3, bh_time = 4, bh_bits = 5, bh_nonce = 6\<rparr>"

definition sample_share_header :: share_header where
  "sample_share_header =
     \<lparr>sh_prev_share_blockhash = 0, sh_uncles = [], sh_miner_pubkey = [2], sh_merkle_root = 7,
      sh_bitcoin_header = sample_header, sh_bits = 8, sh_time = 9\<rparr>"

definition sample_block :: share_block where
  "sample_block = \<lparr>sb_header = sample_share_header, sb_transactions = [], sb_bitcoin_transactions = []\<rparr>"

definition sample_commitment :: share_commitment where
  "sample_commitment =
     \<lparr>sc_prev_share_blockhash = 0, sc_uncles = [], sc_miner_pubkey = [2], sc_merkle_root = Some 7,
      sc_bits = 8, sc_time = 9\<rparr>"

lemma empty_fits:
  "fits sample_btc (c_word256s sample_btc) []" "fits sample_btc (c_string sample_btc) []"
  "fits sample_btc (c_transactions sample_btc) []"
  by (simp_all add: fits_def sample_btc_def list_codec_def)

lemma sample_share_header_fits: "header_fits sample_btc sample_share_header"
  by (simp add: header_fits_def sample_share_header_def empty_fits) (simp add: sample_btc_def)

lemma sample_block_fits: "block_fits sample_btc sample_block"
  by (simp add: block_fits_def sample_block_def sample_share_header_fits empty_fits)

lemma sample_commitment_fits: "commitment_fits sample_btc sample_commitment"
  by (simp add: commitment_fits_def sample_commitment_def empty_fits) (simp add: sample_btc_def)

theorem share_block_round_trip_witness:
  "share_block_decode sample_btc (share_block_encode sample_btc sample_block @ [1, 2]) = Some (sample_block, [1, 2])"
  using share_block_round_trip [OF sample_btc_ok sample_block_fits sample_block_fits, of "[1, 2]"]
  by simp

theorem stored_records_round_trip_witness:
  "deserialize (block_metadata_decode sample_btc)
     (block_metadata_encode sample_btc \<lparr>bm_expected_height = Some 3, bm_chain_work = 9\<rparr>)
   = Some \<lparr>bm_expected_height = Some 3, bm_chain_work = 9\<rparr>"
proof -
  have ids: "txids_fit sample_btc []"
    by (simp add: txids_fit_def txids_encode_def sample_btc_def u64_codec_def word_codec_def)
  then have "storage_fits sample_btc \<lparr>ssb_header = sample_share_header, ssb_txids = [], ssb_bitcoin_txids = []\<rparr>"
    by (simp add: storage_fits_def sample_share_header_fits)
  moreover have "share_fits sample_btc
      (sample_share\<lparr>pps_difficulty := Fin 0, pps_job_id := [], pps_extranonce2 := [], pps_nonce := []\<rparr>)"
    by (simp add: share_fits_def empty_fits)
  ultimately show ?thesis
    using stored_records_round_trip [OF sample_btc_ok ids, of _ "\<lparr>su_user_id = 1, su_btcaddress = [], su_created_at = 2\<rparr>"]
    by (simp add: empty_fits)
qed

theorem commitment_binding_witness:
  "deserialize (share_commitment_decode sample_btc) (share_commitment_encode sample_btc sample_commitment)
     = Some sample_commitment
   \<and> share_commitment_encode sample_btc sample_commitment
     \<noteq> share_commitment_encode sample_btc (sample_commitment\<lparr>sc_time := 10\<rparr>)"
proof -
  have "commitment_fits sample_btc (sample_commitment\<lparr>sc_time := 10\<rparr>)"
    using sample_commitment_fits by (simp add: commitment_fits_def)
  moreover have "sample_commitment \<noteq> sample_commitment\<lparr>sc_time := 10\<rparr>"
    by (simp add: sample_commitment_def)
  ultimately show ?thesis
    using commitment_binding [OF sample_btc_ok sample_commitment_fits, of "sample_commitment\<lparr>sc_time := 10\<rparr>" "[]"]
    by (simp add: deserialize_def)
qed

theorem header_commitment_differs_witness:
  "header_commitment_bytes sample_btc (from_commitment_and_header sample_commitment sample_header 7)
     \<noteq> share_commitment_encode sample_btc sample_commitment"
  by (rule header_commitment_differs [OF sample_btc_ok]) (simp add: sample_commitment_def)

end
