(* ===== verification/Share_Store.thy ===== *)
theory Share_Store
  imports Share_Block
begin

text \<open>
  The share half of the store (\<open>store/mod.rs\<close>, \<open>store/share_store.rs\<close>,
  \<open>store/transaction_store.rs\<close>, \<open>store/organise.rs\<close> and the index operations of
  \<open>store/dag_store.rs\<close>). The column families are tables from keys to cells, one table per kind
  of key; a write batch is the list of its operations, applied when it is committed, so reads
  made while a batch is filled see the database without it. The state of the chain that is kept
  in memory is part of the record.
\<close>

section \<open>State\<close>

record share_store = accounting_store +
  block_cf :: "blockhash \<Rightarrow> storage_share_block cell"
  block_md_cf :: "blockhash \<Rightarrow> block_metadata cell"
  block_txids_cf :: "blockhash \<Rightarrow> txid list cell"
  bitcoin_txids_cf :: "blockhash \<Rightarrow> txid list cell"
  txids_blocks_cf :: "txid \<Rightarrow> blockhash list cell"
  uncles_cf :: "blockhash \<Rightarrow> blockhash list cell"
  inputs_cf :: "txid \<times> nat \<Rightarrow> txin cell"
  outputs_cf :: "txid \<times> nat \<Rightarrow> txout cell"
  tx_cf :: "txid \<Rightarrow> tx_metadata cell"
  spends_cf :: "txid \<times> u32 \<Rightarrow> (txid \<times> u32) cell"
  block_index_cf :: "blockhash \<Rightarrow> blockhash list cell"
  height_cf :: "u32 \<Rightarrow> blockhash list cell"
  candidate_cf :: "u32 \<Rightarrow> blockhash cell"
  confirmed_cf :: "u32 \<Rightarrow> blockhash cell"
  top_candidate_cf :: "u32 cell"
  top_confirmed_cf :: "u32 cell"
  genesis_blockhash :: "blockhash option"
  chain_tip :: blockhash
  tips :: "blockhash list"

text \<open>The operations a batch holds, by the table they go to.\<close>

datatype (discs_sels) batch_op =
    PutBlock blockhash storage_share_block
  | PutBlockMetadata blockhash block_metadata
  | PutBlockTxids blockhash "txid list"
  | PutBitcoinTxids blockhash "txid list"
  | MergeTxidBlock txid blockhash
  | MergeUncle blockhash blockhash
  | PutInput txid nat txin
  | PutOutput txid nat txout
  | PutTx txid tx_metadata
  | PutSpend "txid \<times> u32" "txid \<times> u32"
  | MergeIndex blockhash blockhash
  | MergeHeight u32 blockhash
  | PutCandidate u32 blockhash
  | PutConfirmed u32 blockhash
  | PutTopCandidate u32
  | PutTopConfirmed u32

type_synonym batch = "batch_op list"

section \<open>The merge operator\<close>

text \<open>
  \<open>blockhash_list_merge\<close> on bytes, as RocksDB calls it, and its effect on a cell when the
  operand is one block hash.
\<close>

fun merge_operands :: "btc \<Rightarrow> bytes list \<Rightarrow> blockhash list \<Rightarrow> blockhash list" where
  "merge_operands B [] blockhashes = blockhashes"
| "merge_operands B (op # operands) blockhashes =
     merge_operands B operands
       (case deserialize (dec (c_word256 B)) op of
          Some new_hash \<Rightarrow> (if new_hash \<in> set blockhashes then blockhashes else blockhashes @ [new_hash])
        | None \<Rightarrow> blockhashes)"

definition blockhash_list_merge :: "btc \<Rightarrow> bytes option \<Rightarrow> bytes list \<Rightarrow> bytes option" where
  "blockhash_list_merge B existing_val operands =
     (let existing = (case existing_val of None \<Rightarrow> None | Some bytes \<Rightarrow> deserialize (dec (c_word256s B)) bytes)
      in Some (enc (c_word256s B)
           (merge_operands B operands (case existing of None \<Rightarrow> [] | Some hashes \<Rightarrow> hashes))))"

definition merge_cell :: "blockhash list cell \<Rightarrow> blockhash \<Rightarrow> blockhash list cell" where
  "merge_cell c h =
     (case c of
        Stored hashes \<Rightarrow> Stored (if h \<in> set hashes then hashes else hashes @ [h])
      | ReadError \<Rightarrow> ReadError
      | _ \<Rightarrow> Stored [h])"

section \<open>Batches\<close>

primrec apply_op :: "batch_op \<Rightarrow> share_store \<Rightarrow> share_store" where
  "apply_op (PutBlock h b) st = st\<lparr>block_cf := (block_cf st)(h := Stored b)\<rparr>"
| "apply_op (PutBlockMetadata h m) st = st\<lparr>block_md_cf := (block_md_cf st)(h := Stored m)\<rparr>"
| "apply_op (PutBlockTxids h ts) st = st\<lparr>block_txids_cf := (block_txids_cf st)(h := Stored ts)\<rparr>"
| "apply_op (PutBitcoinTxids h ts) st = st\<lparr>bitcoin_txids_cf := (bitcoin_txids_cf st)(h := Stored ts)\<rparr>"
| "apply_op (MergeTxidBlock t h) st =
     st\<lparr>txids_blocks_cf := (txids_blocks_cf st)(t := merge_cell (txids_blocks_cf st t) h)\<rparr>"
| "apply_op (MergeUncle u n) st = st\<lparr>uncles_cf := (uncles_cf st)(u := merge_cell (uncles_cf st u) n)\<rparr>"
| "apply_op (PutInput t i x) st = st\<lparr>inputs_cf := (inputs_cf st)((t, i) := Stored x)\<rparr>"
| "apply_op (PutOutput t i x) st = st\<lparr>outputs_cf := (outputs_cf st)((t, i) := Stored x)\<rparr>"
| "apply_op (PutTx t m) st = st\<lparr>tx_cf := (tx_cf st)(t := Stored m)\<rparr>"
| "apply_op (PutSpend k v) st = st\<lparr>spends_cf := (spends_cf st)(k := Stored v)\<rparr>"
| "apply_op (MergeIndex p n) st =
     st\<lparr>block_index_cf := (block_index_cf st)(p := merge_cell (block_index_cf st p) n)\<rparr>"
| "apply_op (MergeHeight h b) st = st\<lparr>height_cf := (height_cf st)(h := merge_cell (height_cf st h) b)\<rparr>"
| "apply_op (PutCandidate h b) st = st\<lparr>candidate_cf := (candidate_cf st)(h := Stored b)\<rparr>"
| "apply_op (PutConfirmed h b) st = st\<lparr>confirmed_cf := (confirmed_cf st)(h := Stored b)\<rparr>"
| "apply_op (PutTopCandidate h) st = st\<lparr>top_candidate_cf := Stored h\<rparr>"
| "apply_op (PutTopConfirmed h) st = st\<lparr>top_confirmed_cf := Stored h\<rparr>"

definition apply_batch :: "batch \<Rightarrow> share_store \<Rightarrow> share_store" where
  "apply_batch batch st = fold apply_op batch st"

definition commit_batch :: "batch \<Rightarrow> share_store \<Rightarrow> (store_error, unit) outcome \<times> share_store" where
  "commit_batch batch st = (if read_only st then (Err DbError, st) else (Ok (), apply_batch batch st))"

section \<open>Writing transactions\<close>

definition add_tx_metadata ::
  "txid \<Rightarrow> transaction \<Rightarrow> bool \<Rightarrow> batch \<Rightarrow> tx_metadata \<times> batch" where
  "add_tx_metadata txid tx validated batch =
     (let md = \<lparr>tm_txid = txid, tm_version = tx_version tx, tm_lock_time = tx_lock_time tx,
                tm_input_count = word_of_nat (length (tx_input tx)),
                tm_output_count = word_of_nat (length (tx_output tx)), tm_validated = validated\<rparr>
      in (md, batch @ [PutTx txid md]))"

definition add_spend :: "txid \<Rightarrow> u32 \<Rightarrow> txid \<Rightarrow> u32 \<Rightarrow> batch \<Rightarrow> batch" where
  "add_spend input_txid input_vout spending_txid spending_index batch =
     batch @ [PutSpend (input_txid, input_vout) (spending_txid, spending_index)]"

fun add_inputs :: "btc \<Rightarrow> txid \<Rightarrow> bool \<Rightarrow> nat \<Rightarrow> txin list \<Rightarrow> batch \<Rightarrow> batch" where
  "add_inputs B txid on_main_chain i [] batch = batch"
| "add_inputs B txid on_main_chain i (input # inputs) batch =
     (let batch = batch @ [PutInput txid i (wire_txin B input)];
          batch = (if on_main_chain
                   then add_spend (fst (ti_previous_output input)) (snd (ti_previous_output input))
                          txid (word_of_nat i) batch
                   else batch)
      in add_inputs B txid on_main_chain (Suc i) inputs batch)"

fun add_outputs :: "txid \<Rightarrow> nat \<Rightarrow> txout list \<Rightarrow> batch \<Rightarrow> batch" where
  "add_outputs txid i [] batch = batch"
| "add_outputs txid i (output # outputs) batch = add_outputs txid (Suc i) outputs (batch @ [PutOutput txid i output])"

fun add_sharechain_txs :: "btc \<Rightarrow> transaction list \<Rightarrow> bool \<Rightarrow> batch \<Rightarrow> tx_metadata list \<times> batch" where
  "add_sharechain_txs B [] on_main_chain batch = ([], batch)"
| "add_sharechain_txs B (tx # txs) on_main_chain batch =
     (let txid = compute_txid B tx;
          (md, batch) = add_tx_metadata txid tx False batch;
          batch = add_inputs B txid on_main_chain 0 (tx_input tx) batch;
          batch = add_outputs txid 0 (tx_output tx) batch;
          (mds, batch) = add_sharechain_txs B txs on_main_chain batch
      in (md # mds, batch))"

definition add_txids_to_blocks_index :: "blockhash \<Rightarrow> txid list \<Rightarrow> batch \<Rightarrow> batch" where
  "add_txids_to_blocks_index blockhash txids batch = batch @ map (\<lambda>txid. MergeTxidBlock txid blockhash) txids"

text \<open>The suffix and column family select one of two tables.\<close>

datatype txids_family = BlockTxids | BitcoinTxids

definition add_block_to_txids_index :: "blockhash \<Rightarrow> txid list \<Rightarrow> batch \<Rightarrow> txids_family \<Rightarrow> batch" where
  "add_block_to_txids_index blockhash txids batch column_family =
     batch @ [case column_family of BlockTxids \<Rightarrow> PutBlockTxids blockhash txids
              | BitcoinTxids \<Rightarrow> PutBitcoinTxids blockhash txids]"

section \<open>Writing shares\<close>

definition update_block_index :: "blockhash \<Rightarrow> blockhash \<Rightarrow> batch \<Rightarrow> batch" where
  "update_block_index prev_blockhash next_blockhash batch = batch @ [MergeIndex prev_blockhash next_blockhash]"

definition set_height_to_blockhash :: "blockhash \<Rightarrow> u32 \<Rightarrow> batch \<Rightarrow> batch" where
  "set_height_to_blockhash blockhash height batch = batch @ [MergeHeight height blockhash]"

definition set_block_metadata :: "blockhash \<Rightarrow> block_metadata \<Rightarrow> batch \<Rightarrow> batch" where
  "set_block_metadata blockhash metadata batch = batch @ [PutBlockMetadata blockhash metadata]"

definition add_to_uncles_index :: "blockhash \<Rightarrow> blockhash \<Rightarrow> batch \<Rightarrow> batch" where
  "add_to_uncles_index uncle nephew batch = batch @ [MergeUncle uncle nephew]"

definition store_add_share :: "btc \<Rightarrow> share_block \<Rightarrow> u32 \<Rightarrow> work \<Rightarrow> bool \<Rightarrow> batch \<Rightarrow> batch" where
  "store_add_share B share height chain_work confirm_txs batch =
     (let blockhash = block_hash B share;
          (txs_metadata, batch) = add_sharechain_txs B (sb_transactions share) confirm_txs batch;
          txids = map tm_txid txs_metadata;
          batch = add_block_to_txids_index blockhash txids batch BlockTxids;
          batch = add_txids_to_blocks_index blockhash txids batch;
          bitcoin_txids = map (compute_txid B) (sb_bitcoin_transactions share);
          batch = add_block_to_txids_index blockhash bitcoin_txids batch BitcoinTxids;
          batch = update_block_index (sh_prev_share_blockhash (sb_header share)) blockhash batch;
          batch = fold (\<lambda>uncle. update_block_index uncle blockhash) (sh_uncles (sb_header share)) batch;
          batch = set_height_to_blockhash blockhash height batch;
          batch = set_block_metadata blockhash \<lparr>bm_expected_height = Some height, bm_chain_work = chain_work\<rparr> batch
      in batch @ [PutBlock blockhash (to_storage_share_block B share)])"

section \<open>Reading transactions\<close>

definition get_tx_metadata :: "share_store \<Rightarrow> txid \<Rightarrow> (store_error, tx_metadata) outcome" where
  "get_tx_metadata st txid =
     (case tx_cf st txid of
        ReadError \<Rightarrow> Err DbError
      | Stored md \<Rightarrow> Ok md
      | Corrupt \<Rightarrow> Err (Message ''Failed to deserialize tx metadata'')
      | Absent \<Rightarrow> Err (Message ''Transaction metadata not found for txid''))"

text \<open>\<open>get_cf(..).unwrap().unwrap()\<close> followed by a decoding whose error is returned.\<close>

definition read_part :: "'v cell \<Rightarrow> (store_error, 'v) outcome" where
  "read_part c =
     (case c of
        Stored v \<Rightarrow> Ok v
      | Corrupt \<Rightarrow> Err (Message ''Error deserializing'')
      | _ \<Rightarrow> Panic)"

definition get_tx :: "share_store \<Rightarrow> txid \<Rightarrow> (store_error, transaction) outcome" where
  "get_tx st txid =
     and_then (get_tx_metadata st txid) (\<lambda>md.
     and_then (collect (\<lambda>i. read_part (inputs_cf st (txid, i))) [0..<unat (tm_input_count md)]) (\<lambda>inputs.
     and_then (collect (\<lambda>i. read_part (outputs_cf st (txid, i))) [0..<unat (tm_output_count md)]) (\<lambda>outputs.
       Ok \<lparr>tx_version = tm_version md, tx_lock_time = tm_lock_time md,
           tx_input = inputs, tx_output = outputs\<rparr>)))"

definition get_txids_for_blockhash :: "share_store \<Rightarrow> blockhash \<Rightarrow> txids_family \<Rightarrow> txid list" where
  "get_txids_for_blockhash st blockhash column_family =
     (case (case column_family of BlockTxids \<Rightarrow> block_txids_cf st blockhash
            | BitcoinTxids \<Rightarrow> bitcoin_txids_cf st blockhash) of
        Stored txids \<Rightarrow> txids
      | _ \<Rightarrow> [])"

text \<open>\<open>flat_map\<close> over results drops the errors; a panic is not an error.\<close>

fun flat_map_ok :: "('a \<Rightarrow> ('e, 'b) outcome) \<Rightarrow> 'a list \<Rightarrow> ('e, 'b list) outcome" where
  "flat_map_ok f [] = Ok []"
| "flat_map_ok f (x # xs) =
     (case f x of
        Ok y \<Rightarrow> and_then (flat_map_ok f xs) (\<lambda>ys. Ok (y # ys))
      | Err _ \<Rightarrow> flat_map_ok f xs
      | Panic \<Rightarrow> Panic)"

definition get_txs_for_blockhash ::
  "share_store \<Rightarrow> blockhash \<Rightarrow> txids_family \<Rightarrow> (store_error, transaction list) outcome" where
  "get_txs_for_blockhash st blockhash column_family =
     flat_map_ok (get_tx st) (get_txids_for_blockhash st blockhash column_family)"

definition get_bitcoin_txs_by_blockhash_index ::
  "share_store \<Rightarrow> blockhash \<Rightarrow> (store_error, transaction list) outcome" where
  "get_bitcoin_txs_by_blockhash_index st blockhash =
     collect (get_tx st) (get_txids_for_blockhash st blockhash BitcoinTxids)"

definition get_sharechain_txs_by_blockhash_index ::
  "share_store \<Rightarrow> blockhash \<Rightarrow> (store_error, transaction list) outcome" where
  "get_sharechain_txs_by_blockhash_index st blockhash =
     collect (get_tx st) (get_txids_for_blockhash st blockhash BlockTxids)"

definition mark_transaction_valid ::
  "share_store \<Rightarrow> txid \<Rightarrow> batch \<Rightarrow> (store_error, tx_metadata \<times> batch) outcome" where
  "mark_transaction_valid st txid batch =
     and_then (get_tx_metadata st txid) (\<lambda>md.
       let md' = md\<lparr>tm_validated := True\<rparr> in Ok (md', batch @ [PutTx txid md']))"

definition is_spent :: "share_store \<Rightarrow> txid \<Rightarrow> u32 \<Rightarrow> (store_error, (txid \<times> u32) option) outcome" where
  "is_spent st txid vout =
     (case spends_cf st (txid, vout) of
        ReadError \<Rightarrow> Err DbError
      | Stored outpoint \<Rightarrow> Ok (Some outpoint)
      | Corrupt \<Rightarrow> Err (Message ''Failed to deserialise txid from spends'')
      | Absent \<Rightarrow> Ok None)"

definition get_blockhashes_for_txid :: "share_store \<Rightarrow> txid \<Rightarrow> (store_error, blockhash list) outcome" where
  "get_blockhashes_for_txid st txid =
     (case txids_blocks_cf st txid of
        ReadError \<Rightarrow> Err DbError
      | Stored hashes \<Rightarrow> Ok hashes
      | Corrupt \<Rightarrow> Err (Message ''Failed to deserialize blockhashes from txids_blocks index'')
      | Absent \<Rightarrow> Ok [])"

section \<open>Reading shares\<close>

definition load_share ::
  "share_store \<Rightarrow> blockhash \<Rightarrow> storage_share_block \<Rightarrow> (store_error, share_block) outcome" where
  "load_share st blockhash stored =
     and_then (get_txs_for_blockhash st blockhash BlockTxids) (\<lambda>transactions.
     and_then (get_txs_for_blockhash st blockhash BitcoinTxids) (\<lambda>bitcoin_transactions.
       Ok \<lparr>sb_header = ssb_header stored, sb_transactions = transactions,
           sb_bitcoin_transactions = bitcoin_transactions\<rparr>))"

definition get_share :: "share_store \<Rightarrow> blockhash \<Rightarrow> (store_error, share_block option) outcome" where
  "get_share st blockhash =
     (case block_cf st blockhash of
        Stored stored \<Rightarrow> and_then (load_share st blockhash stored) (\<lambda>share. Ok (Some share))
      | _ \<Rightarrow> Ok None)"

definition get_share_at_tip :: "share_store \<Rightarrow> (store_error, share_block option) outcome" where
  "get_share_at_tip st = get_share st (chain_tip st)"

definition get_share_headers :: "share_store \<Rightarrow> blockhash list \<Rightarrow> share_header list" where
  "get_share_headers st blockhashes =
     List.map_filter (\<lambda>h. map_option ssb_header (stored_value (block_cf st h))) blockhashes"

text \<open>\<open>key_may_exist_cf\<close> of RocksDB is an argument: it may answer true for a missing key.\<close>

fun get_first_existing_blockhash :: "(share_store \<Rightarrow> blockhash \<Rightarrow> bool) \<Rightarrow> share_store \<Rightarrow> blockhash list \<Rightarrow> blockhash option" where
  "get_first_existing_blockhash key_may_exist st [] = None"
| "get_first_existing_blockhash key_may_exist st (blockhash # locator) =
     (if key_may_exist st blockhash then Some blockhash
      else get_first_existing_blockhash key_may_exist st locator)"

definition get_missing_blockhashes ::
  "(share_store \<Rightarrow> blockhash \<Rightarrow> bool) \<Rightarrow> share_store \<Rightarrow> blockhash list \<Rightarrow> blockhash list" where
  "get_missing_blockhashes key_may_exist st blockhashes = filter (\<lambda>h. \<not> key_may_exist st h) blockhashes"

text \<open>The map that is returned, as pairs in the order they are found; a repeated key counts once.\<close>

fun get_shares :: "share_store \<Rightarrow> blockhash list \<Rightarrow> (store_error, (blockhash \<times> share_block) list) outcome" where
  "get_shares st [] = Ok []"
| "get_shares st (blockhash # blockhashes) =
     (case block_cf st blockhash of
        Stored stored \<Rightarrow>
          and_then (load_share st blockhash stored) (\<lambda>share.
          and_then (get_shares st blockhashes) (\<lambda>found.
            Ok (if blockhash \<in> fst ` set found then found else (blockhash, share) # found)))
      | _ \<Rightarrow> get_shares st blockhashes)"

definition get_blockhashes_for_height :: "share_store \<Rightarrow> u32 \<Rightarrow> blockhash list" where
  "get_blockhashes_for_height st height = (case height_cf st height of Stored hashes \<Rightarrow> hashes | _ \<Rightarrow> [])"

definition get_shares_at_height ::
  "share_store \<Rightarrow> u32 \<Rightarrow> (store_error, (blockhash \<times> share_block) list) outcome" where
  "get_shares_at_height st height = get_shares st (get_blockhashes_for_height st height)"

definition get_block_metadata :: "share_store \<Rightarrow> blockhash \<Rightarrow> (store_error, block_metadata) outcome" where
  "get_block_metadata st blockhash =
     (case block_md_cf st blockhash of
        Stored metadata \<Rightarrow> Ok metadata
      | Corrupt \<Rightarrow> Err (Message ''Error deserializing block metadata'')
      | _ \<Rightarrow> Err (Message ''No metadata found for blockhash''))"

definition get_share_header :: "share_store \<Rightarrow> blockhash \<Rightarrow> (store_error, share_header option) outcome" where
  "get_share_header st blockhash =
     (case block_cf st blockhash of
        Stored stored \<Rightarrow> Ok (Some (ssb_header stored))
      | Absent \<Rightarrow> Ok None
      | Corrupt \<Rightarrow> Err (Message ''deserialize'')
      | ReadError \<Rightarrow> Err DbError)"

definition get_children_blockhashes :: "share_store \<Rightarrow> blockhash \<Rightarrow> (store_error, blockhash list option) outcome" where
  "get_children_blockhashes st blockhash =
     (case block_index_cf st blockhash of
        Stored hashes \<Rightarrow> Ok (Some hashes)
      | Corrupt \<Rightarrow> Err (Message ''Failed to deseriliaze child blockhash'')
      | Absent \<Rightarrow> Ok None
      | ReadError \<Rightarrow> Err DbError)"

definition is_already_uncle :: "share_store \<Rightarrow> blockhash \<Rightarrow> bool" where
  "is_already_uncle st blockhash = (case uncles_cf st blockhash of Absent \<Rightarrow> False | ReadError \<Rightarrow> False | _ \<Rightarrow> True)"

definition get_nephews :: "share_store \<Rightarrow> blockhash \<Rightarrow> blockhash list option" where
  "get_nephews st uncle = stored_value (uncles_cf st uncle)"

section \<open>Heights\<close>

definition get_top_candidate_height :: "share_store \<Rightarrow> u32 option" where
  "get_top_candidate_height st = stored_value (top_candidate_cf st)"

definition get_top_confirmed_height :: "share_store \<Rightarrow> u32 option" where
  "get_top_confirmed_height st = stored_value (top_confirmed_cf st)"

definition get_candidate_at_height :: "share_store \<Rightarrow> u32 \<Rightarrow> blockhash option" where
  "get_candidate_at_height st height = stored_value (candidate_cf st height)"

definition get_confirmed_at_height :: "share_store \<Rightarrow> u32 \<Rightarrow> blockhash option" where
  "get_confirmed_at_height st height = stored_value (confirmed_cf st height)"

definition get_top_candidate :: "share_store \<Rightarrow> blockhash option" where
  "get_top_candidate st =
     (case get_top_candidate_height st of Some height \<Rightarrow> get_candidate_at_height st height | None \<Rightarrow> None)"

definition get_top_confirmed :: "share_store \<Rightarrow> blockhash option" where
  "get_top_confirmed st =
     (case get_top_confirmed_height st of Some height \<Rightarrow> get_confirmed_at_height st height | None \<Rightarrow> None)"

text \<open>The next height: no top yet, or exactly one above it.\<close>

definition extends_top :: "u32 option \<Rightarrow> u32 \<Rightarrow> bool" where
  "extends_top current_top height =
     (case current_top of None \<Rightarrow> True | Some current \<Rightarrow> saturating_sub height current = 1)"

definition increment_top_candidate :: "share_store \<Rightarrow> u32 \<Rightarrow> batch \<Rightarrow> batch" where
  "increment_top_candidate st height batch =
     (if extends_top (get_top_candidate_height st) height then batch @ [PutTopCandidate height] else batch)"

definition set_top_confirmed_height :: "u32 \<Rightarrow> batch \<Rightarrow> batch" where
  "set_top_confirmed_height height batch = batch @ [PutTopConfirmed height]"

definition make_candidate :: "share_store \<Rightarrow> blockhash \<Rightarrow> u32 \<Rightarrow> batch \<Rightarrow> batch" where
  "make_candidate st blockhash height batch =
     increment_top_candidate st height (batch @ [PutCandidate height blockhash])"

definition make_confirmed :: "share_store \<Rightarrow> blockhash \<Rightarrow> u32 \<Rightarrow> batch \<Rightarrow> batch" where
  "make_confirmed st blockhash height batch =
     (if extends_top (get_top_confirmed_height st) height
      then set_top_confirmed_height height (batch @ [PutConfirmed height blockhash])
      else batch)"

definition is_confirmed :: "share_store \<Rightarrow> blockhash \<Rightarrow> bool" where
  "is_confirmed st blockhash =
     (case get_block_metadata st blockhash of
        Ok metadata \<Rightarrow>
          (case bm_expected_height metadata of
             None \<Rightarrow> False
           | Some height \<Rightarrow> get_confirmed_at_height st height = Some blockhash)
      | _ \<Rightarrow> False)"

section \<open>Lemmas: batches\<close>

lemma apply_batch_simps [simp]:
  "apply_batch [] st = st"
  "apply_batch (op # ops) st = apply_batch ops (apply_op op st)"
  "apply_batch (xs @ ys) st = apply_batch ys (apply_batch xs st)"
  by (simp_all add: apply_batch_def)

text \<open>A batch leaves alone what none of its operations writes to.\<close>

lemma apply_op_memory [simp]:
  "chain_tip (apply_op op st) = chain_tip st" "tips (apply_op op st) = tips st"
  "genesis_blockhash (apply_op op st) = genesis_blockhash st" "read_only (apply_op op st) = read_only st"
  by (cases op; simp)+

lemma apply_batch_memory [simp]:
  "chain_tip (apply_batch ops st) = chain_tip st" "tips (apply_batch ops st) = tips st"
  "genesis_blockhash (apply_batch ops st) = genesis_blockhash st"
  "read_only (apply_batch ops st) = read_only st"
  by (induction ops arbitrary: st) simp_all

lemma frame_op:
  "\<not> is_PutBlock op \<Longrightarrow> block_cf (apply_op op st) = block_cf st"
  "\<not> is_PutBlockMetadata op \<Longrightarrow> block_md_cf (apply_op op st) = block_md_cf st"
  "\<not> is_PutBlockTxids op \<Longrightarrow> block_txids_cf (apply_op op st) = block_txids_cf st"
  "\<not> is_PutBitcoinTxids op \<Longrightarrow> bitcoin_txids_cf (apply_op op st) = bitcoin_txids_cf st"
  "\<not> is_MergeTxidBlock op \<Longrightarrow> txids_blocks_cf (apply_op op st) = txids_blocks_cf st"
  "\<not> is_MergeUncle op \<Longrightarrow> uncles_cf (apply_op op st) = uncles_cf st"
  "\<not> is_PutInput op \<Longrightarrow> inputs_cf (apply_op op st) = inputs_cf st"
  "\<not> is_PutOutput op \<Longrightarrow> outputs_cf (apply_op op st) = outputs_cf st"
  "\<not> is_PutTx op \<Longrightarrow> tx_cf (apply_op op st) = tx_cf st"
  "\<not> is_PutSpend op \<Longrightarrow> spends_cf (apply_op op st) = spends_cf st"
  "\<not> is_MergeIndex op \<Longrightarrow> block_index_cf (apply_op op st) = block_index_cf st"
  "\<not> is_MergeHeight op \<Longrightarrow> height_cf (apply_op op st) = height_cf st"
  "\<not> is_PutCandidate op \<Longrightarrow> candidate_cf (apply_op op st) = candidate_cf st"
  "\<not> is_PutConfirmed op \<Longrightarrow> confirmed_cf (apply_op op st) = confirmed_cf st"
  "\<not> is_PutTopCandidate op \<Longrightarrow> top_candidate_cf (apply_op op st) = top_candidate_cf st"
  "\<not> is_PutTopConfirmed op \<Longrightarrow> top_confirmed_cf (apply_op op st) = top_confirmed_cf st"
  by - (cases op; simp; fail)+

lemma frame_fold:
  assumes "\<And>op s. op \<in> set ops \<Longrightarrow> f (apply_op op s) = f s"
  shows "f (apply_batch ops st) = f st"
  using assms by (induction ops arbitrary: st) auto

lemma frame_batch:
  "\<forall>op \<in> set ops. \<not> is_PutBlock op \<Longrightarrow> block_cf (apply_batch ops st) = block_cf st"
  "\<forall>op \<in> set ops. \<not> is_PutBlockMetadata op \<Longrightarrow> block_md_cf (apply_batch ops st) = block_md_cf st"
  "\<forall>op \<in> set ops. \<not> is_PutBlockTxids op \<Longrightarrow> block_txids_cf (apply_batch ops st) = block_txids_cf st"
  "\<forall>op \<in> set ops. \<not> is_PutBitcoinTxids op \<Longrightarrow> bitcoin_txids_cf (apply_batch ops st) = bitcoin_txids_cf st"
  "\<forall>op \<in> set ops. \<not> is_MergeTxidBlock op \<Longrightarrow> txids_blocks_cf (apply_batch ops st) = txids_blocks_cf st"
  "\<forall>op \<in> set ops. \<not> is_MergeUncle op \<Longrightarrow> uncles_cf (apply_batch ops st) = uncles_cf st"
  "\<forall>op \<in> set ops. \<not> is_PutInput op \<Longrightarrow> inputs_cf (apply_batch ops st) = inputs_cf st"
  "\<forall>op \<in> set ops. \<not> is_PutOutput op \<Longrightarrow> outputs_cf (apply_batch ops st) = outputs_cf st"
  "\<forall>op \<in> set ops. \<not> is_PutTx op \<Longrightarrow> tx_cf (apply_batch ops st) = tx_cf st"
  "\<forall>op \<in> set ops. \<not> is_PutSpend op \<Longrightarrow> spends_cf (apply_batch ops st) = spends_cf st"
  "\<forall>op \<in> set ops. \<not> is_MergeIndex op \<Longrightarrow> block_index_cf (apply_batch ops st) = block_index_cf st"
  "\<forall>op \<in> set ops. \<not> is_MergeHeight op \<Longrightarrow> height_cf (apply_batch ops st) = height_cf st"
  "\<forall>op \<in> set ops. \<not> is_PutCandidate op \<Longrightarrow> candidate_cf (apply_batch ops st) = candidate_cf st"
  "\<forall>op \<in> set ops. \<not> is_PutConfirmed op \<Longrightarrow> confirmed_cf (apply_batch ops st) = confirmed_cf st"
  "\<forall>op \<in> set ops. \<not> is_PutTopCandidate op \<Longrightarrow> top_candidate_cf (apply_batch ops st) = top_candidate_cf st"
  "\<forall>op \<in> set ops. \<not> is_PutTopConfirmed op \<Longrightarrow> top_confirmed_cf (apply_batch ops st) = top_confirmed_cf st"
  by - (rule frame_fold, rule frame_op, blast)+

subsection \<open>Merging\<close>

lemma merge_cell_idem [simp]: "merge_cell (merge_cell c h) h = merge_cell c h"
  by (cases c) (auto simp: merge_cell_def)

lemma merge_cell_contains: "c \<noteq> ReadError \<Longrightarrow> \<exists>hs. merge_cell c h = Stored hs \<and> h \<in> set hs"
  by (cases c) (auto simp: merge_cell_def)

lemma merge_cell_keeps: "c = Stored hs \<Longrightarrow> \<exists>hs'. merge_cell c h = Stored hs' \<and> set hs' = insert h (set hs)"
  by (auto simp: merge_cell_def)

lemma merge_index_all:
  "block_index_cf (apply_batch (map (\<lambda>p. MergeIndex p h) ps) st) q =
     (if q \<in> set ps then merge_cell (block_index_cf st q) h else block_index_cf st q)"
  by (induction ps arbitrary: st) auto

lemma merge_txids_all:
  "txids_blocks_cf (apply_batch (map (\<lambda>t. MergeTxidBlock t h) ts) st) q =
     (if q \<in> set ts then merge_cell (txids_blocks_cf st q) h else txids_blocks_cf st q)"
  by (induction ts arbitrary: st) auto

subsection \<open>Transactions\<close>

definition input_ops :: "btc \<Rightarrow> txid \<Rightarrow> bool \<Rightarrow> nat \<Rightarrow> txin \<Rightarrow> batch" where
  "input_ops B t m i x =
     PutInput t i (wire_txin B x)
     # (if m then [PutSpend (ti_previous_output x) (t, word_of_nat i)] else [])"

lemma add_inputs_step:
  "add_inputs B t m i (x # ins) batch = add_inputs B t m (Suc i) ins (batch @ input_ops B t m i x)"
  by (simp add: add_spend_def Let_def input_ops_def)

lemma add_inputs_append: "add_inputs B t m i ins batch = batch @ add_inputs B t m i ins []"
proof (induction ins arbitrary: i batch)
  case (Cons x ins)
  show ?case
    using Cons [of "Suc i" "batch @ input_ops B t m i x"] Cons [of "Suc i" "input_ops B t m i x"]
    by (simp add: add_inputs_step del: add_inputs.simps)
qed simp

lemma add_inputs_Cons:
  "add_inputs B t m i (x # ins) [] = input_ops B t m i x @ add_inputs B t m (Suc i) ins []"
  using add_inputs_append [of B t m "Suc i" ins "input_ops B t m i x"]
  by (simp add: add_inputs_step del: add_inputs.simps)

lemma add_outputs_append: "add_outputs t i outs batch = batch @ add_outputs t i outs []"
proof (induction outs arbitrary: i batch)
  case (Cons x outs)
  show ?case using Cons [of "Suc i" "batch @ [PutOutput t i x]"] Cons [of "Suc i" "[PutOutput t i x]"] by simp
qed simp

lemma add_outputs_Cons: "add_outputs t i (x # outs) [] = PutOutput t i x # add_outputs t (Suc i) outs []"
  using add_outputs_append [of t "Suc i" outs "[PutOutput t i x]"] by simp

lemma add_inputs_ops: "op \<in> set (add_inputs B t m i ins []) \<Longrightarrow> is_PutInput op \<or> is_PutSpend op"
proof (induction ins arbitrary: i)
  case (Cons x ins)
  then show ?case
    by (auto simp: add_inputs_Cons input_ops_def simp del: add_inputs.simps split: if_splits)
qed simp

lemma add_outputs_ops: "op \<in> set (add_outputs t i outs []) \<Longrightarrow> is_PutOutput op"
proof (induction outs arbitrary: i)
  case (Cons x outs)
  then show ?case by (auto simp: add_outputs_Cons simp del: add_outputs.simps)
qed simp

lemma input_ops_effect:
  "inputs_cf (apply_batch (input_ops B t m i x) st) = (inputs_cf st)((t, i) := Stored (wire_txin B x))"
  by (simp add: input_ops_def)

lemma add_inputs_effect:
  "inputs_cf (apply_batch (add_inputs B t m i ins []) st) (t', j) =
     (if t' = t \<and> i \<le> j \<and> j < i + length ins then Stored (wire_txin B (ins ! (j - i)))
      else inputs_cf st (t', j))"
proof (induction ins arbitrary: i st)
  case (Cons x ins)
  have "j = i \<or> j < i \<or> Suc i \<le> j" by linarith
  then show ?case
    by (auto simp: add_inputs_Cons Cons.IH input_ops_effect nth_Cons' simp del: add_inputs.simps)
qed auto

lemma add_outputs_effect:
  "outputs_cf (apply_batch (add_outputs t i outs []) st) (t', j) =
     (if t' = t \<and> i \<le> j \<and> j < i + length outs then Stored (outs ! (j - i)) else outputs_cf st (t', j))"
proof (induction outs arbitrary: i st)
  case (Cons x outs)
  have "j = i \<or> j < i \<or> Suc i \<le> j" by linarith
  then show ?case
    by (auto simp: add_outputs_Cons Cons.IH nth_Cons' simp del: add_outputs.simps)
qed auto

text \<open>The batch of one transaction, and the transaction that is read back from it.\<close>

definition tx_md :: "btc \<Rightarrow> transaction \<Rightarrow> tx_metadata" where
  "tx_md B tx = fst (add_tx_metadata (compute_txid B tx) tx False [])"

definition tx_ops :: "btc \<Rightarrow> bool \<Rightarrow> transaction \<Rightarrow> batch" where
  "tx_ops B m tx =
     PutTx (compute_txid B tx) (tx_md B tx)
     # add_inputs B (compute_txid B tx) m 0 (tx_input tx) []
     @ add_outputs (compute_txid B tx) 0 (tx_output tx) []"

definition stored_tx :: "btc \<Rightarrow> transaction \<Rightarrow> transaction" where
  "stored_tx B tx = tx\<lparr>tx_input := map (wire_txin B) (tx_input tx)\<rparr>"

definition tx_written :: "btc \<Rightarrow> share_store \<Rightarrow> transaction \<Rightarrow> bool" where
  "tx_written B st tx \<longleftrightarrow>
     tx_cf st (compute_txid B tx) = Stored (tx_md B tx)
     \<and> (\<forall>i < length (tx_input tx). inputs_cf st (compute_txid B tx, i) = Stored (wire_txin B (tx_input tx ! i)))
     \<and> (\<forall>i < length (tx_output tx). outputs_cf st (compute_txid B tx, i) = Stored (tx_output tx ! i))"

definition tx_fits :: "transaction \<Rightarrow> bool" where
  "tx_fits tx \<longleftrightarrow> length (tx_input tx) < 2 ^ 32 \<and> length (tx_output tx) < 2 ^ 32"

lemma add_sharechain_txs_eq:
  "add_sharechain_txs B txs m batch = (map (tx_md B) txs, batch @ concat (map (tx_ops B m) txs))"
proof (induction txs arbitrary: batch)
  case (Cons tx txs)
  have md: "add_tx_metadata (compute_txid B tx) tx False b = (tx_md B tx, b @ [PutTx (compute_txid B tx) (tx_md B tx)])"
    for b by (simp add: add_tx_metadata_def tx_md_def Let_def)
  show ?case
    by (simp add: md Cons.IH tx_ops_def Let_def add_inputs_append [where batch = "_ @ _"]
        add_outputs_append [where batch = "_ @ _"])
qed simp

lemma tm_txid_tx_md [simp]: "tm_txid (tx_md B tx) = compute_txid B tx"
  by (simp add: tx_md_def add_tx_metadata_def Let_def)

lemma tx_ops_frame:
  assumes "op \<in> set (tx_ops B m tx)"
  shows "is_PutTx op \<or> is_PutInput op \<or> is_PutSpend op \<or> is_PutOutput op"
  using assms by (auto simp: tx_ops_def dest: add_inputs_ops add_outputs_ops)

lemma tx_ops_effect:
  "tx_cf (apply_batch (tx_ops B m tx) st) = (tx_cf st)(compute_txid B tx := Stored (tx_md B tx))"
  "inputs_cf (apply_batch (tx_ops B m tx) st) (t, i) =
     (if t = compute_txid B tx \<and> i < length (tx_input tx) then Stored (wire_txin B (tx_input tx ! i))
      else inputs_cf st (t, i))"
  "outputs_cf (apply_batch (tx_ops B m tx) st) (t, i) =
     (if t = compute_txid B tx \<and> i < length (tx_output tx) then Stored (tx_output tx ! i)
      else outputs_cf st (t, i))"
proof -
  let ?ins = "add_inputs B (compute_txid B tx) m 0 (tx_input tx) []"
  let ?outs = "add_outputs (compute_txid B tx) 0 (tx_output tx) []"
  have "\<forall>op \<in> set ?ins. \<not> is_PutTx op \<and> \<not> is_PutOutput op"
    by (auto simp: is_PutTx_def is_PutOutput_def dest: add_inputs_ops)
  moreover have "\<forall>op \<in> set ?outs. \<not> is_PutTx op \<and> \<not> is_PutInput op"
    by (auto simp: is_PutTx_def is_PutInput_def dest: add_outputs_ops)
  ultimately show
    "tx_cf (apply_batch (tx_ops B m tx) st) = (tx_cf st)(compute_txid B tx := Stored (tx_md B tx))"
    "inputs_cf (apply_batch (tx_ops B m tx) st) (t, i) =
       (if t = compute_txid B tx \<and> i < length (tx_input tx) then Stored (wire_txin B (tx_input tx ! i))
        else inputs_cf st (t, i))"
    "outputs_cf (apply_batch (tx_ops B m tx) st) (t, i) =
       (if t = compute_txid B tx \<and> i < length (tx_output tx) then Stored (tx_output tx ! i)
        else outputs_cf st (t, i))"
    by (simp_all add: tx_ops_def frame_batch add_inputs_effect add_outputs_effect)
qed

lemma tx_ops_written: "tx_written B (apply_batch (tx_ops B m tx) st) tx"
  by (simp add: tx_written_def tx_ops_effect)

text \<open>Transactions with one id are the same transaction up to what an id does not cover.\<close>

definition txids_determine :: "btc \<Rightarrow> transaction list \<Rightarrow> bool" where
  "txids_determine B txs \<longleftrightarrow>
     (\<forall>tx \<in> set txs. \<forall>tx' \<in> set txs. compute_txid B tx = compute_txid B tx' \<longrightarrow> stored_tx B tx = stored_tx B tx')"

lemma txids_determine_mono: "txids_determine B txs \<Longrightarrow> set txs' \<subseteq> set txs \<Longrightarrow> txids_determine B txs'"
  unfolding txids_determine_def by blast

lemma stored_tx_eqD:
  assumes "stored_tx B tx = stored_tx B tx'"
  shows "map (wire_txin B) (tx_input tx) = map (wire_txin B) (tx_input tx')" "tx_output tx = tx_output tx'"
    "tx_version tx = tx_version tx'" "tx_lock_time tx = tx_lock_time tx'"
  using arg_cong [OF assms, of tx_input] arg_cong [OF assms, of tx_output]
    arg_cong [OF assms, of tx_version] arg_cong [OF assms, of tx_lock_time]
  by (simp_all add: stored_tx_def)

lemma tx_written_cong:
  assumes "compute_txid B tx = compute_txid B tx'" "stored_tx B tx = stored_tx B tx'" "tx_written B st tx"
  shows "tx_written B st tx'"
proof -
  note eq = stored_tx_eqD [OF assms(2)]
  have len: "length (tx_input tx) = length (tx_input tx')" using eq(1) by (metis length_map)
  have "wire_txin B (tx_input tx ! i) = wire_txin B (tx_input tx' ! i)" if "i < length (tx_input tx')" for i
    using eq(1) that len by (metis nth_map)
  moreover have "tx_md B tx = tx_md B tx'"
    using assms(1) eq len by (simp add: tx_md_def add_tx_metadata_def Let_def)
  ultimately show ?thesis using assms(1,3) eq(2) len by (simp add: tx_written_def)
qed

lemma tx_ops_keeps:
  assumes "compute_txid B tx = compute_txid B tx' \<Longrightarrow> stored_tx B tx = stored_tx B tx'" "tx_written B st tx'"
  shows "tx_written B (apply_batch (tx_ops B m tx) st) tx'"
proof (cases "compute_txid B tx = compute_txid B tx'")
  case True
  with assms(1) tx_ops_written show ?thesis by (metis tx_written_cong)
next
  case False
  with assms(2) show ?thesis by (simp add: tx_written_def tx_ops_effect)
qed

lemma all_tx_ops_keeps:
  assumes "\<And>tx. tx \<in> set txs \<Longrightarrow> compute_txid B tx = compute_txid B tx' \<Longrightarrow> stored_tx B tx = stored_tx B tx'"
    and "tx_written B st tx'"
  shows "tx_written B (apply_batch (concat (map (tx_ops B m) txs)) st) tx'"
  using assms by (induction txs arbitrary: st) (auto intro: tx_ops_keeps)

lemma all_tx_ops_written:
  assumes "txids_determine B txs" "tx \<in> set txs"
  shows "tx_written B (apply_batch (concat (map (tx_ops B m) txs)) st) tx"
  using assms
proof (induction txs arbitrary: st)
  case (Cons a txs)
  have "txids_determine B txs" using Cons.prems(1) by (rule txids_determine_mono) auto
  note IH = Cons.IH [OF this]
  have det: "stored_tx B tx = stored_tx B a" if "tx \<in> set txs" "compute_txid B tx = compute_txid B a" for tx
    by (rule Cons.prems(1) [unfolded txids_determine_def, rule_format]) (use that in simp_all)
  show ?case
  proof (cases "tx \<in> set txs")
    case True
    from IH [OF this] show ?thesis by (simp only: list.map concat.simps apply_batch_simps)
  next
    case False
    with Cons.prems(2) have "tx = a" by simp
    then show ?thesis
      by (simp only: list.map concat.simps apply_batch_simps) (rule all_tx_ops_keeps [OF det tx_ops_written])
  qed
qed simp

lemma all_tx_ops_other:
  assumes "t \<notin> compute_txid B ` set txs"
  shows "tx_cf (apply_batch (concat (map (tx_ops B m) txs)) st) t = tx_cf st t"
  using assms by (induction txs arbitrary: st) (auto simp: tx_ops_effect)

lemma all_tx_ops_other_parts:
  assumes "t \<notin> compute_txid B ` set txs"
  shows "inputs_cf (apply_batch (concat (map (tx_ops B m) txs)) st) (t, i) = inputs_cf st (t, i)"
    and "outputs_cf (apply_batch (concat (map (tx_ops B m) txs)) st) (t, i) = outputs_cf st (t, i)"
  using assms by (induction txs arbitrary: st) (auto simp: tx_ops_effect)

lemma all_tx_ops_metadata:
  assumes "t \<in> compute_txid B ` set txs"
  shows "\<exists>tx \<in> set txs. compute_txid B tx = t
    \<and> tx_cf (apply_batch (concat (map (tx_ops B m) txs)) st) t = Stored (tx_md B tx)"
  using assms
proof (induction txs arbitrary: st)
  case (Cons a txs)
  show ?case
  proof (cases "t \<in> compute_txid B ` set txs")
    case True
    from Cons.IH [OF this, of "apply_batch (tx_ops B m a) st"] show ?thesis by auto
  next
    case False
    with Cons.prems show ?thesis by (auto simp: all_tx_ops_other tx_ops_effect)
  qed
qed simp

text \<open>Which outputs a batch marks as spent, and by which input.\<close>

lemma input_ops_spends:
  "spends_cf (apply_batch (input_ops B t m i x) st) =
     (if m then (spends_cf st)(ti_previous_output x := Stored (t, word_of_nat i)) else spends_cf st)"
  by (simp add: input_ops_def)

lemma add_inputs_other_spends:
  "\<not> m \<or> k \<notin> ti_previous_output ` set ins \<Longrightarrow>
     spends_cf (apply_batch (add_inputs B t m i ins []) st) k = spends_cf st k"
  by (induction ins arbitrary: i st)
    (auto simp: add_inputs_Cons input_ops_spends simp del: add_inputs.simps(2))

lemma add_inputs_spends:
  assumes "m" "k \<in> ti_previous_output ` set ins"
  shows "\<exists>j < length ins. ti_previous_output (ins ! j) = k
    \<and> spends_cf (apply_batch (add_inputs B t m i ins []) st) k = Stored (t, word_of_nat (i + j))"
  using assms
proof (induction ins arbitrary: i st)
  case (Cons x ins)
  show ?case
  proof (cases "k \<in> ti_previous_output ` set ins")
    case True
    from Cons.IH [OF assms(1) this, of "Suc i" "apply_batch (input_ops B t m i x) st"] obtain j where
      "j < length ins" "ti_previous_output (ins ! j) = k"
      "spends_cf (apply_batch (add_inputs B t m i (x # ins) []) st) k = Stored (t, word_of_nat (i + Suc j))"
      by (auto simp: add_inputs_Cons simp del: add_inputs.simps(2))
    then show ?thesis by (intro exI [of _ "Suc j"]) simp
  next
    case False
    with Cons.prems show ?thesis
      by (intro exI [of _ 0])
        (auto simp: add_inputs_Cons input_ops_spends add_inputs_other_spends simp del: add_inputs.simps(2))
  qed
qed simp

lemma tx_ops_spends_eq:
  "spends_cf (apply_batch (tx_ops B m tx) st) =
     spends_cf (apply_batch (add_inputs B (compute_txid B tx) m 0 (tx_input tx) [])
       (apply_op (PutTx (compute_txid B tx) (tx_md B tx)) st))"
proof -
  have "\<forall>op \<in> set (add_outputs (compute_txid B tx) 0 (tx_output tx) []). \<not> is_PutSpend op"
    by (auto simp: is_PutSpend_def dest: add_outputs_ops)
  then show ?thesis by (simp add: tx_ops_def frame_batch)
qed

lemma all_tx_ops_other_spends:
  "\<not> m \<or> (\<forall>tx \<in> set txs. k \<notin> ti_previous_output ` set (tx_input tx)) \<Longrightarrow>
     spends_cf (apply_batch (concat (map (tx_ops B m) txs)) st) k = spends_cf st k"
  by (induction txs arbitrary: st) (auto simp: tx_ops_spends_eq add_inputs_other_spends)

lemma all_tx_ops_spends:
  assumes "m" "tx \<in> set txs" "k \<in> ti_previous_output ` set (tx_input tx)"
  shows "\<exists>tx \<in> set txs. \<exists>j < length (tx_input tx). ti_previous_output (tx_input tx ! j) = k
    \<and> spends_cf (apply_batch (concat (map (tx_ops B m) txs)) st) k = Stored (compute_txid B tx, word_of_nat j)"
  using assms(2,3)
proof (induction txs arbitrary: st tx)
  case (Cons a txs)
  show ?case
  proof (cases "\<exists>tx \<in> set txs. k \<in> ti_previous_output ` set (tx_input tx)")
    case True
    with Cons.IH [of _ "apply_batch (tx_ops B m a) st"] show ?thesis by auto
  next
    case False
    then have "k \<in> ti_previous_output ` set (tx_input a)" using Cons.prems by auto
    from add_inputs_spends [OF assms(1) this, of B "compute_txid B a" 0
        "apply_op (PutTx (compute_txid B a) (tx_md B a)) st"] False
    show ?thesis by (auto simp: all_tx_ops_other_spends tx_ops_spends_eq)
  qed
qed simp

text \<open>A batch never touches the accounting tables.\<close>

lemma apply_batch_accounting [simp]:
  "accounting_store.truncate (apply_batch ops st) = accounting_store.truncate st"
proof -
  have "accounting_store.truncate (apply_op op s) = accounting_store.truncate s" for op s
    by (cases op) (simp_all add: accounting_store.defs)
  then show ?thesis by (intro frame_fold)
qed

lemma collect_read_parts:
  assumes "\<And>i. i < length xs \<Longrightarrow> f i = Stored (xs ! i)"
  shows "collect (\<lambda>i. read_part (f i)) [0..<length xs] = Ok xs"
  unfolding collect_Ok_iff using assms by (simp add: list_all2_conv_all_nth read_part_def)

lemma get_tx_written:
  assumes "tx_written B st tx" "tx_fits tx"
  shows "get_tx st (compute_txid B tx) = Ok (stored_tx B tx)"
proof -
  have ins: "collect (\<lambda>i. read_part (inputs_cf st (compute_txid B tx, i))) [0..<length (tx_input tx)]
      = Ok (map (wire_txin B) (tx_input tx))"
    using collect_read_parts [of "map (wire_txin B) (tx_input tx)" "\<lambda>i. inputs_cf st (compute_txid B tx, i)"]
      assms(1) by (simp add: tx_written_def)
  have outs: "collect (\<lambda>i. read_part (outputs_cf st (compute_txid B tx, i))) [0..<length (tx_output tx)]
      = Ok (tx_output tx)"
    by (rule collect_read_parts) (use assms(1) in \<open>simp add: tx_written_def\<close>)
  have md: "tm_input_count (tx_md B tx) = word_of_nat (length (tx_input tx))"
    "tm_output_count (tx_md B tx) = word_of_nat (length (tx_output tx))"
    "tm_version (tx_md B tx) = tx_version tx" "tm_lock_time (tx_md B tx) = tx_lock_time tx"
    by (simp_all add: tx_md_def add_tx_metadata_def Let_def)
  have "get_tx_metadata st (compute_txid B tx) = Ok (tx_md B tx)"
    using assms(1) by (simp add: tx_written_def get_tx_metadata_def)
  then show ?thesis
    using assms(2) ins outs
    by (simp add: get_tx_def md tx_fits_def unat_of_nat stored_tx_def)
qed

lemma flat_map_ok_all:
  assumes "\<And>x. x \<in> set xs \<Longrightarrow> f x = Ok (g x)"
  shows "flat_map_ok f xs = Ok (map g xs)"
  using assms by (induction xs) auto

lemma flat_map_ok_none:
  assumes "\<And>x. x \<in> set xs \<Longrightarrow> \<exists>e. f x = Err e"
  shows "flat_map_ok f xs = Ok []"
  using assms by (induction xs) force+

subsection \<open>Shares\<close>

definition index_ops :: "btc \<Rightarrow> share_block \<Rightarrow> u32 \<Rightarrow> work \<Rightarrow> batch" where
  "index_ops B share height chain_work =
     (let bh = block_hash B share; txids = map (compute_txid B) (sb_transactions share)
      in PutBlockTxids bh txids # map (\<lambda>t. MergeTxidBlock t bh) txids
         @ PutBitcoinTxids bh (map (compute_txid B) (sb_bitcoin_transactions share))
         # map (\<lambda>p. MergeIndex p bh) (sh_prev_share_blockhash (sb_header share) # sh_uncles (sb_header share))
         @ [MergeHeight height bh,
            PutBlockMetadata bh \<lparr>bm_expected_height = Some height, bm_chain_work = chain_work\<rparr>,
            PutBlock bh (to_storage_share_block B share)])"

lemma fold_update_block_index:
  "fold (\<lambda>u. update_block_index u h) us batch = batch @ map (\<lambda>p. MergeIndex p h) us"
  by (induction us arbitrary: batch) (simp_all add: update_block_index_def)

lemma store_add_share_eq:
  "store_add_share B share height chain_work m batch =
     batch @ concat (map (tx_ops B m) (sb_transactions share)) @ index_ops B share height chain_work"
  by (simp add: store_add_share_def add_sharechain_txs_eq index_ops_def Let_def fold_update_block_index
      update_block_index_def add_txids_to_blocks_index_def add_block_to_txids_index_def
      set_height_to_blockhash_def set_block_metadata_def comp_def)

lemma index_ops_effect:
  "block_cf (apply_batch (index_ops B share height w) st)
     = (block_cf st)(block_hash B share := Stored (to_storage_share_block B share))"
  "block_md_cf (apply_batch (index_ops B share height w) st)
     = (block_md_cf st)(block_hash B share := Stored \<lparr>bm_expected_height = Some height, bm_chain_work = w\<rparr>)"
  "block_txids_cf (apply_batch (index_ops B share height w) st)
     = (block_txids_cf st)(block_hash B share := Stored (map (compute_txid B) (sb_transactions share)))"
  "bitcoin_txids_cf (apply_batch (index_ops B share height w) st)
     = (bitcoin_txids_cf st)(block_hash B share := Stored (map (compute_txid B) (sb_bitcoin_transactions share)))"
  "height_cf (apply_batch (index_ops B share height w) st)
     = (height_cf st)(height := merge_cell (height_cf st height) (block_hash B share))"
  by (simp_all add: index_ops_def Let_def frame_batch)

lemma index_ops_merges:
  "block_index_cf (apply_batch (index_ops B share height w) st) q =
     (if q = sh_prev_share_blockhash (sb_header share) \<or> q \<in> set (sh_uncles (sb_header share))
      then merge_cell (block_index_cf st q) (block_hash B share) else block_index_cf st q)"
  "txids_blocks_cf (apply_batch (index_ops B share height w) st) t =
     (if t \<in> compute_txid B ` set (sb_transactions share)
      then merge_cell (txids_blocks_cf st t) (block_hash B share) else txids_blocks_cf st t)"
  by (simp_all add: index_ops_def Let_def frame_batch merge_index_all
      merge_txids_all [of "block_hash B share" "map (compute_txid B) _", simplified])

lemma index_ops_frame:
  "tx_cf (apply_batch (index_ops B share height w) st) = tx_cf st"
  "inputs_cf (apply_batch (index_ops B share height w) st) = inputs_cf st"
  "outputs_cf (apply_batch (index_ops B share height w) st) = outputs_cf st"
  "spends_cf (apply_batch (index_ops B share height w) st) = spends_cf st"
  "uncles_cf (apply_batch (index_ops B share height w) st) = uncles_cf st"
  "confirmed_cf (apply_batch (index_ops B share height w) st) = confirmed_cf st"
  "top_confirmed_cf (apply_batch (index_ops B share height w) st) = top_confirmed_cf st"
  "candidate_cf (apply_batch (index_ops B share height w) st) = candidate_cf st"
  "top_candidate_cf (apply_batch (index_ops B share height w) st) = top_candidate_cf st"
  by (simp_all add: index_ops_def Let_def frame_batch)

lemma all_tx_ops_kinds:
  "op \<in> set (concat (map (tx_ops B m) txs)) \<Longrightarrow> is_PutTx op \<or> is_PutInput op \<or> is_PutSpend op \<or> is_PutOutput op"
  by (induction txs) (auto dest: tx_ops_frame)

lemma all_tx_ops_frame:
  "block_cf (apply_batch (concat (map (tx_ops B m) txs)) st) = block_cf st"
  "block_md_cf (apply_batch (concat (map (tx_ops B m) txs)) st) = block_md_cf st"
  "block_txids_cf (apply_batch (concat (map (tx_ops B m) txs)) st) = block_txids_cf st"
  "bitcoin_txids_cf (apply_batch (concat (map (tx_ops B m) txs)) st) = bitcoin_txids_cf st"
  "height_cf (apply_batch (concat (map (tx_ops B m) txs)) st) = height_cf st"
  "block_index_cf (apply_batch (concat (map (tx_ops B m) txs)) st) = block_index_cf st"
  "txids_blocks_cf (apply_batch (concat (map (tx_ops B m) txs)) st) = txids_blocks_cf st"
  "uncles_cf (apply_batch (concat (map (tx_ops B m) txs)) st) = uncles_cf st"
  "confirmed_cf (apply_batch (concat (map (tx_ops B m) txs)) st) = confirmed_cf st"
  "top_confirmed_cf (apply_batch (concat (map (tx_ops B m) txs)) st) = top_confirmed_cf st"
  "candidate_cf (apply_batch (concat (map (tx_ops B m) txs)) st) = candidate_cf st"
  "top_candidate_cf (apply_batch (concat (map (tx_ops B m) txs)) st) = top_candidate_cf st"
  by - (rule frame_batch, rule ballI, drule all_tx_ops_kinds, elim disjE;
      simp add: is_PutTx_def is_PutInput_def is_PutSpend_def is_PutOutput_def; elim exE; simp; fail)+

lemmas add_share_effect =
  index_ops_effect index_ops_merges index_ops_frame all_tx_ops_frame store_add_share_eq

lemma commit_ok: "\<not> read_only st \<Longrightarrow> commit_batch ops st = (Ok (), apply_batch ops st)"
  by (simp add: commit_batch_def)

lemma merge_cell_adds:
  assumes "c \<noteq> ReadError"
  obtains hs where "merge_cell c h = Stored hs" "h \<in> set hs" "\<And>old. c = Stored old \<Longrightarrow> set hs = insert h (set old)"
proof (rule that)
  show "merge_cell c h = Stored (case c of Stored old \<Rightarrow> if h \<in> set old then old else old @ [h] | _ \<Rightarrow> [h])"
    using assms by (cases c) (simp_all add: merge_cell_def)
qed (auto split: cell.split)

text \<open>The hashes a list-valued cell stands for, and that a merge adds one to them.\<close>

definition listed :: "blockhash list cell \<Rightarrow> blockhash set" where
  "listed c = (case c of Stored hs \<Rightarrow> set hs | _ \<Rightarrow> {})"

lemma merge_cell_lists:
  "c \<noteq> ReadError \<Longrightarrow> \<exists>hs. merge_cell c h = Stored hs \<and> set hs = insert h (listed c)"
  by (cases c) (auto simp: merge_cell_def listed_def)

lemma listed_children:
  "(case get_children_blockhashes st p of Ok (Some old) \<Rightarrow> set old | _ \<Rightarrow> {}) = listed (block_index_cf st p)"
  by (simp add: get_children_blockhashes_def listed_def split: cell.split)

lemma listed_tx_blocks:
  "(case get_blockhashes_for_txid st t of Ok old \<Rightarrow> set old | _ \<Rightarrow> {}) = listed (txids_blocks_cf st t)"
  by (simp add: get_blockhashes_for_txid_def listed_def split: cell.split)

subsection \<open>The merge operator\<close>

text \<open>What the bytes under a key of a list-valued column family stand for.\<close>

definition raw_cell :: "btc \<Rightarrow> bytes option \<Rightarrow> blockhash list cell" where
  "raw_cell B raw =
     (case raw of
        None \<Rightarrow> Absent
      | Some bytes \<Rightarrow> (case deserialize (dec (c_word256s B)) bytes of Some hs \<Rightarrow> Stored hs | None \<Rightarrow> Corrupt))"

lemma deserialize_word256: "btc_ok B \<Longrightarrow> deserialize (dec (c_word256 B)) (enc (c_word256 B) h) = Some h"
  "btc_ok B \<Longrightarrow> fits B (c_word256s B) hs \<Longrightarrow> deserialize (dec (c_word256s B)) (enc (c_word256s B) hs) = Some hs"
  using round_tripsD [of "\<lambda>_. True" "enc (c_word256 B)" "dec (c_word256 B)" h "[]"]
    round_tripsD [of "fits B (c_word256s B)" "enc (c_word256s B)" "dec (c_word256s B)" hs "[]"]
  by (simp_all add: btc_ok_def deserialize_def)

definition append_missing :: "blockhash list \<Rightarrow> blockhash list \<Rightarrow> blockhash list" where
  "append_missing hashes hs = fold (\<lambda>h hs. if h \<in> set hs then hs else hs @ [h]) hashes hs"

definition cell_hashes :: "blockhash list cell \<Rightarrow> blockhash list" where
  "cell_hashes c = (case c of Stored hs \<Rightarrow> hs | _ \<Rightarrow> [])"

lemma merge_operands_hashes:
  assumes "btc_ok B"
  shows "merge_operands B (map (enc (c_word256 B)) hashes) hs = append_missing hashes hs"
  unfolding append_missing_def by (induction hashes arbitrary: hs) (simp_all add: deserialize_word256 [OF assms])

lemma fold_merge_cell_Stored:
  "fold (\<lambda>h c. merge_cell c h) hashes (Stored hs)
     = Stored (append_missing hashes hs)"
  unfolding append_missing_def by (induction hashes arbitrary: hs) (simp_all add: merge_cell_def)

lemma fold_merge_cell_empty:
  assumes "hashes \<noteq> []" "c = Absent \<or> c = Corrupt"
  shows "fold (\<lambda>h c. merge_cell c h) hashes c = fold (\<lambda>h c. merge_cell c h) hashes (Stored [])"
  using assms by (cases hashes) (auto simp: merge_cell_def)

section \<open>Properties\<close>

text \<open>
  C24: a share that has been added is read back under its hash with its header and its
  transactions, their witnesses apart; the bitcoin transactions it carried are recorded by id
  only, so they are read back as the empty list unless the store has them from elsewhere. An
  input comes back as the crate decodes its encoding, which has no place for the witness.
\<close>

theorem share_read_back:
  assumes "\<not> read_only st"
    and "txids_determine B (sb_transactions share)"
    and "\<forall>tx \<in> set (sb_transactions share). tx_fits tx"
    and "\<forall>tx \<in> set (sb_bitcoin_transactions share).
           tx_cf st (compute_txid B tx) = Absent \<and> compute_txid B tx \<notin> compute_txid B ` set (sb_transactions share)"
  shows "get_share (snd (commit_batch (store_add_share B share height chain_work confirm_txs []) st)) (block_hash B share)
    = Ok (Some \<lparr>sb_header = sb_header share, sb_transactions = map (stored_tx B) (sb_transactions share),
               sb_bitcoin_transactions = []\<rparr>)
    \<and> ((\<forall>x. wire_txin B x = x\<lparr>ti_witness := []\<rparr>) \<longrightarrow>
        map (stored_tx B) (sb_transactions share)
          = map (\<lambda>tx. tx\<lparr>tx_input := map (\<lambda>x. x\<lparr>ti_witness := []\<rparr>) (tx_input tx)\<rparr>) (sb_transactions share))"
proof -
  let ?mid = "apply_batch (concat (map (tx_ops B confirm_txs) (sb_transactions share))) st"
  let ?st = "apply_batch (index_ops B share height chain_work) ?mid"
  have "tx_written B ?mid tx" if "tx \<in> set (sb_transactions share)" for tx
    using assms(2) that by (rule all_tx_ops_written)
  then have "tx_written B ?st tx" if "tx \<in> set (sb_transactions share)" for tx
    using that by (simp add: tx_written_def index_ops_frame)
  then have own: "flat_map_ok (\<lambda>tx. get_tx ?st (compute_txid B tx)) (sb_transactions share)
      = Ok (map (stored_tx B) (sb_transactions share))"
    using assms(3) by (intro flat_map_ok_all get_tx_written) auto
  have "tx_cf ?st (compute_txid B tx) = Absent" if "tx \<in> set (sb_bitcoin_transactions share)" for tx
    using assms(4) that by (simp add: index_ops_frame all_tx_ops_other)
  then have btc: "flat_map_ok (\<lambda>tx. get_tx ?st (compute_txid B tx)) (sb_bitcoin_transactions share) = Ok []"
    by (intro flat_map_ok_none) (simp add: get_tx_def get_tx_metadata_def)
  have map: "flat_map_ok f (map g xs) = flat_map_ok (\<lambda>x. f (g x)) xs" for f :: "txid \<Rightarrow> (store_error, transaction) outcome" and g :: "transaction \<Rightarrow> txid" and xs
    by (induction xs) (simp_all split: outcome.split)
  show ?thesis
    using own btc
    by (simp add: commit_ok [OF assms(1)] store_add_share_eq get_share_def index_ops_effect load_share_def
        get_txs_for_blockhash_def get_txids_for_blockhash_def map to_storage_share_block_def stored_tx_def)
qed

text \<open>
  C8: adding a share enters it into every index and disturbs nothing else. Its metadata
  and header are read back, and so are the ids of its transactions and of its bitcoin
  transactions. It is added, beside what was there, to the blocks at its height, to the
  children of its parent and of each uncle and to the blocks of each of its transactions. The
  metadata of its transactions is written, not yet validated. If its transactions are confirmed,
  every output they spend is marked as spent by an input that spends it. Entries of
  other blocks, heights, parents, transactions and outputs are as before, and so are the
  index of uncles, the candidate and confirmed chains, the tips and the accounting tables.
\<close>

theorem share_indexed:
  assumes "\<not> read_only st"
    and "\<forall>h. height_cf st h \<noteq> ReadError" "\<forall>h. block_index_cf st h \<noteq> ReadError"
    and "\<forall>t. txids_blocks_cf st t \<noteq> ReadError"
    and "st' = snd (commit_batch (store_add_share B share height chain_work confirm_txs []) st)"
    and "parents = insert (sh_prev_share_blockhash (sb_header share)) (set (sh_uncles (sb_header share)))"
    and "txids = compute_txid B ` set (sb_transactions share)"
  shows "(get_block_metadata st' (block_hash B share)
          = Ok \<lparr>bm_expected_height = Some height, bm_chain_work = chain_work\<rparr>
      \<and> get_share_header st' (block_hash B share) = Ok (Some (sb_header share))
      \<and> get_txids_for_blockhash st' (block_hash B share) BlockTxids = map (compute_txid B) (sb_transactions share)
      \<and> get_txids_for_blockhash st' (block_hash B share) BitcoinTxids
          = map (compute_txid B) (sb_bitcoin_transactions share))
    \<and> set (get_blockhashes_for_height st' height)
        = insert (block_hash B share) (set (get_blockhashes_for_height st height))
    \<and> (\<forall>p \<in> parents. \<exists>cs. get_children_blockhashes st' p = Ok (Some cs)
          \<and> set cs = insert (block_hash B share)
              (case get_children_blockhashes st p of Ok (Some old) \<Rightarrow> set old | _ \<Rightarrow> {}))
    \<and> (\<forall>t \<in> txids. \<exists>bs. get_blockhashes_for_txid st' t = Ok bs
          \<and> set bs = insert (block_hash B share)
              (case get_blockhashes_for_txid st t of Ok old \<Rightarrow> set old | _ \<Rightarrow> {}))
    \<and> (\<forall>t \<in> txids. \<exists>tx \<in> set (sb_transactions share). compute_txid B tx = t
          \<and> get_tx_metadata st' t
              = Ok \<lparr>tm_txid = t, tm_version = tx_version tx, tm_lock_time = tx_lock_time tx,
                    tm_input_count = word_of_nat (length (tx_input tx)),
                    tm_output_count = word_of_nat (length (tx_output tx)), tm_validated = False\<rparr>)
    \<and> (\<forall>t v. if confirm_txs \<and> (\<exists>tx \<in> set (sb_transactions share). (t, v) \<in> ti_previous_output ` set (tx_input tx))
          then \<exists>tx \<in> set (sb_transactions share). \<exists>i < length (tx_input tx).
                 ti_previous_output (tx_input tx ! i) = (t, v)
                 \<and> is_spent st' t v = Ok (Some (compute_txid B tx, word_of_nat i))
          else is_spent st' t v = is_spent st t v)
    \<and> (\<forall>h. h \<noteq> block_hash B share \<longrightarrow> get_block_metadata st' h = get_block_metadata st h
          \<and> get_share_header st' h = get_share_header st h
          \<and> get_txids_for_blockhash st' h = get_txids_for_blockhash st h)
    \<and> (\<forall>h. h \<noteq> height \<longrightarrow> get_blockhashes_for_height st' h = get_blockhashes_for_height st h)
    \<and> (\<forall>p. p \<notin> parents \<longrightarrow> get_children_blockhashes st' p = get_children_blockhashes st p)
    \<and> (\<forall>t. t \<notin> txids \<longrightarrow> get_blockhashes_for_txid st' t = get_blockhashes_for_txid st t
          \<and> get_tx st' t = get_tx st t)
    \<and> (get_nephews st' = get_nephews st \<and> is_already_uncle st' = is_already_uncle st
      \<and> get_top_confirmed st' = get_top_confirmed st \<and> get_confirmed_at_height st' = get_confirmed_at_height st
      \<and> get_top_candidate st' = get_top_candidate st \<and> get_candidate_at_height st' = get_candidate_at_height st
      \<and> chain_tip st' = chain_tip st \<and> tips st' = tips st \<and> genesis_blockhash st' = genesis_blockhash st
      \<and> accounting_store.truncate st' = accounting_store.truncate st)"
    (is "?own \<and> ?heights \<and> ?children \<and> ?txs \<and> ?metadata \<and> ?spends \<and> ?blocks \<and> ?other_heights
      \<and> ?other_parents \<and> ?other_txs \<and> ?chains")
proof -
  let ?mid = "apply_batch (concat (map (tx_ops B confirm_txs) (sb_transactions share))) st"
  have st': "st' = apply_batch (index_ops B share height chain_work) ?mid"
    by (simp add: assms(5) commit_ok [OF assms(1)] store_add_share_eq)
  have spent: "spends_cf st' = spends_cf ?mid" by (simp add: st' index_ops_frame)
  have own: ?own
    by (simp add: st' get_block_metadata_def get_share_header_def get_txids_for_blockhash_def add_share_effect
        to_storage_share_block_def)
  have heights: ?heights
    using assms(2) by (cases "height_cf st height")
      (auto simp: st' get_blockhashes_for_height_def add_share_effect merge_cell_def)
  have children: ?children
    unfolding listed_children
  proof
    fix p
    assume "p \<in> parents"
    moreover obtain cs where "merge_cell (block_index_cf st p) (block_hash B share) = Stored cs"
      "set cs = insert (block_hash B share) (listed (block_index_cf st p))"
      using merge_cell_lists assms(3) by blast
    ultimately show "\<exists>cs. get_children_blockhashes st' p = Ok (Some cs)
        \<and> set cs = insert (block_hash B share) (listed (block_index_cf st p))"
      by (intro exI [of _ cs]) (auto simp: st' assms(6) get_children_blockhashes_def add_share_effect)
  qed
  have txs: ?txs
    unfolding listed_tx_blocks
  proof
    fix t
    assume "t \<in> txids"
    moreover obtain bs where "merge_cell (txids_blocks_cf st t) (block_hash B share) = Stored bs"
      "set bs = insert (block_hash B share) (listed (txids_blocks_cf st t))"
      using merge_cell_lists assms(4) by blast
    ultimately show "\<exists>bs. get_blockhashes_for_txid st' t = Ok bs
        \<and> set bs = insert (block_hash B share) (listed (txids_blocks_cf st t))"
      by (intro exI [of _ bs]) (simp add: st' assms(7) get_blockhashes_for_txid_def add_share_effect)
  qed
  have metadata: ?metadata
    unfolding assms(7) using all_tx_ops_metadata [of _ B "sb_transactions share" confirm_txs st]
    by (fastforce simp: st' get_tx_metadata_def index_ops_frame tx_md_def add_tx_metadata_def Let_def)
  have spends: ?spends
    using all_tx_ops_spends [of confirm_txs _ "sb_transactions share" _ B st]
      all_tx_ops_other_spends [of confirm_txs "sb_transactions share" _ B st]
    by (fastforce simp: is_spent_def spent)
  have others: ?blocks ?other_heights ?other_parents
    by (simp_all add: st' get_block_metadata_def get_share_header_def get_blockhashes_for_height_def
        get_txids_for_blockhash_def get_children_blockhashes_def add_share_effect assms(6) fun_eq_iff
        split: txids_family.split)
  have other_txs: ?other_txs
    by (simp add: st' assms(7) get_blockhashes_for_txid_def get_tx_def get_tx_metadata_def add_share_effect
        all_tx_ops_other all_tx_ops_other_parts)
  have chains: ?chains
    by (simp add: st' add_share_effect get_nephews_def is_already_uncle_def get_top_confirmed_def
        get_top_confirmed_height_def get_confirmed_at_height_def get_top_candidate_def
        get_top_candidate_height_def get_candidate_at_height_def fun_eq_iff split: option.split)
  from own heights children txs metadata spends others other_txs chains show ?thesis by blast
qed

text \<open>
  C25: the merge operator on bytes implements the append on lists: merging the encodings of some
  block hashes into the bytes under a key yields bytes that stand for the old list followed by the
  new hashes, each hash once; missing or undecodable bytes count as the empty list. The merged
  list has to stay within the crate's size limit for vectors.
\<close>

theorem merge_operator_refines:
  assumes "btc_ok B" "hashes \<noteq> []"
    and "fits B (c_word256s B) (append_missing hashes (cell_hashes (raw_cell B raw)))"
  shows "raw_cell B (blockhash_list_merge B raw (map (enc (c_word256 B)) hashes))
    = fold (\<lambda>h c. merge_cell c h) hashes (raw_cell B raw)"
proof -
  have "raw_cell B (blockhash_list_merge B raw (map (enc (c_word256 B)) hashes))
      = fold (\<lambda>h c. merge_cell c h) hashes (Stored (cell_hashes (raw_cell B raw)))"
    using assms(1,3)
    by (cases raw; cases "deserialize (dec (c_word256s B)) (the raw)")
      (simp_all add: blockhash_list_merge_def raw_cell_def cell_hashes_def merge_operands_hashes deserialize_word256
        fold_merge_cell_Stored)
  also have "\<dots> = fold (\<lambda>h c. merge_cell c h) hashes (raw_cell B raw)"
  proof (cases "raw_cell B raw")
    case Absent
    then show ?thesis using fold_merge_cell_empty [OF assms(2), of Absent] by (simp add: cell_hashes_def)
  next
    case Corrupt
    then show ?thesis using fold_merge_cell_empty [OF assms(2), of Corrupt] by (simp add: cell_hashes_def)
  next
    case ReadError
    then show ?thesis by (simp add: raw_cell_def split: option.splits)
  qed (simp add: cell_hashes_def)
  finally show ?thesis .
qed

text \<open>
  The operator is registered as associative, so the database may first merge operands with
  each other and later merge the result into the stored list. It is not associative: a list of
  two hashes is not the encoding of one hash (a hash is decoded from exactly its own bytes), so a
  partially merged operand is dropped and both hashes are lost, where a direct merge keeps them.
\<close>

theorem partial_merge_loses_hashes:
  assumes "btc_ok B" "a \<notin> set hs" "b \<notin> set hs" "a \<noteq> b"
    and "fits B (c_word256s B) hs" "fits B (c_word256s B) (hs @ [a, b])"
    and "deserialize (dec (c_word256 B)) (enc (c_word256s B) [a, b]) = None"
    and "blockhash_list_merge B None [enc (c_word256 B) a, enc (c_word256 B) b] = Some partial"
  shows "raw_cell B (blockhash_list_merge B (Some (enc (c_word256s B) hs)) [partial]) = Stored hs
    \<and> raw_cell B (blockhash_list_merge B (Some (enc (c_word256s B) hs)) [enc (c_word256 B) a, enc (c_word256 B) b])
        = Stored (hs @ [a, b])"
  using assms by (auto simp: blockhash_list_merge_def raw_cell_def deserialize_word256)

section \<open>Instances\<close>

definition empty_store :: share_store where
  "empty_store = accounting_store.extend sample_accounting
     \<lparr>block_cf = (\<lambda>_. Absent), block_md_cf = (\<lambda>_. Absent), block_txids_cf = (\<lambda>_. Absent),
      bitcoin_txids_cf = (\<lambda>_. Absent), txids_blocks_cf = (\<lambda>_. Absent), uncles_cf = (\<lambda>_. Absent),
      inputs_cf = (\<lambda>_. Absent), outputs_cf = (\<lambda>_. Absent), tx_cf = (\<lambda>_. Absent), spends_cf = (\<lambda>_. Absent),
      block_index_cf = (\<lambda>_. Absent), height_cf = (\<lambda>_. Absent), candidate_cf = (\<lambda>_. Absent),
      confirmed_cf = (\<lambda>_. Absent), top_candidate_cf = Absent, top_confirmed_cf = Absent,
      genesis_blockhash = None, chain_tip = 0, tips = []\<rparr>"

definition sample_tx :: transaction where
  "sample_tx =
     \<lparr>tx_version = 2, tx_lock_time = 0,
      tx_input = [\<lparr>ti_previous_output = (3, 1), ti_script_sig = [], ti_sequence = 5, ti_witness = [[1]]\<rparr>],
      tx_output = [\<lparr>to_value = 9, to_script_pubkey = [7]\<rparr>]\<rparr>"

lemma empty_store_simps [simp]:
  "block_cf empty_store = (\<lambda>_. Absent)" "block_md_cf empty_store = (\<lambda>_. Absent)"
  "tx_cf empty_store = (\<lambda>_. Absent)" "block_index_cf empty_store = (\<lambda>_. Absent)"
  "height_cf empty_store = (\<lambda>_. Absent)" "txids_blocks_cf empty_store = (\<lambda>_. Absent)"
  "uncles_cf empty_store = (\<lambda>_. Absent)" "confirmed_cf empty_store = (\<lambda>_. Absent)"
  "top_confirmed_cf empty_store = Absent" "tips empty_store = []" "chain_tip empty_store = 0"
  "genesis_blockhash empty_store = None" "\<not> read_only empty_store"
  by (simp_all add: empty_store_def accounting_store.defs sample_accounting_def)

theorem share_read_back_witness:
  "get_share (snd (commit_batch (store_add_share sample_btc (sample_block\<lparr>sb_transactions := [sample_tx]\<rparr>) 4 9 True [])
      empty_store)) (block_hash sample_btc (sample_block\<lparr>sb_transactions := [sample_tx]\<rparr>))
    = Ok (Some \<lparr>sb_header = sample_share_header, sb_transactions = [stored_tx sample_btc sample_tx],
               sb_bitcoin_transactions = []\<rparr>)"
  using share_read_back [of empty_store sample_btc "sample_block\<lparr>sb_transactions := [sample_tx]\<rparr>" 4 9 True]
  by (simp add: txids_determine_def tx_fits_def sample_tx_def sample_block_def)

theorem share_indexed_witness:
  "let share = sample_block\<lparr>sb_transactions := [sample_tx]\<rparr>;
       st' = snd (commit_batch (store_add_share sample_btc share 4 9 True []) empty_store)
   in get_share_header st' (block_hash sample_btc share) = Ok (Some sample_share_header)
      \<and> is_spent st' 3 1 = Ok (Some (compute_txid sample_btc sample_tx, 0))
      \<and> (\<exists>bs. get_blockhashes_for_txid st' (compute_txid sample_btc sample_tx) = Ok bs
           \<and> set bs = {block_hash sample_btc share})"
proof -
  let ?share = "sample_block\<lparr>sb_transactions := [sample_tx]\<rparr>"
  let ?st' = "snd (commit_batch (store_add_share sample_btc ?share 4 9 True []) empty_store)"
  note indexed = share_indexed [of empty_store ?st' sample_btc ?share 4 9 True, OF _ _ _ _ refl refl refl]
  have "\<exists>tx \<in> set (sb_transactions ?share). \<exists>i < length (tx_input tx).
      ti_previous_output (tx_input tx ! i) = (3, 1)
      \<and> is_spent ?st' 3 1 = Ok (Some (compute_txid sample_btc tx, word_of_nat i))"
    using indexed [THEN conjunct2, THEN conjunct2, THEN conjunct2, THEN conjunct2, THEN conjunct2,
        THEN conjunct1, rule_format, of 3 1]
    by (simp add: sample_tx_def)
  then have "is_spent ?st' 3 1 = Ok (Some (compute_txid sample_btc sample_tx, 0))"
    by (auto simp: sample_tx_def)
  then show ?thesis
    using indexed by (simp add: sample_block_def get_blockhashes_for_txid_def Let_def)
qed

lemma short_list_fits: "length hs \<le> 3 \<Longrightarrow> fits sample_btc (c_word256s sample_btc) hs"
  by (cases hs rule: remdups_adj.cases)
    (auto simp: fits_def sample_btc_def list_codec_def word256_codec_def word_codec_def sum_list_triv Suc_le_eq
      length_concat comp_def less_Suc_eq)

theorem merge_operator_refines_witness:
  "raw_cell sample_btc (blockhash_list_merge sample_btc None (map (enc (c_word256 sample_btc)) [5, 6, 5])) = Stored [5, 6]"
  using merge_operator_refines [OF sample_btc_ok, of "[5, 6, 5]" None]
  by (simp add: raw_cell_def merge_cell_def append_missing_def cell_hashes_def short_list_fits)

theorem partial_merge_loses_hashes_witness:
  "\<exists>partial. raw_cell sample_btc
     (blockhash_list_merge sample_btc (Some (enc (c_word256s sample_btc) [7])) [partial]) = Stored [7]"
proof -
  have "deserialize (dec (c_word256 sample_btc)) (enc (c_word256s sample_btc) [5, 6]) = None"
    by (simp add: sample_btc_def word256_codec_def word_codec_def list_codec_def deserialize_def
        split: list.split)
  moreover obtain partial where
    "blockhash_list_merge sample_btc None [enc (c_word256 sample_btc) 5, enc (c_word256 sample_btc) 6] = Some partial"
    by (simp add: blockhash_list_merge_def)
  ultimately show ?thesis
    using partial_merge_loses_hashes [OF sample_btc_ok, of 5 "[7]" 6 partial] by (auto simp: short_list_fits)
qed

end
