(* ===== verification/Share_Dag.thy ===== *)
theory Share_Dag
  imports Share_Store
begin

text \<open>
  The traversals of the share DAG (\<open>store/dag_store.rs\<close> and \<open>get_descendant_blockhashes\<close>
  of \<open>store/mod.rs\<close>) and the state of the chain that the store keeps in memory
  (\<open>store/mod.rs\<close>). Each work list is a list with its front first. The walk over children that
  loads the chain may meet a block again, so it is a partial function; the walks with a visited set
  or a limit are total.
\<close>

section \<open>Walking down\<close>

text \<open>The children that fit below the limit join the result and the work list.\<close>

fun push_children :: "nat \<Rightarrow> blockhash list \<Rightarrow> blockhash list \<Rightarrow> blockhash list \<Rightarrow> blockhash list \<times> blockhash list" where
  "push_children limit [] found queue = (found, queue)"
| "push_children limit (child # children) found queue =
     (if length found < limit then push_children limit children (found @ [child]) (queue @ [child])
      else push_children limit children found queue)"

lemma push_children_measure:
  "push_children limit children found queue = (found', queue') \<Longrightarrow>
     2 * (limit - length found') + length queue' \<le> 2 * (limit - length found) + length queue"
  by (induction limit children found queue rule: push_children.induct) (auto split: if_splits)

function descendant_loop ::
  "share_store \<Rightarrow> blockhash \<Rightarrow> nat \<Rightarrow> blockhash list \<Rightarrow> blockhash list \<Rightarrow> (store_error, blockhash list) outcome" where
  "descendant_loop st stop limit [] found = Ok found"
| "descendant_loop st stop limit (current # queue) found =
     (if length found < limit then
        if current = stop then Ok found
        else and_then (get_children_blockhashes st current) (\<lambda>children.
               case children of
                 Some cs \<Rightarrow> (case push_children limit cs found queue of
                              (found', queue') \<Rightarrow> descendant_loop st stop limit queue' found')
               | None \<Rightarrow> descendant_loop st stop limit queue found)
      else Ok found)"
  by pat_completeness auto
termination
  by (relation "measure (\<lambda>(st, stop, limit, queue, found). 2 * (limit - length found) + length queue)")
    (auto dest: sym [THEN push_children_measure])

definition get_descendant_blockhashes ::
  "share_store \<Rightarrow> blockhash \<Rightarrow> blockhash \<Rightarrow> nat \<Rightarrow> (store_error, blockhash list) outcome" where
  "get_descendant_blockhashes st blockhash stop_blockhash limit =
     descendant_loop st stop_blockhash limit [blockhash] []"

definition get_blockhashes_for_locator ::
  "(share_store \<Rightarrow> blockhash \<Rightarrow> bool) \<Rightarrow> share_store \<Rightarrow> blockhash list \<Rightarrow> blockhash \<Rightarrow> nat
     \<Rightarrow> (store_error, blockhash list) outcome" where
  "get_blockhashes_for_locator key_may_exist st locator stop_blockhash limit =
     (case get_first_existing_blockhash key_may_exist st locator of
        Some start_blockhash \<Rightarrow> get_descendant_blockhashes st start_blockhash stop_blockhash limit
      | None \<Rightarrow> (case genesis_blockhash st of Some hash \<Rightarrow> Ok [hash] | None \<Rightarrow> Ok []))"

definition get_headers_for_locator ::
  "(share_store \<Rightarrow> blockhash \<Rightarrow> bool) \<Rightarrow> share_store \<Rightarrow> blockhash list \<Rightarrow> blockhash \<Rightarrow> nat
     \<Rightarrow> (store_error, share_header list) outcome" where
  "get_headers_for_locator key_may_exist st locator stop_blockhash limit =
     and_then (get_blockhashes_for_locator key_may_exist st locator stop_blockhash limit)
       (\<lambda>blockhashes. Ok (get_share_headers st blockhashes))"

text \<open>The variant with a stack, whose top is the last element.\<close>

function descend_loop ::
  "share_store \<Rightarrow> blockhash \<Rightarrow> nat \<Rightarrow> blockhash \<Rightarrow> blockhash list \<Rightarrow> blockhash list \<Rightarrow> blockhash list" where
  "descend_loop st stop limit current stack descendants =
     (if length descendants < limit \<and> current \<noteq> stop then
        (case (case get_children_blockhashes st current of
                 Ok (Some children) \<Rightarrow> push_children limit children descendants stack
               | _ \<Rightarrow> (descendants, stack)) of
           (descendants', stack') \<Rightarrow>
             if stack' = [] then descendants'
             else descend_loop st stop limit (last stack') (butlast stack') descendants')
      else descendants)"
  by pat_completeness auto
termination
proof (relation "measure (\<lambda>(st, stop, limit, current, stack, descendants).
    2 * (limit - length descendants) + length stack)", goal_cases)
  case (2 st stop limit current stack descendants descendants' stack')
  then have "2 * (limit - length descendants') + length stack' \<le> 2 * (limit - length descendants) + length stack"
    by (auto split: outcome.splits option.splits dest: sym [THEN push_children_measure])
  with 2 show ?case by (cases stack') simp_all
qed simp

definition get_descendants :: "share_store \<Rightarrow> blockhash \<Rightarrow> blockhash \<Rightarrow> nat \<Rightarrow> share_header list" where
  "get_descendants st share stop_blockhash limit =
     get_share_headers st (descend_loop st stop_blockhash limit share [] [])"

section \<open>Loading the chain\<close>

fun visit_children :: "blockhash list \<Rightarrow> blockhash list \<Rightarrow> blockhash list \<Rightarrow> blockhash list \<times> blockhash list" where
  "visit_children [] to_visit chain = (to_visit, chain)"
| "visit_children (child # children) to_visit chain =
     visit_children children
       (if child \<in> set to_visit then to_visit else to_visit @ [child])
       (if child \<in> set chain then chain else chain @ [child])"

partial_function (option) load_loop ::
  "share_store \<Rightarrow> blockhash list \<Rightarrow> blockhash list \<Rightarrow> blockhash list
     \<Rightarrow> (store_error, blockhash list \<times> blockhash list) outcome option" where
  "load_loop st to_visit chain leaves =
     (case to_visit of
        [] \<Rightarrow> Some (Ok (chain, leaves))
      | current # queue \<Rightarrow>
          (case get_children_blockhashes st current of
             Ok (Some children) \<Rightarrow>
               load_loop st (fst (visit_children children queue chain)) (snd (visit_children children queue chain)) leaves
           | Ok None \<Rightarrow> load_loop st queue chain (hs_insert current leaves)
           | Err e \<Rightarrow> Some (Err e)
           | Panic \<Rightarrow> Some Panic))"

definition load_chain ::
  "share_store \<Rightarrow> blockhash \<Rightarrow> (store_error, blockhash list \<times> blockhash list) outcome option" where
  "load_chain st genesis = load_loop st [genesis] [genesis] []"

section \<open>Walking up\<close>

definition get_parent :: "share_store \<Rightarrow> blockhash \<Rightarrow> (store_error, share_block option) outcome" where
  "get_parent st blockhash =
     and_then (get_share st blockhash) (\<lambda>found.
       case found of
         None \<Rightarrow> Ok None
       | Some share \<Rightarrow> get_share st (sh_prev_share_blockhash (sb_header share)))"

definition get_uncles :: "share_store \<Rightarrow> blockhash \<Rightarrow> (store_error, share_block list) outcome" where
  "get_uncles st blockhash =
     and_then (get_share st blockhash) (\<lambda>found.
       case found of
         None \<Rightarrow> Ok []
       | Some share \<Rightarrow> and_then (get_shares st (sh_uncles (sb_header share))) (\<lambda>uncles. Ok (map snd uncles)))"

function tip_loop ::
  "share_store \<Rightarrow> blockhash \<Rightarrow> blockhash list \<Rightarrow> blockhash list \<Rightarrow> share_block list
     \<Rightarrow> (store_error, share_block list) outcome" where
  "tip_loop st blockhash [] visited all_shares = Ok all_shares"
| "tip_loop st blockhash (hash # to_visit) visited all_shares =
     (if hash \<in> set visited then tip_loop st blockhash to_visit visited all_shares
      else and_then (get_share st hash) (\<lambda>found.
        case found of
          None \<Rightarrow> tip_loop st blockhash to_visit visited all_shares
        | Some share \<Rightarrow>
            tip_loop st blockhash
              (if hash = blockhash then to_visit
               else to_visit @ sh_prev_share_blockhash (sb_header share) # sh_uncles (sb_header share))
              (hash # visited) (all_shares @ [share])))"
  by pat_completeness auto
termination
proof (relation "inv_image (finite_psubset <*lex*> less_than)
      (\<lambda>(st, blockhash, to_visit, visited, all_shares). (UNIV - set visited, length to_visit))", goal_cases)
  case 1
  show ?case by auto
qed (auto simp: finite_psubset_def)

definition get_shares_from_tip_to_blockhash ::
  "(share_store \<Rightarrow> blockhash \<Rightarrow> bool) \<Rightarrow> share_store \<Rightarrow> blockhash \<Rightarrow> (store_error, share_block list) outcome" where
  "get_shares_from_tip_to_blockhash key_may_exist st blockhash =
     (if key_may_exist st blockhash then tip_loop st blockhash (tips st) [] []
      else Err (Message ''Blockhash not found in chain''))"

text \<open>
  The counter is a machine integer and its decrement wraps, as it does in the release build.
\<close>

function dag_loop ::
  "btc \<Rightarrow> share_store \<Rightarrow> (blockhash \<times> bool) list \<Rightarrow> blockhash list \<Rightarrow> blockhash list \<Rightarrow> u64 \<Rightarrow> blockhash list" where
  "dag_loop B st [] visited results remaining_depth = results"
| "dag_loop B st ((next, is_main_chain) # to_visit) visited results remaining_depth =
     (if next \<in> set visited then dag_loop B st to_visit visited results remaining_depth
      else case get_share_header st next of
             Ok (Some header) \<Rightarrow>
               (if is_main_chain
                then dag_loop B st
                       (to_visit
                        @ (if remaining_depth - 1 > 0 then [(sh_prev_share_blockhash header, True)] else [])
                        @ map (\<lambda>uncle. (uncle, False)) (sh_uncles header))
                       (next # visited) (results @ [header_block_hash B header]) (remaining_depth - 1)
                else dag_loop B st to_visit (next # visited) (results @ [header_block_hash B header]) remaining_depth)
           | _ \<Rightarrow> results)"
  by pat_completeness auto
termination
proof (relation "inv_image (finite_psubset <*lex*> less_than)
      (\<lambda>(B, st, to_visit, visited, results, remaining_depth). (UNIV - set visited, length to_visit))", goal_cases)
  case 1
  show ?case by auto
qed (auto simp: finite_psubset_def)

definition get_dag_for_depth :: "btc \<Rightarrow> share_store \<Rightarrow> blockhash \<Rightarrow> u64 \<Rightarrow> blockhash list" where
  "get_dag_for_depth B st start depth = dag_loop B st [(start, True)] [] [] depth"

definition COMMON_ANCESTOR_DEPTH :: u64 where "COMMON_ANCESTOR_DEPTH = 2160"

definition get_common_ancestor :: "btc \<Rightarrow> share_store \<Rightarrow> blockhash \<Rightarrow> blockhash \<Rightarrow> blockhash option" where
  "get_common_ancestor B st blockhash1 blockhash2 =
     (let chain1 = get_dag_for_depth B st blockhash1 COMMON_ANCESTOR_DEPTH;
          chain2 = get_dag_for_depth B st blockhash2 COMMON_ANCESTOR_DEPTH
      in List.find (\<lambda>blockhash. blockhash \<in> set chain1) chain2)"

section \<open>Choosing uncles\<close>

definition MAX_UNCLES_DEPTH :: u8 where "MAX_UNCLES_DEPTH = 3"

definition MAX_UNCLES :: nat where "MAX_UNCLES = 3"

text \<open>\<open>sort_by\<close> with the comparison reversed: a stable sort, the highest first.\<close>

definition sort_by_height :: "(blockhash \<times> u32) list \<Rightarrow> (blockhash \<times> u32) list" where
  "sort_by_height xs = sort_key (\<lambda>(hash, height). 2 ^ 32 - unat height) xs"

definition find_uncles :: "share_store \<Rightarrow> (store_error, blockhash list) outcome" where
  "find_uncles st =
     (case get_top_confirmed_height st of
        None \<Rightarrow> Err (Message ''No top confirmation found'')
      | Some top_confirmed_height \<Rightarrow>
          (let heights = map word_of_nat
                 [unat (saturating_sub top_confirmed_height (ucast MAX_UNCLES_DEPTH)) ..< unat top_confirmed_height];
               ancestors = List.map_filter (get_confirmed_at_height st) heights;
               children = concat (map (\<lambda>blockhash.
                 case get_children_blockhashes st blockhash of Ok (Some cs) \<Rightarrow> cs | _ \<Rightarrow> []) ancestors);
               uncles_with_height = List.map_filter (\<lambda>blockhash.
                 if \<not> is_confirmed st blockhash \<and> \<not> is_already_uncle st blockhash
                 then (case get_block_metadata st blockhash of
                         Ok m \<Rightarrow> map_option (\<lambda>height. (blockhash, height)) (bm_expected_height m)
                       | _ \<Rightarrow> None)
                 else None) children
           in Ok (map fst (take MAX_UNCLES (sort_by_height uncles_with_height)))))"

section \<open>Chain state\<close>

definition get_total_work :: "share_store \<Rightarrow> (store_error, work) outcome" where
  "get_total_work st = and_then (get_block_metadata st (chain_tip st)) (\<lambda>metadata. Ok (bm_chain_work metadata))"

definition add_tip :: "blockhash \<Rightarrow> share_store \<Rightarrow> share_store" where
  "add_tip hash st = st\<lparr>tips := hs_insert hash (tips st)\<rparr>"

definition remove_tip :: "blockhash \<Rightarrow> share_store \<Rightarrow> share_store" where
  "remove_tip hash st = st\<lparr>tips := hs_remove hash (tips st)\<rparr>"

definition set_chain_tip :: "blockhash \<Rightarrow> share_store \<Rightarrow> share_store" where
  "set_chain_tip hash st = st\<lparr>chain_tip := hash\<rparr>"

definition set_genesis_blockhash :: "blockhash \<Rightarrow> share_store \<Rightarrow> share_store" where
  "set_genesis_blockhash hash st = st\<lparr>genesis_blockhash := Some hash\<rparr>"

definition update_tips :: "blockhash list \<Rightarrow> share_store \<Rightarrow> share_store" where
  "update_tips new_tips st = st\<lparr>tips := new_tips\<rparr>"

text \<open>The memory changes at once, the batch is committed by the caller.\<close>

definition setup_genesis :: "btc \<Rightarrow> share_block \<Rightarrow> batch \<Rightarrow> share_store \<Rightarrow> batch \<times> share_store" where
  "setup_genesis B genesis batch st =
     (let blockhash = block_hash B genesis;
          genesis_work = get_work B (sb_header genesis);
          batch = store_add_share B genesis 0 genesis_work True batch;
          st = set_genesis_blockhash blockhash st;
          batch = make_confirmed st blockhash 0 batch
      in (batch, set_chain_tip blockhash (add_tip blockhash st)))"

text \<open>\<open>max_by_key\<close> of an iterator: the last of the greatest elements.\<close>

fun max_by_key :: "('a \<Rightarrow> 'k::linorder) \<Rightarrow> 'a list \<Rightarrow> 'a option" where
  "max_by_key f [] = None"
| "max_by_key f (x # xs) =
     (case max_by_key f xs of None \<Rightarrow> Some x | Some y \<Rightarrow> Some (if f y < f x then x else y))"

text \<open>
  The total work read for the closing log line is the metadata just read, so it cannot fail.
\<close>

definition init_chain_state_from_store ::
  "blockhash \<Rightarrow> share_store \<Rightarrow> ((store_error, unit) outcome \<times> share_store) option" where
  "init_chain_state_from_store genesis_hash st =
     (let st = set_genesis_blockhash genesis_hash st
      in case load_chain st genesis_hash of
           None \<Rightarrow> None
         | Some Panic \<Rightarrow> Some (Panic, st)
         | Some (Err e) \<Rightarrow> Some (Err e, st)
         | Some (Ok (chain, loaded_tips)) \<Rightarrow>
             (if chain = [] then Some (Ok (), st)
              else case collect (get_block_metadata st) loaded_tips of
                     Panic \<Rightarrow> Some (Panic, st)
                   | Err e \<Rightarrow> Some (Err e, st)
                   | Ok metadatas \<Rightarrow>
                       (case max_by_key (\<lambda>(hash, metadata). bm_chain_work metadata) (zip loaded_tips metadatas) of
                          None \<Rightarrow> Some (Panic, st)
                        | Some (best, _) \<Rightarrow> Some (Ok (), update_tips loaded_tips (set_chain_tip best st)))))"

section \<open>Lemmas: walking down\<close>

definition child_rel :: "share_store \<Rightarrow> (blockhash \<times> blockhash) set" where
  "child_rel st = {(p, c). \<exists>cs. block_index_cf st p = Stored cs \<and> c \<in> set cs}"

definition index_readable :: "share_store \<Rightarrow> bool" where
  "index_readable st \<longleftrightarrow> (\<forall>h. block_index_cf st h \<noteq> Corrupt \<and> block_index_cf st h \<noteq> ReadError)"

lemma get_children_cases [consumes 1]:
  assumes "index_readable st"
  obtains (children) cs where "get_children_blockhashes st h = Ok (Some cs)" "block_index_cf st h = Stored cs"
  | (leaf) "get_children_blockhashes st h = Ok None" "block_index_cf st h = Absent"
  using assms
  by (cases "block_index_cf st h") (auto simp: get_children_blockhashes_def index_readable_def)

lemma child_rel_iff: "block_index_cf st p = Stored cs \<Longrightarrow> (p, c) \<in> child_rel st \<longleftrightarrow> c \<in> set cs"
  by (simp add: child_rel_def)

lemma no_child: "block_index_cf st p = Absent \<Longrightarrow> (p, c) \<notin> child_rel st"
  by (simp add: child_rel_def)

subsection \<open>Loading the chain\<close>

lemma visit_children_fst: "set (fst (visit_children cs queue chain)) = set queue \<union> set cs"
  by (induction cs queue chain rule: visit_children.induct) (simp_all add: insert_absorb)

lemma visit_children_snd: "set (snd (visit_children cs queue chain)) = set chain \<union> set cs"
  by (induction cs queue chain rule: visit_children.induct) (simp_all add: insert_absorb)

lemma visit_children_distinct: "distinct chain \<Longrightarrow> distinct (snd (visit_children cs queue chain))"
  by (induction cs queue chain rule: visit_children.induct) simp_all

lemma visit_children_sets:
  assumes "visit_children cs queue chain = (queue', chain')"
  shows "set queue' = set queue \<union> set cs" "set chain' = set chain \<union> set cs"
    "distinct chain \<Longrightarrow> distinct chain'"
  using visit_children_fst [of cs queue chain] visit_children_snd [of cs queue chain]
    visit_children_distinct [of chain cs queue] assms by simp_all

lemma visit_children_added:
  "\<exists>K. mset (fst (visit_children cs queue chain)) = mset queue + K \<and> set_mset K \<subseteq> set cs"
proof (induction cs queue chain rule: visit_children.induct)
  case (2 child children to_visit chain)
  then obtain K where
    "mset (fst (visit_children (child # children) to_visit chain))
       = mset (if child \<in> set to_visit then to_visit else to_visit @ [child]) + K" "set_mset K \<subseteq> set children"
    by (simp only: visit_children.simps) blast
  then show ?case
    by (intro exI [of _ "(if child \<in> set to_visit then {#} else {#child#}) + K"]) auto
qed simp

text \<open>What holds at every turn of the loop that loads the chain.\<close>

definition load_done :: "share_store \<Rightarrow> blockhash list \<Rightarrow> blockhash list \<Rightarrow> blockhash \<Rightarrow> bool" where
  "load_done st chain leaves h \<longleftrightarrow>
     (block_index_cf st h = Absent \<longrightarrow> h \<in> set leaves) \<and> (\<forall>c. (h, c) \<in> child_rel st \<longrightarrow> c \<in> set chain)"

definition load_inv :: "share_store \<Rightarrow> blockhash \<Rightarrow> blockhash list \<Rightarrow> blockhash list \<Rightarrow> blockhash list \<Rightarrow> bool" where
  "load_inv st g queue chain leaves \<longleftrightarrow>
     g \<in> set chain \<and> set queue \<subseteq> set chain \<and> set chain \<subseteq> (child_rel st)\<^sup>* `` {g} \<and> distinct chain \<and> distinct leaves
     \<and> (\<forall>h \<in> set leaves. h \<in> set chain \<and> block_index_cf st h = Absent)
     \<and> (\<forall>h \<in> set chain - set queue. load_done st chain leaves h)"

lemma load_done_mono:
  "load_done st chain leaves h \<Longrightarrow> set chain \<subseteq> set chain' \<Longrightarrow> set leaves \<subseteq> set leaves' \<Longrightarrow> load_done st chain' leaves' h"
  unfolding load_done_def by blast

lemma load_inv_leaf:
  assumes inv: "load_inv st g (current # queue) chain leaves" and leaf: "block_index_cf st current = Absent"
  shows "load_inv st g queue chain (hs_insert current leaves)"
proof -
  have cur: "load_done st chain (hs_insert current leaves) current"
    using no_child [OF leaf] by (simp add: load_done_def)
  have "load_done st chain (hs_insert current leaves) h" if "h \<in> set chain - set queue" for h
  proof (cases "h = current")
    case False
    with that inv have "load_done st chain leaves h" by (simp add: load_inv_def)
    then show ?thesis by (rule load_done_mono) auto
  qed (use cur in simp)
  with inv leaf show ?thesis by (simp add: load_inv_def)
qed

lemma load_inv_children:
  assumes inv: "load_inv st g (current # queue) chain leaves" and cs: "block_index_cf st current = Stored cs"
    and visit: "visit_children cs queue chain = (queue', chain')"
  shows "load_inv st g queue' chain' leaves"
proof -
  note sets = visit_children_sets [OF visit]
  have "(g, current) \<in> (child_rel st)\<^sup>*" using inv by (auto simp: load_inv_def)
  then have reach: "set cs \<subseteq> (child_rel st)\<^sup>* `` {g}"
    using child_rel_iff [OF cs] by (auto intro: rtrancl_into_rtrancl)
  have cur: "load_done st chain' leaves current"
    using cs sets(2) by (simp add: load_done_def child_rel_iff)
  have "load_done st chain' leaves h" if "h \<in> set chain' - set queue'" for h
  proof (cases "h = current")
    case False
    with that inv sets have "load_done st chain leaves h" by (auto simp: load_inv_def)
    then show ?thesis by (rule load_done_mono) (use sets in auto)
  qed (use cur in simp)
  moreover have "set queue' \<subseteq> set chain'" "set chain' \<subseteq> (child_rel st)\<^sup>* `` {g}"
    using inv sets reach by (auto simp: load_inv_def)
  moreover have "distinct chain'" "g \<in> set chain'" "\<forall>h \<in> set leaves. h \<in> set chain' \<and> block_index_cf st h = Absent"
    "distinct leaves"
    using inv sets by (auto simp: load_inv_def)
  ultimately show ?thesis unfolding load_inv_def by blast
qed

lemma load_loop_returns:
  assumes "acyclic (child_rel st)" "index_readable st" "load_inv st g queue chain leaves"
  shows "\<exists>chain' leaves'. load_loop st queue chain leaves = Some (Ok (chain', leaves')) \<and> load_inv st g [] chain' leaves'"
proof -
  have "wf ((child_rel st)\<inverse>)" using assms(1) by (intro finite_acyclic_wf_converse) simp_all
  then have "wf (mult ((child_rel st)\<inverse>))" by (rule wf_mult)
  then show ?thesis
    using assms(3)
  proof (induction "mset queue" arbitrary: queue chain leaves rule: wf_induct_rule)
    case less
    show ?case
    proof (cases queue)
      case Nil
      with less.prems show ?thesis by (subst load_loop.simps) auto
    next
      case (Cons current rest)
      from assms(2) show ?thesis
      proof (cases rule: get_children_cases [where h = current])
        case (children cs)
        obtain queue' chain' where visit: "visit_children cs rest chain = (queue', chain')" by fastforce
        obtain K where K: "mset queue' = mset rest + K" "set_mset K \<subseteq> set cs"
          using visit_children_added [of cs rest chain] visit by auto
        have "(mset rest + K, mset rest + {#current#}) \<in> mult ((child_rel st)\<inverse>)"
          using K(2) children(2) by (intro one_step_implies_mult) (auto simp: child_rel_def)
        then have "(mset queue', mset queue) \<in> mult ((child_rel st)\<inverse>)" using K(1) Cons by simp
        from less.hyps [OF this] load_inv_children [OF less.prems [unfolded Cons] children(2) visit]
        show ?thesis by (subst load_loop.simps) (simp add: Cons children(1) visit)
      next
        case leaf
        have "(mset rest, mset queue) \<in> mult ((child_rel st)\<inverse>)"
          using one_step_implies_mult [of "{#current#}" "{#}" _ "mset rest"] Cons by simp
        from less.hyps [OF this] load_inv_leaf [OF less.prems [unfolded Cons] leaf(2)]
        show ?thesis by (subst load_loop.simps) (simp add: Cons leaf(1))
      qed
    qed
  qed
qed

lemma load_inv_final:
  assumes "load_inv st g [] chain leaves"
  shows "set chain = (child_rel st)\<^sup>* `` {g}" "set leaves = {h \<in> set chain. block_index_cf st h = Absent}"
proof -
  have finished: "load_done st chain leaves h" if "h \<in> set chain" for h
    using assms that by (simp add: load_inv_def)
  have "h \<in> set chain" if "(g, h) \<in> (child_rel st)\<^sup>*" for h
    using that
  proof (induction rule: rtrancl_induct)
    case base
    show ?case using assms by (simp add: load_inv_def)
  next
    case (step y z)
    from finished [OF step.IH] step.hyps(2) show ?case unfolding load_done_def by blast
  qed
  then show "set chain = (child_rel st)\<^sup>* `` {g}" using assms unfolding load_inv_def by blast
  show "set leaves = {h \<in> set chain. block_index_cf st h = Absent}"
    using assms finished unfolding load_inv_def load_done_def by blast
qed

lemma load_chain_result:
  assumes "acyclic (child_rel st)" "index_readable st"
  obtains chain leaves where "load_chain st g = Some (Ok (chain, leaves))"
    "distinct chain" "distinct leaves" "set chain = (child_rel st)\<^sup>* `` {g}"
    "set leaves = {h \<in> set chain. block_index_cf st h = Absent}"
proof -
  have "load_inv st g [g] [g] []" by (simp add: load_inv_def)
  from load_loop_returns [OF assms this] obtain chain leaves where
    "load_chain st g = Some (Ok (chain, leaves))" and inv: "load_inv st g [] chain leaves"
    by (auto simp: load_chain_def)
  with load_inv_final [OF inv] that show thesis by (simp add: load_inv_def)
qed

subsection \<open>Descendants\<close>

lemma push_children_eq:
  "push_children limit cs found queue =
     (found @ take (limit - length found) cs, queue @ take (limit - length found) cs)"
proof (induction limit cs found queue rule: push_children.induct)
  case (2 limit child children found queue)
  show ?case
  proof (cases "length found < limit")
    case True
    then have "limit - length found = Suc (limit - Suc (length found))" by simp
    with 2(1) [OF True] True show ?thesis by simp
  qed (use 2(2) in simp)
qed simp

text \<open>Every block found but those still queued has had its children looked up.\<close>

definition desc_inv :: "share_store \<Rightarrow> blockhash \<Rightarrow> nat \<Rightarrow> blockhash list \<Rightarrow> blockhash list \<Rightarrow> bool" where
  "desc_inv st start limit queue found \<longleftrightarrow>
     set queue \<subseteq> insert start (set found) \<and> set found \<subseteq> (child_rel st)\<^sup>+ `` {start} \<and> length found \<le> limit
     \<and> (length found < limit \<longrightarrow>
          (\<forall>h \<in> insert start (set found) - set queue. child_rel st `` {h} \<subseteq> set found))"

definition desc_result :: "share_store \<Rightarrow> blockhash \<Rightarrow> blockhash \<Rightarrow> nat \<Rightarrow> blockhash list \<Rightarrow> bool" where
  "desc_result st start stop limit found \<longleftrightarrow>
     set found \<subseteq> (child_rel st)\<^sup>+ `` {start} \<and> length found \<le> limit
     \<and> (length found < limit \<and> (start, stop) \<notin> (child_rel st)\<^sup>* \<longrightarrow> set found = (child_rel st)\<^sup>+ `` {start})"

lemma desc_inv_queue: "desc_inv st start limit queue found \<Longrightarrow> h \<in> set queue \<Longrightarrow> (start, h) \<in> (child_rel st)\<^sup>*"
  unfolding desc_inv_def by (auto dest!: subsetD intro: trancl_into_rtrancl)

lemma desc_inv_final:
  assumes "desc_inv st start limit [] found"
  shows "desc_result st start stop limit found"
proof -
  have "h \<in> set found" if "length found < limit" "(start, h) \<in> (child_rel st)\<^sup>+" for h
    using that(2)
  proof (induction rule: trancl_induct)
    case (base y)
    with that(1) assms show ?case unfolding desc_inv_def by auto
  next
    case (step y z)
    with that(1) assms show ?case unfolding desc_inv_def by auto
  qed
  then show ?thesis using assms unfolding desc_inv_def desc_result_def by blast
qed

lemma desc_inv_leaf:
  assumes "desc_inv st start limit (current # queue) found" "block_index_cf st current = Absent"
  shows "desc_inv st start limit queue found"
proof -
  have "child_rel st `` {current} = {}" using no_child [OF assms(2)] by blast
  with assms(1) show ?thesis unfolding desc_inv_def by auto
qed

lemma desc_inv_children:
  assumes inv: "desc_inv st start limit (current # queue) found" and cs: "block_index_cf st current = Stored cs"
    and new: "new = take (limit - length found) cs"
  shows "desc_inv st start limit (queue @ new) (found @ new)"
proof -
  have rel: "child_rel st `` {current} = set cs" using child_rel_iff [OF cs] by blast
  have cur: "(start, current) \<in> (child_rel st)\<^sup>*" using desc_inv_queue [OF inv] by simp
  have "set new \<subseteq> set cs" by (simp add: new set_take_subset)
  then have reach: "set new \<subseteq> (child_rel st)\<^sup>+ `` {start}"
    using cur rel by (auto intro: rtrancl_into_trancl1)
  have "length found \<le> limit" using inv by (simp add: desc_inv_def)
  then have len: "length (found @ new) \<le> limit" by (simp add: new)
  have "child_rel st `` {h} \<subseteq> set (found @ new)"
    if short: "length (found @ new) < limit" and h: "h \<in> insert start (set (found @ new)) - set (queue @ new)" for h
  proof (cases "h = current")
    case True
    have "new = cs" using short by (simp add: new)
    with True rel show ?thesis by simp
  next
    case False
    have "length found < limit" using short by simp
    moreover have "h \<in> insert start (set found) - set (current # queue)" using h False by auto
    ultimately have "child_rel st `` {h} \<subseteq> set found" using inv unfolding desc_inv_def by blast
    then show ?thesis by auto
  qed
  with reach len inv show ?thesis unfolding desc_inv_def by auto
qed

lemma descendant_loop_result:
  assumes "index_readable st" "desc_inv st start limit queue found"
  shows "\<exists>res. descendant_loop st stop limit queue found = Ok res \<and> desc_result st start stop limit res"
  using assms
proof (induction st stop limit queue found rule: descendant_loop.induct)
  case (1 st stop limit found)
  then show ?case by (simp add: desc_inv_final)
next
  case (2 st stop limit current queue found)
  note inv = 2(4)
  show ?case
  proof (cases "length found < limit \<and> current \<noteq> stop")
    case False
    then have "desc_result st start stop limit found"
      using inv desc_inv_queue [OF inv, of current] unfolding desc_inv_def desc_result_def by auto
    with False show ?thesis by auto
  next
    case True
    from 2(3) show ?thesis
    proof (cases rule: get_children_cases [where h = current])
      case (children cs)
      from True 2(2) [OF _ _ children(1) refl push_children_eq [symmetric] 2(3)] desc_inv_children [OF inv children(2) refl]
      show ?thesis by (simp add: children(1) push_children_eq)
    next
      case leaf
      from True 2(1) [OF _ _ leaf(1) refl 2(3)] desc_inv_leaf [OF inv leaf(2)]
      show ?thesis by (simp add: leaf(1))
    qed
  qed
qed

section \<open>Lemmas: walking up\<close>

text \<open>The first ancestors of a block, itself included, as far as their headers are stored.\<close>

fun ancestors :: "share_store \<Rightarrow> nat \<Rightarrow> blockhash \<Rightarrow> blockhash list" where
  "ancestors st 0 h = []"
| "ancestors st (Suc n) h =
     (case get_share_header st h of
        Ok (Some header) \<Rightarrow> h # ancestors st n (sh_prev_share_blockhash header)
      | _ \<Rightarrow> [])"

definition uncles_of :: "share_store \<Rightarrow> blockhash \<Rightarrow> blockhash list" where
  "uncles_of st h = (case get_share_header st h of Ok (Some header) \<Rightarrow> sh_uncles header | _ \<Rightarrow> [])"

text \<open>Every stored block is stored under its own hash.\<close>

definition store_consistent :: "btc \<Rightarrow> share_store \<Rightarrow> bool" where
  "store_consistent B st \<longleftrightarrow> (\<forall>h b. block_cf st h = Stored b \<longrightarrow> header_block_hash B (ssb_header b) = h)"

lemma header_hash:
  "store_consistent B st \<Longrightarrow> get_share_header st h = Ok (Some header) \<Longrightarrow> header_block_hash B header = h"
  by (auto simp: store_consistent_def get_share_header_def split: cell.splits)

definition dag_inv :: "share_store \<Rightarrow> blockhash set \<Rightarrow> (blockhash \<times> bool) list \<Rightarrow> u64 \<Rightarrow> bool" where
  "dag_inv st A queue remaining \<longleftrightarrow>
     length (filter snd queue) \<le> 1
     \<and> (\<forall>h. (h, True) \<in> set queue \<longrightarrow> 0 < remaining \<and> set (ancestors st (unat remaining) h) \<subseteq> A)
     \<and> (\<forall>h. (h, False) \<in> set queue \<longrightarrow> h \<in> (\<Union>a \<in> A. set (uncles_of st a)))"

lemma dag_inv_tail: "dag_inv st A (q # queue) remaining \<Longrightarrow> dag_inv st A queue remaining"
  by (auto simp: dag_inv_def split: if_splits)

lemma unat_pred: "0 < (w :: u64) \<Longrightarrow> unat w = Suc (unat (w - 1))"
  by (metis Suc_pred' unat_gt_0 unat_minus_one word_greater_zero_iff)

lemma dag_inv_main:
  assumes inv: "dag_inv st A ((h, True) # queue) remaining" and header: "get_share_header st h = Ok (Some header)"
  shows "h \<in> A"
    and "dag_inv st A
      (queue @ (if remaining - 1 > 0 then [(sh_prev_share_blockhash header, True)] else [])
       @ map (\<lambda>uncle. (uncle, False)) (sh_uncles header)) (remaining - 1)"
proof -
  have "0 < remaining" and sub: "set (ancestors st (unat remaining) h) \<subseteq> A"
    using inv by (auto simp: dag_inv_def)
  note suc = unat_pred [OF this(1)]
  show "h \<in> A" using sub header by (simp add: suc)
  have next_sub: "set (ancestors st (unat (remaining - 1)) (sh_prev_share_blockhash header)) \<subseteq> A"
    using sub header by (simp add: suc)
  have none: "filter snd queue = []" using inv by (auto simp: dag_inv_def)
  then have "(g, True) \<notin> set queue" for g by (auto simp: filter_empty_conv)
  moreover have "set (sh_uncles header) \<subseteq> (\<Union>a \<in> A. set (uncles_of st a))"
    using \<open>h \<in> A\<close> header by (force simp: uncles_of_def)
  moreover have "\<forall>g. (g, False) \<in> set queue \<longrightarrow> g \<in> (\<Union>a \<in> A. set (uncles_of st a))"
    using inv by (auto simp: dag_inv_def)
  ultimately show "dag_inv st A
      (queue @ (if remaining - 1 > 0 then [(sh_prev_share_blockhash header, True)] else [])
       @ map (\<lambda>uncle. (uncle, False)) (sh_uncles header)) (remaining - 1)"
    using next_sub none by (auto simp: dag_inv_def filter_map comp_def)
qed

lemma dag_loop_sound:
  assumes "store_consistent B st" "dag_inv st A queue remaining" "distinct results" "set results \<subseteq> set visited"
    "set results \<subseteq> A \<union> (\<Union>a \<in> A. set (uncles_of st a))"
  shows "distinct (dag_loop B st queue visited results remaining)
    \<and> set (dag_loop B st queue visited results remaining) \<subseteq> A \<union> (\<Union>a \<in> A. set (uncles_of st a))"
  using assms
proof (induction B st queue visited results remaining rule: dag_loop.induct)
  case (2 B st h main queue visited results remaining)
  note prems = 2(4-8)
  consider "h \<in> set visited" | "h \<notin> set visited" "\<nexists>header. get_share_header st h = Ok (Some header)"
    | header where "h \<notin> set visited" "get_share_header st h = Ok (Some header)" by blast
  then show ?case
  proof cases
    case 1
    with 2(1) dag_inv_tail [OF prems(2)] prems show ?thesis by simp
  next
    case 2
    then have "dag_loop B st ((h, main) # queue) visited results remaining = results"
      by (simp split: outcome.split option.split)
    with prems show ?thesis by simp
  next
    case (3 header)
    note hash = header_hash [OF prems(1) 3(2)]
    have new: "h \<notin> set results" using 3(1) prems(4) by blast
    show ?thesis
    proof (cases main)
      case True
      then have main: "main = True" by simp
      note m = dag_inv_main [OF prems(2) [unfolded main] 3(2)]
      have "set (results @ [h]) \<subseteq> A \<union> (\<Union>a \<in> A. set (uncles_of st a))" using prems(5) m(1) by auto
      with 2(2) [OF 3(1) 3(2) refl True prems(1), unfolded hash] m(2) True 3 prems(3,4) new hash
      show ?thesis by (simp add: subset_insertI2)
    next
      case False
      then have "h \<in> (\<Union>a \<in> A. set (uncles_of st a))" using prems(2) by (auto simp: dag_inv_def)
      then have "set (results @ [h]) \<subseteq> A \<union> (\<Union>a \<in> A. set (uncles_of st a))" using prems(5) by auto
      with 2(3) [OF 3(1) 3(2) refl False prems(1), unfolded hash] dag_inv_tail [OF prems(2)] False 3 prems(3,4) new hash
      show ?thesis by (simp add: subset_insertI2)
    qed
  qed
qed simp

text \<open>What the walk lists: uncles that are waiting are all taken, in order, and then the main chain goes on.\<close>

abbreviation (input) uncle_entries :: "blockhash list \<Rightarrow> (blockhash \<times> bool) list" where
  "uncle_entries us \<equiv> map (\<lambda>u. (u, False)) us"

abbreviation (input) has_header :: "share_store \<Rightarrow> blockhash \<Rightarrow> bool" where
  "has_header st h \<equiv> \<exists>header. get_share_header st h = Ok (Some header)"

lemma dag_loop_uncles:
  assumes "store_consistent B st" "\<forall>u \<in> set us. has_header st u \<and> u \<notin> A" "set visited = set results"
  shows "\<exists>visited' results'. dag_loop B st (uncle_entries us @ queue) visited results d
      = dag_loop B st queue visited' results' d
    \<and> set results' = set results \<union> set us \<and> set visited' = set results'
    \<and> filter (\<lambda>h. h \<in> A) results' = filter (\<lambda>h. h \<in> A) results"
  using assms(2,3)
proof (induction us arbitrary: visited results)
  case (Cons u us)
  show ?case
  proof (cases "u \<in> set visited")
    case True
    with Cons.IH [of visited results] Cons.prems show ?thesis by (auto simp: insert_absorb)
  next
    case False
    obtain header where header: "get_share_header st u = Ok (Some header)" using Cons.prems by auto
    with False Cons.IH [of "u # visited" "results @ [u]"] Cons.prems header_hash [OF assms(1) header]
    show ?thesis by simp
  qed
qed auto

lemma dag_loop_complete:
  assumes "store_consistent B st" "0 < d" "set visited = set results"
    and "\<forall>u \<in> set us \<union> set vs. has_header st u \<and> u \<notin> A"
    and "distinct (ancestors st (unat d) h)" "set (ancestors st (unat d) h) \<subseteq> A"
    and "set (ancestors st (unat d) h) \<inter> set results = {}"
    and "\<forall>a \<in> set (ancestors st (unat d) h). \<forall>u \<in> set (uncles_of st a). has_header st u \<and> u \<notin> A"
    and "ancestors st (unat d) h = [] \<longrightarrow> vs = []"
    and "length (ancestors st (unat d) h) = unat d \<or> ancestors st (unat d) h = []
      \<or> uncles_of st (last (ancestors st (unat d) h)) = []"
  shows "set (dag_loop B st (uncle_entries us @ (h, True) # uncle_entries vs) visited results d)
      = set results \<union> set us \<union> set vs \<union> set (ancestors st (unat d) h)
        \<union> (\<Union>a \<in> set (ancestors st (unat d) h). set (uncles_of st a))
    \<and> filter (\<lambda>h. h \<in> A) (dag_loop B st (uncle_entries us @ (h, True) # uncle_entries vs) visited results d)
      = filter (\<lambda>h. h \<in> A) results @ ancestors st (unat d) h"
  using assms(2-)
proof (induction "unat d" arbitrary: d h us vs visited results)
  case 0
  with unat_pred [OF 0(2)] show ?case by simp
next
  case (Suc n)
  note pred = unat_pred [OF Suc.prems(1)]
  obtain visited' results' where skip: "dag_loop B st (uncle_entries us @ (h, True) # uncle_entries vs) visited results d
      = dag_loop B st ((h, True) # uncle_entries vs) visited' results' d"
    and sets: "set results' = set results \<union> set us" "set visited' = set results'"
    and main: "filter (\<lambda>h. h \<in> A) results' = filter (\<lambda>h. h \<in> A) results"
    using dag_loop_uncles [OF assms(1), of us A visited results "(h, True) # uncle_entries vs" d] Suc.prems(2,3)
    by auto
  show ?case
  proof (cases "has_header st h")
    case False
    then have none: "ancestors st (unat d) h = []" "vs = []"
      using Suc.prems(8) by (simp_all add: pred split: outcome.splits option.splits)
    with False have "dag_loop B st ((h, True) # uncle_entries vs) visited' results' d = results'"
      using Suc.prems(3) by (auto split: outcome.split option.split)
    with none sets main show ?thesis unfolding skip by simp
  next
    case True
    then obtain header where header: "get_share_header st h = Ok (Some header)" by blast
    let ?p = "sh_prev_share_blockhash header"
    have anc: "ancestors st (unat d) h = h # ancestors st (unat (d - 1)) ?p"
      using header by (simp add: pred)
    have uncles: "uncles_of st h = sh_uncles header" using header by (simp add: uncles_of_def)
    have new: "h \<notin> set visited'" "h \<in> A" using Suc.prems(3,5,6) anc sets by auto
    have step: "dag_loop B st ((h, True) # uncle_entries vs) visited' results' d
        = dag_loop B st (uncle_entries vs @ (if d - 1 > 0 then [(?p, True)] else []) @ uncle_entries (sh_uncles header))
            (h # visited') (results' @ [h]) (d - 1)"
      using header new header_hash [OF assms(1) header] by simp
    have stored: "\<forall>u \<in> set vs \<union> set (sh_uncles header). has_header st u \<and> u \<notin> A"
      using Suc.prems(3,7) anc uncles by auto
    show ?thesis
    proof (cases "0 < d - 1")
      case more: True
      have "unat d \<noteq> 1" using more pred by (auto simp: unat_gt_0)
      then have last: "ancestors st (unat (d - 1)) ?p = [] \<longrightarrow> sh_uncles header = []"
        using Suc.prems(9) anc uncles by auto
      have "set (dag_loop B st (uncle_entries vs @ (?p, True) # uncle_entries (sh_uncles header))
            (h # visited') (results' @ [h]) (d - 1))
          = set (results' @ [h]) \<union> set vs \<union> set (sh_uncles header) \<union> set (ancestors st (unat (d - 1)) ?p)
            \<union> (\<Union>a \<in> set (ancestors st (unat (d - 1)) ?p). set (uncles_of st a))
        \<and> filter (\<lambda>h. h \<in> A) (dag_loop B st (uncle_entries vs @ (?p, True) # uncle_entries (sh_uncles header))
            (h # visited') (results' @ [h]) (d - 1))
          = filter (\<lambda>h. h \<in> A) (results' @ [h]) @ ancestors st (unat (d - 1)) ?p"
      proof (rule Suc.hyps(1))
        show "n = unat (d - 1)" using Suc.hyps(2) pred by simp
        show "set (ancestors st (unat (d - 1)) ?p) \<inter> set (results' @ [h]) = {}"
          using Suc.prems(3-6) anc sets by auto
        show "length (ancestors st (unat (d - 1)) ?p) = unat (d - 1) \<or> ancestors st (unat (d - 1)) ?p = []
            \<or> uncles_of st (last (ancestors st (unat (d - 1)) ?p)) = []"
          using Suc.prems(9) anc pred by (auto split: if_splits)
      qed (use more sets stored Suc.prems(4,5,7) anc last in auto)
      with more new main sets anc uncles show ?thesis unfolding skip step by auto
    next
      case False
      then have "d - 1 = 0" by (simp add: word_neq_0_conv [symmetric])
      then have one: "ancestors st (unat d) h = [h]" using anc by simp
      obtain visited'' results'' where "dag_loop B st (uncle_entries (vs @ sh_uncles header) @ []) (h # visited')
          (results' @ [h]) (d - 1) = dag_loop B st [] visited'' results'' (d - 1)"
        "set results'' = set (results' @ [h]) \<union> set (vs @ sh_uncles header)"
        "filter (\<lambda>h. h \<in> A) results'' = filter (\<lambda>h. h \<in> A) (results' @ [h])"
        using dag_loop_uncles [OF assms(1), of "vs @ sh_uncles header" A "h # visited'" "results' @ [h]" "[]" "d - 1"]
          stored sets by auto
      with False new main sets one uncles show ?thesis unfolding skip step by auto
    qed
  qed
qed

section \<open>Lemmas: uncles\<close>

text \<open>A block that may become an uncle now, with its height.\<close>

definition uncle_candidate :: "share_store \<Rightarrow> blockhash \<Rightarrow> u32 \<Rightarrow> bool" where
  "uncle_candidate st u height \<longleftrightarrow>
     (\<exists>top_height k a. get_top_confirmed_height st = Some top_height
        \<and> unat top_height - 3 \<le> unat k \<and> k < top_height
        \<and> get_confirmed_at_height st k = Some a \<and> (a, u) \<in> child_rel st)
     \<and> \<not> is_confirmed st u \<and> \<not> is_already_uncle st u
     \<and> (\<exists>m. get_block_metadata st u = Ok m \<and> bm_expected_height m = Some height)"

definition recent_children :: "share_store \<Rightarrow> u32 \<Rightarrow> blockhash list" where
  "recent_children st top_height =
     concat (map (\<lambda>blockhash. case get_children_blockhashes st blockhash of Ok (Some cs) \<Rightarrow> cs | _ \<Rightarrow> [])
       (List.map_filter (get_confirmed_at_height st)
          (map word_of_nat [unat (saturating_sub top_height (ucast MAX_UNCLES_DEPTH)) ..< unat top_height])))"

lemma children_of_child_rel:
  "c \<in> set (case get_children_blockhashes st p of Ok (Some cs) \<Rightarrow> cs | _ \<Rightarrow> []) \<longleftrightarrow> (p, c) \<in> child_rel st"
  by (auto simp: get_children_blockhashes_def child_rel_def split: cell.split)

lemma recent_heights:
  "k \<in> set (map word_of_nat [unat (saturating_sub t (ucast MAX_UNCLES_DEPTH)) ..< unat t])
     \<longleftrightarrow> unat t - 3 \<le> unat k \<and> k < t" for t k :: u32
proof -
  have "unat (ucast MAX_UNCLES_DEPTH :: u32) = 3" by (simp add: MAX_UNCLES_DEPTH_def)
  then have "k \<in> set (map word_of_nat [unat (saturating_sub t (ucast MAX_UNCLES_DEPTH)) ..< unat t])
      \<longleftrightarrow> (\<exists>i. unat t - 3 \<le> i \<and> i < unat t \<and> k = word_of_nat i)"
    by (auto simp: image_iff)
  also have "\<dots> \<longleftrightarrow> unat t - 3 \<le> unat k \<and> k < t"
  proof
    assume "\<exists>i. unat t - 3 \<le> i \<and> i < unat t \<and> k = word_of_nat i"
    then obtain i where i: "unat t - 3 \<le> i" "i < unat t" "k = word_of_nat i" by blast
    then have "unat k = i"
      using unsigned_less [of t, where ?'a = nat] by (simp add: unat_of_nat)
    with i show "unat t - 3 \<le> unat k \<and> k < t" by (simp add: word_less_nat_alt)
  next
    assume "unat t - 3 \<le> unat k \<and> k < t"
    then show "\<exists>i. unat t - 3 \<le> i \<and> i < unat t \<and> k = word_of_nat i"
      by (intro exI [of _ "unat k"]) (simp add: word_less_nat_alt)
  qed
  finally show ?thesis .
qed

lemma recent_children_iff:
  assumes "get_top_confirmed_height st = Some t"
  shows "u \<in> set (recent_children st t) \<longleftrightarrow>
    (\<exists>top_height k a. get_top_confirmed_height st = Some top_height
        \<and> unat top_height - 3 \<le> unat k \<and> k < top_height
        \<and> get_confirmed_at_height st k = Some a \<and> (a, u) \<in> child_rel st)"
proof -
  have "u \<in> set (recent_children st t) \<longleftrightarrow>
      (\<exists>a. (\<exists>k. k \<in> set (map word_of_nat [unat (saturating_sub t (ucast MAX_UNCLES_DEPTH)) ..< unat t])
              \<and> get_confirmed_at_height st k = Some a) \<and> (a, u) \<in> child_rel st)"
    by (simp only: recent_children_def set_concat set_map set_map_filter children_of_child_rel [symmetric]) blast
  then show ?thesis unfolding recent_heights using assms by auto
qed

definition uncle_entry :: "share_store \<Rightarrow> blockhash \<Rightarrow> (blockhash \<times> u32) option" where
  "uncle_entry st blockhash =
     (if \<not> is_confirmed st blockhash \<and> \<not> is_already_uncle st blockhash
      then (case get_block_metadata st blockhash of
              Ok m \<Rightarrow> map_option (\<lambda>height. (blockhash, height)) (bm_expected_height m)
            | _ \<Rightarrow> None)
      else None)"

lemma find_uncles_eq:
  "find_uncles st =
     (case get_top_confirmed_height st of
        None \<Rightarrow> Err (Message ''No top confirmation found'')
      | Some t \<Rightarrow> Ok (map fst (take 3 (sort_by_height (List.map_filter (uncle_entry st) (recent_children st t))))))"
  by (simp add: find_uncles_def recent_children_def uncle_entry_def [abs_def] MAX_UNCLES_def Let_def cong: option.case_cong)

lemma uncle_entry_iff:
  "uncle_entry st u = Some (v, height) \<longleftrightarrow> v = u \<and> \<not> is_confirmed st u \<and> \<not> is_already_uncle st u
     \<and> (\<exists>m. get_block_metadata st u = Ok m \<and> bm_expected_height m = Some height)"
  by (auto simp: uncle_entry_def split: outcome.splits)

lemma uncle_candidates:
  assumes "get_top_confirmed_height st = Some t"
  shows "(u, height) \<in> set (List.map_filter (uncle_entry st) (recent_children st t)) \<longleftrightarrow> uncle_candidate st u height"
  by (simp add: set_map_filter uncle_entry_iff uncle_candidate_def recent_children_iff [OF assms])

lemma uncle_candidate_height: "uncle_candidate st u h \<Longrightarrow> uncle_candidate st u h' \<Longrightarrow> h = h'"
  by (auto simp: uncle_candidate_def)

lemma sort_by_height_take:
  assumes "(u, hu) \<in> set (take n (sort_by_height xs))" "(v, hv) \<in> set (drop n (sort_by_height xs))"
  shows "hv \<le> hu"
proof -
  let ?key = "\<lambda>(hash, height). 2 ^ 32 - unat (height :: u32)"
  let ?ys = "sort_by_height xs"
  have "sorted (map ?key ?ys)" unfolding sort_by_height_def by (rule sorted_sort_key)
  then have "sorted (map ?key (take n ?ys) @ map ?key (drop n ?ys))"
    by (simp flip: map_append)
  then have "?key (u, hu) \<le> ?key (v, hv)"
    using assms unfolding sorted_append by (metis (no_types, lifting) image_eqI set_map)
  then show ?thesis
    using unsigned_less [of hu, where ?'a = nat] unsigned_less [of hv, where ?'a = nat]
    by (simp add: word_le_nat_alt)
qed

section \<open>Lemmas: the confirmed chain\<close>

text \<open>The confirmed entries as one list, from height zero to the top.\<close>

definition confirmed_chain :: "share_store \<Rightarrow> blockhash list" where
  "confirmed_chain st =
     (case get_top_confirmed_height st of
        None \<Rightarrow> []
      | Some t \<Rightarrow> map (\<lambda>k. the (get_confirmed_at_height st (word_of_nat k))) [0 ..< Suc (unat t)])"

definition confirmed_inv :: "share_store \<Rightarrow> bool" where
  "confirmed_inv st \<longleftrightarrow>
     (case get_top_confirmed_height st of
        None \<Rightarrow> \<forall>k. get_confirmed_at_height st k = None
      | Some t \<Rightarrow> \<forall>k. get_confirmed_at_height st k \<noteq> None \<longleftrightarrow> k \<le> t)"

lemma make_confirmed_effect:
  assumes "\<not> read_only st"
  shows "get_top_confirmed_height (snd (commit_batch (make_confirmed st b height []) st))
      = (if extends_top (get_top_confirmed_height st) height then Some height else get_top_confirmed_height st)"
    and "get_confirmed_at_height (snd (commit_batch (make_confirmed st b height []) st)) k
      = (if extends_top (get_top_confirmed_height st) height \<and> k = height then Some b
         else get_confirmed_at_height st k)"
  by (simp_all add: commit_ok [OF assms] make_confirmed_def set_top_confirmed_height_def
      get_top_confirmed_height_def get_confirmed_at_height_def)

lemma extends_top_Some: "extends_top (Some t) h \<longleftrightarrow> unat h = Suc (unat t)"
proof -
  have "saturating_sub h t = 1 \<longleftrightarrow> unat (saturating_sub h t) = unat (1 :: u32)"
    by (simp only: word_unat_eq_iff)
  then show ?thesis by (auto simp: extends_top_def)
qed

lemma confirmed_step:
  assumes inv: "confirmed_inv st" and start: "get_top_confirmed_height st = None \<Longrightarrow> height = 0"
    and top': "get_top_confirmed_height st'
        = (if extends_top (get_top_confirmed_height st) height then Some height else get_top_confirmed_height st)"
    and at': "\<And>k. get_confirmed_at_height st' k
        = (if extends_top (get_top_confirmed_height st) height \<and> k = height then Some b
           else get_confirmed_at_height st k)"
  shows "confirmed_inv st' \<and> confirmed_chain st'
    = (if unat height = length (confirmed_chain st) then confirmed_chain st @ [b] else confirmed_chain st)"
proof (cases "get_top_confirmed_height st")
  case None
  then have "height = 0" by (rule start)
  with None inv top' at' show ?thesis
    by (auto simp: confirmed_inv_def confirmed_chain_def extends_top_def word_le_nat_alt unat_gt_0)
next
  case (Some t)
  show ?thesis
  proof (cases "unat height = Suc (unat t)")
    case False
    with Some inv top' at' show ?thesis
      by (simp add: confirmed_inv_def confirmed_chain_def extends_top_Some)
  next
    case True
    have le: "k \<le> height \<longleftrightarrow> k \<le> t \<or> k = height" for k
      using True by (auto simp: word_le_nat_alt word_unat_eq_iff)
    have "confirmed_inv st'"
      using Some inv top' at' True le by (simp add: confirmed_inv_def extends_top_Some)
    moreover have same: "get_confirmed_at_height st' (word_of_nat k) = get_confirmed_at_height st (word_of_nat k)"
      if "k < Suc (unat t)" for k
    proof -
      have "unat (word_of_nat k :: u32) = k"
        using that unsigned_less [of t, where ?'a = nat] by (simp add: unat_of_nat)
      then have "word_of_nat k \<noteq> height" using that True by auto
      with at' show ?thesis by simp
    qed
    have "map (\<lambda>k. the (get_confirmed_at_height st' (word_of_nat k))) [0..<Suc (unat t)]
        = map (\<lambda>k. the (get_confirmed_at_height st (word_of_nat k))) [0..<Suc (unat t)]"
      by (rule map_cong [OF refl], subst same) (simp_all only: set_upt atLeastLessThan_iff)
    moreover have "(word_of_nat (Suc (unat t)) :: u32) = height"
      by (subst True [symmetric]) simp
    ultimately show ?thesis
      using Some top' at' True by (simp add: confirmed_chain_def extends_top_Some)
  qed
qed

section \<open>Lemmas: chain state\<close>

lemma max_by_key_Some:
  "xs \<noteq> [] \<Longrightarrow> \<exists>y \<in> set xs. max_by_key f xs = Some y \<and> (\<forall>x \<in> set xs. f x \<le> f y)"
proof (induction xs)
  case (Cons x xs)
  show ?case
  proof (cases "xs = []")
    case False
    with Cons.IH obtain y where "y \<in> set xs" "max_by_key f xs = Some y" "\<forall>x \<in> set xs. f x \<le> f y" by blast
    then show ?thesis by (cases "f y < f x") (auto simp: not_less intro: less_imp_le order_trans)
  qed simp
qed simp

lemma leaf_exists:
  assumes "acyclic (child_rel st)" "index_readable st" "\<forall>h. block_index_cf st h \<noteq> Stored []"
  shows "\<exists>h \<in> (child_rel st)\<^sup>* `` {g}. block_index_cf st h = Absent"
proof -
  have wf: "wf ((child_rel st)\<inverse>)" using assms(1) by (intro finite_acyclic_wf_converse) simp_all
  have "g \<in> (child_rel st)\<^sup>* `` {g}" by simp
  from wf [unfolded wf_eq_minimal, rule_format, OF this]
  obtain m where m: "m \<in> (child_rel st)\<^sup>* `` {g}"
    and "\<forall>c. (c, m) \<in> (child_rel st)\<inverse> \<longrightarrow> c \<notin> (child_rel st)\<^sup>* `` {g}" ..
  note min = this(2) [rule_format]
  have "block_index_cf st m = Absent"
    using assms(2)
  proof (cases rule: get_children_cases [where h = m])
    case (children cs)
    with assms(3) obtain c where "c \<in> set cs" by (cases cs) auto
    with children(2) have "(m, c) \<in> child_rel st" by (simp add: child_rel_iff)
    then have "(g, c) \<in> (child_rel st)\<^sup>*" using m by (simp add: rtrancl_into_rtrancl)
    with min \<open>(m, c) \<in> child_rel st\<close> show ?thesis by blast
  qed simp
  with m show ?thesis by blast
qed

lemma collect_total:
  assumes "\<And>x. x \<in> set xs \<Longrightarrow> f x = Ok (g x)"
  shows "collect f xs = Ok (map g xs)"
  using assms by (simp add: collect_Ok_iff list_all2_conv_all_nth)

lemma chain_state_frame [simp]:
  "block_index_cf (set_genesis_blockhash h st) = block_index_cf st"
  "block_md_cf (set_genesis_blockhash h st) = block_md_cf st"
  "child_rel (set_genesis_blockhash h st) = child_rel st"
  "index_readable (set_genesis_blockhash h st) = index_readable st"
  "get_block_metadata (set_genesis_blockhash h st) = get_block_metadata st"
  by (auto simp: set_genesis_blockhash_def child_rel_def index_readable_def get_block_metadata_def fun_eq_iff)

text \<open>What a peer that sends a locator is to get.\<close>

definition locator_answer ::
  "(share_store \<Rightarrow> blockhash \<Rightarrow> bool) \<Rightarrow> share_store \<Rightarrow> blockhash list \<Rightarrow> blockhash \<Rightarrow> nat \<Rightarrow> blockhash list \<Rightarrow> bool" where
  "locator_answer key_may_exist st locator stop limit hashes \<longleftrightarrow>
     (case get_first_existing_blockhash key_may_exist st locator of
        Some start \<Rightarrow> length hashes \<le> limit \<and> set hashes \<subseteq> (child_rel st)\<^sup>+ `` {start}
          \<and> (length hashes < limit \<and> (start, stop) \<notin> (child_rel st)\<^sup>*
              \<longrightarrow> set hashes = (child_rel st)\<^sup>+ `` {start})
      | None \<Rightarrow> hashes = (case genesis_blockhash st of Some g \<Rightarrow> [g] | None \<Rightarrow> []))"

lemma length_share_headers: "length (get_share_headers st hashes) \<le> length hashes"
  unfolding get_share_headers_def
  by (induction hashes) (auto simp: List.map_filter_simps split: option.split)

lemma locator_answers:
  assumes "index_readable st"
  shows "\<exists>hashes. get_blockhashes_for_locator key_may_exist st locator stop limit = Ok hashes
    \<and> locator_answer key_may_exist st locator stop limit hashes
    \<and> get_headers_for_locator key_may_exist st locator stop limit = Ok (get_share_headers st hashes)
    \<and> length (get_share_headers st hashes) \<le> length hashes"
proof (cases "get_first_existing_blockhash key_may_exist st locator")
  case None
  then show ?thesis
    by (cases "genesis_blockhash st")
      (simp_all add: get_blockhashes_for_locator_def get_headers_for_locator_def locator_answer_def length_share_headers)
next
  case (Some start)
  have "desc_inv st start limit [start] []" by (simp add: desc_inv_def)
  then obtain res where "descendant_loop st stop limit [start] [] = Ok res" "desc_result st start stop limit res"
    using descendant_loop_result [OF assms] by blast
  with Some show ?thesis
    by (simp add: get_blockhashes_for_locator_def get_headers_for_locator_def locator_answer_def
        get_descendant_blockhashes_def desc_result_def length_share_headers)
qed

section \<open>Properties\<close>

text \<open>
  C40: opening an existing store restores the chain state. For every index without cycles the
  walk from the genesis block ends; the tips are then exactly the blocks reachable from the genesis block
  that have no child, the chain tip is one of them, and no tip has more chain work.
\<close>

theorem init_restores_chain_state:
  assumes "acyclic (child_rel st)" "index_readable st" "\<forall>h. block_index_cf st h \<noteq> Stored []"
    and "\<forall>h \<in> (child_rel st)\<^sup>* `` {genesis}. \<exists>m. block_md_cf st h = Stored m"
  shows "\<exists>st'. init_chain_state_from_store genesis st = Some (Ok (), st')
    \<and> genesis_blockhash st' = Some genesis \<and> distinct (tips st')
    \<and> set (tips st') = {h \<in> (child_rel st)\<^sup>* `` {genesis}. block_index_cf st h = Absent}
    \<and> chain_tip st' \<in> set (tips st')
    \<and> (\<forall>h \<in> set (tips st'). \<exists>m best. get_block_metadata st' h = Ok m \<and> get_total_work st' = Ok best
          \<and> bm_chain_work m \<le> best)"
proof -
  let ?st = "set_genesis_blockhash genesis st"
  have "acyclic (child_rel ?st)" "index_readable ?st" using assms(1,2) by simp_all
  then obtain chain leaves where load: "load_chain ?st genesis = Some (Ok (chain, leaves))"
    and sets: "distinct leaves" "set chain = (child_rel st)\<^sup>* `` {genesis}"
      "set leaves = {h \<in> set chain. block_index_cf st h = Absent}"
    by (rule load_chain_result [of ?st genesis]) auto
  obtain md where md: "\<And>h. h \<in> (child_rel st)\<^sup>* `` {genesis} \<Longrightarrow> block_md_cf st h = Stored (md h)"
    using assms(4) by metis
  then have meta: "get_block_metadata st h = Ok (md h)" if "h \<in> set leaves" for h
    using that sets by (simp add: get_block_metadata_def)
  have "leaves \<noteq> []" using leaf_exists [OF assms(1-3)] sets(2,3) by force
  then have zip: "zip leaves (map md leaves) = map (\<lambda>h. (h, md h)) leaves" "map (\<lambda>h. (h, md h)) leaves \<noteq> []"
    by (simp_all add: zip_map2 zip_same_conv_map)
  from max_by_key_Some [OF zip(2), of "\<lambda>(hash, metadata). bm_chain_work metadata"]
  obtain best where best: "best \<in> set leaves"
      "max_by_key (\<lambda>(hash, metadata). bm_chain_work metadata) (map (\<lambda>h. (h, md h)) leaves) = Some (best, md best)"
      "\<forall>h \<in> set leaves. bm_chain_work (md h) \<le> bm_chain_work (md best)"
    by auto
  have "chain \<noteq> []" using sets(2) by auto
  moreover have "collect (get_block_metadata st) leaves = Ok (map md leaves)"
    using meta by (rule collect_total)
  ultimately have "init_chain_state_from_store genesis st = Some (Ok (), update_tips leaves (set_chain_tip best ?st))"
    using load best(2) zip(1) by (simp add: init_chain_state_from_store_def Let_def)
  moreover have "get_block_metadata (update_tips leaves (set_chain_tip best ?st)) h = get_block_metadata st h" for h
    by (simp add: get_block_metadata_def update_tips_def set_chain_tip_def set_genesis_blockhash_def)
  ultimately show ?thesis
    using best sets meta
    by (simp add: get_total_work_def update_tips_def set_chain_tip_def set_genesis_blockhash_def)
qed


text \<open>
  C23: the walk back from a block. It lists distinct blocks, all of them among its first
  ancestors up to the depth or uncles of those. It lists every one of them, and the ancestors
  among them newest first, when no ancestor is also named as an uncle, the uncles are stored,
  and the walk either has as many ancestors as it was asked for or ends at a block without uncles, as at
  the genesis block. When these ancestors have no uncles it lists exactly them, newest first.
\<close>

theorem dag_walk_correct:
  assumes "store_consistent B st" "0 < depth"
    and "A = set (ancestors st (unat depth) start)"
  shows "distinct (get_dag_for_depth B st start depth)
    \<and> set (get_dag_for_depth B st start depth) \<subseteq> A \<union> (\<Union>a \<in> A. set (uncles_of st a))
    \<and> (distinct (ancestors st (unat depth) start)
        \<and> (\<forall>a \<in> A. \<forall>u \<in> set (uncles_of st a). u \<notin> A \<and> (\<exists>header. get_share_header st u = Ok (Some header)))
        \<and> (length (ancestors st (unat depth) start) = unat depth
            \<or> uncles_of st (last (ancestors st (unat depth) start)) = [])
        \<longrightarrow> set (get_dag_for_depth B st start depth) = A \<union> (\<Union>a \<in> A. set (uncles_of st a))
            \<and> filter (\<lambda>h. h \<in> A) (get_dag_for_depth B st start depth) = ancestors st (unat depth) start)
    \<and> ((\<forall>a \<in> A. uncles_of st a = []) \<and> distinct (ancestors st (unat depth) start)
        \<longrightarrow> get_dag_for_depth B st start depth = ancestors st (unat depth) start)"
proof -
  let ?dag = "get_dag_for_depth B st start depth" and ?anc = "ancestors st (unat depth) start"
  have "dag_inv st A [(start, True)] depth" using assms(2,3) by (simp add: dag_inv_def)
  from dag_loop_sound [OF assms(1) this, of "[]" "[]"]
  have sound: "distinct ?dag" "set ?dag \<subseteq> A \<union> (\<Union>a \<in> A. set (uncles_of st a))"
    by (simp_all add: get_dag_for_depth_def)
  have complete: "set ?dag = A \<union> (\<Union>a \<in> A. set (uncles_of st a)) \<and> filter (\<lambda>h. h \<in> A) ?dag = ?anc"
    if "distinct ?anc" "\<forall>a \<in> A. \<forall>u \<in> set (uncles_of st a). u \<notin> A \<and> has_header st u"
      "length ?anc = unat depth \<or> ?anc = [] \<or> uncles_of st (last ?anc) = []"
    using dag_loop_complete [OF assms(1,2), of "[]" "[]" "[]" "[]" A start] that assms(3)
    by (simp add: get_dag_for_depth_def)
  have "?dag = ?anc" if "\<forall>a \<in> A. uncles_of st a = []" "distinct ?anc"
  proof -
    have "?anc = [] \<or> uncles_of st (last ?anc) = []" using that(1) assms(3) last_in_set [of ?anc] by blast
    then have "set ?dag = A" "filter (\<lambda>h. h \<in> A) ?dag = ?anc" using complete that by auto
    then show ?thesis by (simp add: filter_id_conv)
  qed
  with sound complete show ?thesis by blast
qed

text \<open>
  A share that names its grandparent as an uncle cuts the walk short: the grandparent is
  visited as an uncle first, its second visit as an ancestor is skipped, and no older ancestor is
  listed, however deep the walk was to go.
\<close>

theorem ancestor_uncle_truncates:
  assumes "store_consistent B st" "distinct [x, p, g, gg]" "2 < depth"
    and "get_share_header st x = Ok (Some hx)" "sh_prev_share_blockhash hx = p" "sh_uncles hx = [g]"
    and "get_share_header st p = Ok (Some hp)" "sh_prev_share_blockhash hp = g" "sh_uncles hp = []"
    and "get_share_header st g = Ok (Some hg)" "sh_prev_share_blockhash hg = gg"
    and "get_share_header st gg = Ok (Some hgg)"
  shows "get_dag_for_depth B st x depth = [x, p, g]
    \<and> (3 < depth \<longrightarrow> gg \<in> set (ancestors st (unat depth) x))"
proof -
  have pos: "0 < depth - 1" "0 < depth - 1 - 1"
    using assms(3) by (auto simp: word_less_nat_alt unat_sub_if')
  have "gg \<in> set (ancestors st (unat depth) x)" if "3 < depth"
  proof -
    have "unat depth = Suc (Suc (Suc (Suc (unat depth - 4))))" using that by (simp add: word_less_nat_alt)
    then obtain n where "unat depth = Suc (Suc (Suc (Suc n)))" ..
    then show ?thesis using assms(4-) by simp
  qed
  moreover have "get_dag_for_depth B st x depth = [x, p, g]"
    using assms(2,4-) pos header_hash [OF assms(1)] by (auto simp: get_dag_for_depth_def)
  ultimately show ?thesis by blast
qed

text \<open>
  C37: the uncles chosen for the next share. At most three are chosen; each is an unconfirmed child,
  not yet used as an uncle, of one of the last three confirmed blocks below the top; a block that
  qualifies is left out only when three are chosen that are all at least as high. Without a confirmed
  block the call fails.
\<close>

theorem find_uncles_correct:
  shows "(find_uncles st = Err (Message ''No top confirmation found'') \<longleftrightarrow> get_top_confirmed_height st = None)
    \<and> (\<forall>uncles. find_uncles st = Ok uncles \<longrightarrow>
         length uncles \<le> 3 \<and> (\<forall>u \<in> set uncles. \<exists>h. uncle_candidate st u h)
         \<and> (\<forall>v hv. uncle_candidate st v hv \<and> v \<notin> set uncles \<longrightarrow>
              length uncles = 3 \<and> (\<forall>u \<in> set uncles. \<forall>hu. uncle_candidate st u hu \<longrightarrow> hv \<le> hu)))"
proof (cases "get_top_confirmed_height st")
  case None
  then show ?thesis by (simp add: find_uncles_eq)
next
  case (Some t)
  let ?ys = "sort_by_height (List.map_filter (uncle_entry st) (recent_children st t))"
  define us where us: "us = map fst (take 3 ?ys)"
  have mem: "(u, h) \<in> set ?ys \<longleftrightarrow> uncle_candidate st u h" for u h
    using uncle_candidates [OF Some, of u h] by (simp add: sort_by_height_def)
  have split: "(u, h) \<in> set (take 3 ?ys) \<or> (u, h) \<in> set (drop 3 ?ys)" if "uncle_candidate st u h" for u h
    using mem [of u h] that by (metis Un_iff append_take_drop_id set_append)
  have chosen: "\<exists>h. uncle_candidate st u h \<and> (u, h) \<in> set (take 3 ?ys)" if "u \<in> set us" for u
  proof -
    from that obtain h where h: "(u, h) \<in> set (take 3 ?ys)" by (auto simp: us)
    then have "(u, h) \<in> set ?ys" by (rule in_set_takeD)
    with h show ?thesis using mem by blast
  qed
  have left_out: "length us = 3 \<and> (\<forall>u \<in> set us. \<forall>hu. uncle_candidate st u hu \<longrightarrow> hv \<le> hu)"
    if "uncle_candidate st v hv" "v \<notin> set us" for v hv
  proof -
    have "(v, hv) \<notin> set (take 3 ?ys)" using that(2) by (force simp: us)
    with split [OF that(1)] have drop: "(v, hv) \<in> set (drop 3 ?ys)" by blast
    then have "3 \<le> length ?ys" by (cases "length ?ys \<le> 3") auto
    moreover have "hv \<le> hu" if "u \<in> set us" "uncle_candidate st u hu" for u hu
      using chosen [OF that(1)] uncle_candidate_height [OF that(2)] sort_by_height_take [OF _ drop] by blast
    ultimately show ?thesis by (simp add: us)
  qed
  have "find_uncles st = Ok us" by (simp add: find_uncles_eq Some us)
  moreover have "length us \<le> 3" "\<forall>u \<in> set us. \<exists>h. uncle_candidate st u h" using chosen by (auto simp: us)
  ultimately show ?thesis using Some left_out by auto
qed

text \<open>
  C4: confirming a block appends it to the confirmed chain when its height is the next one and
  changes nothing otherwise, so the confirmed blocks are always one chain without gaps from height zero to
  the top and no confirmed block is ever replaced.
\<close>

theorem confirmed_chain_refines:
  assumes "confirmed_inv st" "\<not> read_only st" "get_top_confirmed_height st = None \<longrightarrow> height = 0"
    and "st' = snd (commit_batch (make_confirmed st b height []) st)"
  shows "confirmed_inv st'
    \<and> confirmed_chain st' =
        (if unat height = length (confirmed_chain st) then confirmed_chain st @ [b] else confirmed_chain st)"
  using confirmed_step [OF assms(1), of height st' b] assms(3) make_confirmed_effect [OF assms(2), of b height]
  by (simp add: assms(4))

text \<open>
  Setting up the genesis block on a store without confirmed blocks makes it the confirmed block at height
  zero, the chain tip and a tip, with its own work as the total work.
\<close>

theorem genesis_setup:
  assumes "confirmed_inv st" "\<not> read_only st" "get_top_confirmed_height st = None"
    and "setup_genesis B genesis [] st = (batch, st1)" "commit_batch batch st1 = (r, st2)"
  shows "r = Ok () \<and> confirmed_chain st2 = [block_hash B genesis] \<and> is_confirmed st2 (block_hash B genesis)
    \<and> chain_tip st2 = block_hash B genesis \<and> block_hash B genesis \<in> set (tips st2)
    \<and> genesis_blockhash st2 = Some (block_hash B genesis)
    \<and> get_total_work st2 = Ok (get_work B (sb_header genesis))
    \<and> get_share_header st2 (block_hash B genesis) = Ok (Some (sb_header genesis))"
proof -
  let ?h = "block_hash B genesis"
  have top_st: "get_top_confirmed_height (set_genesis_blockhash ?h st) = None"
    using assms(3) by (simp add: get_top_confirmed_height_def set_genesis_blockhash_def)
  have batch: "batch = store_add_share B genesis 0 (get_work B (sb_header genesis)) True []
        @ [PutConfirmed 0 ?h, PutTopConfirmed 0]"
    and st1: "st1 = set_chain_tip ?h (add_tip ?h (set_genesis_blockhash ?h st))"
    using assms(4) top_st
    by (auto simp: setup_genesis_def Let_def make_confirmed_def extends_top_def set_top_confirmed_height_def)
  have ro: "\<not> read_only st1"
    using assms(2) by (simp add: st1 set_chain_tip_def add_tip_def set_genesis_blockhash_def)
  have st2: "r = Ok ()" "st2 = apply_batch batch st1" using assms(5) commit_ok [OF ro] by auto
  have mem: "chain_tip st2 = ?h" "?h \<in> set (tips st2)" "genesis_blockhash st2 = Some ?h"
    by (simp_all add: st2(2) st1 set_chain_tip_def add_tip_def set_genesis_blockhash_def)
  have top': "get_top_confirmed_height st2 = Some 0" and at': "get_confirmed_at_height st2 0 = Some ?h"
    by (simp_all add: st2(2) batch get_top_confirmed_height_def get_confirmed_at_height_def)
  have md: "get_block_metadata st2 ?h = Ok \<lparr>bm_expected_height = Some 0, bm_chain_work = get_work B (sb_header genesis)\<rparr>"
    and header: "get_share_header st2 ?h = Ok (Some (sb_header genesis))"
    by (simp_all add: st2(2) batch get_block_metadata_def get_share_header_def add_share_effect
        to_storage_share_block_def)
  show ?thesis
    using st2(1) mem top' at' md header
    by (simp add: confirmed_chain_def is_confirmed_def get_total_work_def)
qed

section \<open>Instances\<close>

text \<open>An instance of the bitcoin functions whose block hash is the time of the header.\<close>

definition time_btc :: btc where
  "time_btc = sample_btc\<lparr>hash_blockhash := (\<lambda>bs. word_of_nat (of_be_bytes (drop (length bs - 4) bs)))\<rparr>"

lemma time_btc_ok: "btc_ok time_btc"
  using sample_btc_ok by (simp add: btc_ok_def time_btc_def fits_def [abs_def])

lemma time_btc_hash [simp]: "header_block_hash time_btc h = word_of_nat (unat (sh_time h))"
proof -
  have "header_block_hash time_btc h = word_of_nat (of_be_bytes (be_bytes 4 (unat (sh_time h))))"
    by (simp add: header_block_hash_def share_header_encode_def time_btc_def sample_btc_def u32_codec_def word_codec_def)
  also have "of_be_bytes (be_bytes 4 (unat (sh_time h))) = unat (sh_time h)"
    using unsigned_less [of "sh_time h", where ?'a = nat] by (simp add: of_be_bytes_be_bytes)
  finally show ?thesis .
qed

definition chain_header :: "u32 \<Rightarrow> blockhash \<Rightarrow> blockhash list \<Rightarrow> share_header" where
  "chain_header time prev uncles =
     sample_share_header\<lparr>sh_time := time, sh_prev_share_blockhash := prev, sh_uncles := uncles\<rparr>"

definition chain_cell :: "u32 \<Rightarrow> blockhash \<Rightarrow> blockhash list \<Rightarrow> storage_share_block cell" where
  "chain_cell time prev uncles =
     Stored \<lparr>ssb_header = chain_header time prev uncles, ssb_txids = [], ssb_bitcoin_txids = []\<rparr>"

definition md_cell :: "u32 \<Rightarrow> work \<Rightarrow> block_metadata cell" where
  "md_cell height w = Stored \<lparr>bm_expected_height = Some height, bm_chain_work = w\<rparr>"

text \<open>Blocks 1 to 4 in a row, all confirmed, and block 5 beside block 3.\<close>

definition sample_dag :: share_store where
  "sample_dag = empty_store
     \<lparr>block_cf := (\<lambda>_. Absent)(1 := chain_cell 1 0 [], 2 := chain_cell 2 1 [], 3 := chain_cell 3 2 [],
         4 := chain_cell 4 3 [2], 5 := chain_cell 5 2 []),
      block_md_cf := (\<lambda>_. Absent)(1 := md_cell 0 10, 2 := md_cell 1 20, 3 := md_cell 2 30, 4 := md_cell 3 40,
         5 := md_cell 2 25),
      block_index_cf := (\<lambda>_. Absent)(1 := Stored [2], 2 := Stored [3, 5], 3 := Stored [4]),
      confirmed_cf := (\<lambda>_. Absent)(0 := Stored 1, 1 := Stored 2, 2 := Stored 3, 3 := Stored 4),
      top_confirmed_cf := Stored 3, genesis_blockhash := Some 1, chain_tip := 4, tips := [4, 5]\<rparr>"

lemma sample_dag_simps [simp]:
  "block_cf sample_dag = (\<lambda>_. Absent)(1 := chain_cell 1 0 [], 2 := chain_cell 2 1 [], 3 := chain_cell 3 2 [],
     4 := chain_cell 4 3 [2], 5 := chain_cell 5 2 [])"
  "block_md_cf sample_dag = (\<lambda>_. Absent)(1 := md_cell 0 10, 2 := md_cell 1 20, 3 := md_cell 2 30, 4 := md_cell 3 40,
     5 := md_cell 2 25)"
  "block_index_cf sample_dag = (\<lambda>_. Absent)(1 := Stored [2], 2 := Stored [3, 5], 3 := Stored [4])"
  "confirmed_cf sample_dag = (\<lambda>_. Absent)(0 := Stored 1, 1 := Stored 2, 2 := Stored 3, 3 := Stored 4)"
  "top_confirmed_cf sample_dag = Stored 3" "genesis_blockhash sample_dag = Some 1"
  "chain_tip sample_dag = 4" "tips sample_dag = [4, 5]" "uncles_cf sample_dag = (\<lambda>_. Absent)"
  "\<not> read_only sample_dag"
  by (simp_all add: sample_dag_def)

lemma sample_dag_rel: "child_rel sample_dag = {(1, 2), (2, 3), (2, 5), (3, 4)}"
  by (auto simp: child_rel_def split: if_splits)

lemma sample_dag_ok:
  "index_readable sample_dag" "\<forall>h. block_index_cf sample_dag h \<noteq> Stored []"
  "store_consistent time_btc sample_dag" "acyclic (child_rel sample_dag)"
proof -
  show "index_readable sample_dag" "\<forall>h. block_index_cf sample_dag h \<noteq> Stored []"
    by (simp_all add: index_readable_def)
  show "store_consistent time_btc sample_dag"
    by (auto simp: store_consistent_def chain_cell_def chain_header_def split: if_splits)
  have "child_rel sample_dag \<subseteq> measure unat" by (auto simp: sample_dag_rel)
  then show "acyclic (child_rel sample_dag)"
    by (metis acyclic_subset wf_acyclic wf_measure)
qed

lemma sample_dag_header:
  "get_share_header sample_dag 1 = Ok (Some (chain_header 1 0 []))"
  "get_share_header sample_dag 2 = Ok (Some (chain_header 2 1 []))"
  "get_share_header sample_dag 3 = Ok (Some (chain_header 3 2 []))"
  "get_share_header sample_dag 4 = Ok (Some (chain_header 4 3 [2]))"
  by (simp_all add: get_share_header_def chain_cell_def)

lemma sample_dag_reach: "(child_rel sample_dag)\<^sup>* `` {1} \<subseteq> {1, 2, 3, 4, 5}"
proof
  fix h assume "h \<in> (child_rel sample_dag)\<^sup>* `` {1}"
  then have "(1, h) \<in> (child_rel sample_dag)\<^sup>*" by simp
  then show "h \<in> {1, 2, 3, 4, 5}"
    by (induction rule: rtrancl_induct) (auto simp: sample_dag_rel)
qed

theorem init_restores_chain_state_witness:
  "\<exists>st'. init_chain_state_from_store 1 sample_dag = Some (Ok (), st') \<and> chain_tip st' \<in> set (tips st')"
proof -
  have "\<forall>h \<in> (child_rel sample_dag)\<^sup>* `` {1}. \<exists>m. block_md_cf sample_dag h = Stored m"
    using sample_dag_reach by (auto simp: md_cell_def)
  from init_restores_chain_state [OF sample_dag_ok(4,1,2) this] show ?thesis by blast
qed


theorem dag_walk_correct_witness:
  "set (get_dag_for_depth time_btc sample_dag 4 2) = {4, 3, 2} \<and> distinct (get_dag_for_depth time_btc sample_dag 4 2)"
proof -
  have two: "unat (2 :: u64) = Suc (Suc 0)" by simp
  have "ancestors sample_dag (unat (2 :: u64)) 4 = [4, 3]"
    unfolding two using sample_dag_header by (simp add: chain_header_def)
  then show ?thesis
    using dag_walk_correct [OF sample_dag_ok(3), of 2 _ 4, OF _ refl] sample_dag_header
    by (simp add: uncles_of_def chain_header_def insert_commute)
qed

theorem ancestor_uncle_truncates_witness: "get_dag_for_depth time_btc sample_dag 4 2160 = [4, 3, 2]"
  using ancestor_uncle_truncates [OF sample_dag_ok(3), of 4 3 2 1 2160, OF _ _ sample_dag_header(4) _ _
      sample_dag_header(3) _ _ sample_dag_header(2) _ sample_dag_header(1)]
  by (simp add: chain_header_def)

theorem find_uncles_correct_witness:
  "\<exists>us. find_uncles sample_dag = Ok us \<and> length us \<le> 3"
  using find_uncles_correct [of sample_dag]
  by (auto simp: find_uncles_eq get_top_confirmed_height_def)

theorem confirmed_chain_refines_witness:
  "confirmed_chain (snd (commit_batch (make_confirmed sample_dag 9 4 []) sample_dag)) = [1, 2, 3, 4, 9]"
proof -
  have "k \<le> 3 \<longleftrightarrow> k = 0 \<or> k = 1 \<or> k = 2 \<or> k = 3" for k :: u32
    by (auto simp: word_le_nat_alt word_unat_eq_iff)
  then have "confirmed_inv sample_dag"
    by (auto simp: confirmed_inv_def get_top_confirmed_height_def get_confirmed_at_height_def)
  moreover have "confirmed_chain sample_dag = [1, 2, 3, 4]"
    by (simp add: confirmed_chain_def get_top_confirmed_height_def get_confirmed_at_height_def upt_rec)
  ultimately show ?thesis
    using confirmed_chain_refines [of sample_dag 4 _ 9, OF _ _ _ refl]
    by (simp add: get_top_confirmed_height_def)
qed

theorem genesis_setup_witness:
  "\<exists>st. confirmed_chain st = [block_hash sample_btc sample_block] \<and> chain_tip st = block_hash sample_btc sample_block"
proof -
  obtain batch st1 where made: "setup_genesis sample_btc sample_block [] empty_store = (batch, st1)" by fastforce
  obtain r st2 where written: "commit_batch batch st1 = (r, st2)" by fastforce
  have "confirmed_inv empty_store" "get_top_confirmed_height empty_store = None"
    by (simp_all add: confirmed_inv_def get_top_confirmed_height_def get_confirmed_at_height_def)
  from genesis_setup [OF this(1) _ this(2) made written] show ?thesis by auto
qed

end
