(* ===== verification/Mailbox.thy ===== *)
theory Mailbox
  imports P2Pool_Prelude
begin

text \<open>
  Tasks that own their state and serve commands from a channel (\<open>std::sync::mpsc\<close> or
  \<open>tokio::sync::mpsc\<close> with \<open>oneshot\<close> replies): the state of such a task, its steps, and
  what every such task guarantees. Senders may be cloned and dropped; a send fails once the
  receiver is gone; the receiver stops when the channel is empty and no sender is left. Some handles
  also change the state directly, besides the channel.
\<close>

section \<open>State and steps\<close>

text \<open>
  The position of a command among all commands sent names its reply channel.
\<close>

record ('s, 'c, 'r) actor =
  ac_state :: 's
  ac_queue :: "(nat \<times> 'c) list"
  ac_replies :: "nat \<Rightarrow> 'r option"
  ac_sent :: "'c list"
  ac_senders :: nat
  ac_running :: bool

definition actor_start :: "'s \<Rightarrow> nat \<Rightarrow> ('s, 'c, 'r) actor" where
  "actor_start s senders =
     \<lparr>ac_state = s, ac_queue = [], ac_replies = (\<lambda>_. None), ac_sent = [], ac_senders = senders, ac_running = True\<rparr>"

text \<open>
  \<open>handler k c s\<close> is the effect of command \<open>c\<close> in state \<open>s\<close> when the
  environment (the clock) is \<open>k\<close>; a handler that does not return is \<open>None\<close>.
\<close>

inductive actor_step ::
  "('k \<Rightarrow> 'c \<Rightarrow> 's \<Rightarrow> ('r option \<times> 's) option) \<Rightarrow> ('s \<Rightarrow> 's) set
     \<Rightarrow> ('s, 'c, 'r) actor \<Rightarrow> ('s, 'c, 'r) actor \<Rightarrow> bool"
  for handler :: "'k \<Rightarrow> 'c \<Rightarrow> 's \<Rightarrow> ('r option \<times> 's) option" and direct :: "('s \<Rightarrow> 's) set" where
  send: "ac_running w \<Longrightarrow> 0 < ac_senders w \<Longrightarrow>
    actor_step handler direct w (w\<lparr>ac_queue := ac_queue w @ [(length (ac_sent w), c)], ac_sent := ac_sent w @ [c]\<rparr>)"
| serve: "ac_running w \<Longrightarrow> ac_queue w = (i, c) # rest \<Longrightarrow> handler k c (ac_state w) = Some (r, s) \<Longrightarrow>
    actor_step handler direct w (w\<lparr>ac_state := s, ac_queue := rest, ac_replies := (ac_replies w)(i := r)\<rparr>)"
| direct_update: "f \<in> direct \<Longrightarrow> actor_step handler direct w (w\<lparr>ac_state := f (ac_state w)\<rparr>)"
| clone_sender: "0 < ac_senders w \<Longrightarrow> actor_step handler direct w (w\<lparr>ac_senders := Suc (ac_senders w)\<rparr>)"
| drop_sender: "0 < ac_senders w \<Longrightarrow> actor_step handler direct w (w\<lparr>ac_senders := ac_senders w - 1\<rparr>)"
| stop: "ac_running w \<Longrightarrow> ac_queue w = [] \<Longrightarrow> ac_senders w = 0 \<Longrightarrow>
    actor_step handler direct w (w\<lparr>ac_running := False\<rparr>)"

inductive_cases actor_stepE: "actor_step handler direct w w'"

text \<open>
  What happened to the state, one event after another: a command was served, or somebody updated
  the state directly. The run of such a history gives the replies to its commands.
\<close>

datatype ('k, 'c, 's) actor_event = Served 'k 'c | Updated "'s \<Rightarrow> 's"

fun run_events ::
  "('k \<Rightarrow> 'c \<Rightarrow> 's \<Rightarrow> ('r option \<times> 's) option) \<Rightarrow> ('k, 'c, 's) actor_event list \<Rightarrow> 's
     \<Rightarrow> ('r option list \<times> 's) option" where
  "run_events handler [] s = Some ([], s)"
| "run_events handler (Served k c # events) s =
     (case handler k c s of
        None \<Rightarrow> None
      | Some (r, s') \<Rightarrow> map_option (\<lambda>(rs, s''). (r # rs, s'')) (run_events handler events s'))"
| "run_events handler (Updated f # events) s = run_events handler events (f s)"

fun served_commands :: "('k, 'c, 's) actor_event list \<Rightarrow> 'c list" where
  "served_commands [] = []"
| "served_commands (Served k c # events) = c # served_commands events"
| "served_commands (Updated f # events) = served_commands events"

lemma served_commands_append [simp]: "served_commands (xs @ ys) = served_commands xs @ served_commands ys"
  by (induction xs rule: served_commands.induct) simp_all

lemma run_events_served:
  "run_events handler events s = Some (rs, s') \<Longrightarrow> handler k c s' = Some (r, s'') \<Longrightarrow>
     run_events handler (events @ [Served k c]) s = Some (rs @ [r], s'')"
  by (induction handler events s arbitrary: rs rule: run_events.induct) (auto split: option.splits)

lemma run_events_updated:
  "run_events handler events s = Some (rs, s') \<Longrightarrow> run_events handler (events @ [Updated f]) s = Some (rs, f s')"
  by (induction handler events s arbitrary: rs rule: run_events.induct) (auto split: option.splits)

lemma run_events_length:
  "run_events handler events s = Some (rs, s') \<Longrightarrow> length rs = length (served_commands events)"
  by (induction handler events s arbitrary: rs rule: run_events.induct) (auto split: option.splits)

section \<open>The contract\<close>

text \<open>
  The part of the state that the commands are about is a view of it. Of the direct updates some
  are silent, as they do not change the view, and the others change it in a way that
  depends on the view alone; the handler computes reply and view from the view alone.
\<close>

locale serialized_actor =
  fixes handler :: "'k \<Rightarrow> 'c \<Rightarrow> 's \<Rightarrow> ('r option \<times> 's) option"
    and silent :: "('s \<Rightarrow> 's) set"
    and writes :: "('s \<Rightarrow> 's) set"
    and view :: "'s \<Rightarrow> 'v"
  assumes silent_view: "f \<in> silent \<Longrightarrow> view (f s) = view s"
    and writes_view: "f \<in> writes \<Longrightarrow> view s' = view s \<Longrightarrow> view (f s') = view (f s)"
    and handler_view: "handler k c s = Some (r, t) \<Longrightarrow> view s' = view s \<Longrightarrow>
      \<exists>t'. handler k c s' = Some (r, t') \<and> view t' = view t"
begin

definition serial :: "'s \<Rightarrow> ('s, 'c, 'r) actor \<Rightarrow> ('k, 'c, 's) actor_event list \<Rightarrow> bool" where
  "serial s0 w events \<longleftrightarrow>
     (\<exists>rs s. run_events handler events s0 = Some (rs, s) \<and> view (ac_state w) = view s
        \<and> (\<forall>i. ac_replies w i = (if i < length rs then rs ! i else None))
        \<and> map fst (ac_queue w) = [length rs ..< length (ac_sent w)]
        \<and> ac_sent w = served_commands events @ map snd (ac_queue w)
        \<and> (\<forall>f. Updated f \<in> set events \<longrightarrow> f \<in> writes))"

lemma serial_start: "serial s0 (actor_start s0 n) []"
  by (simp add: serial_def actor_start_def)

text \<open>The command at the head of the queue is the first that was not served.\<close>

lemma serial_head:
  assumes "run_events handler events s0 = Some (rs, t)" "ac_queue w = (i, c) # rest"
    and "map fst (ac_queue w) = [length rs ..< length (ac_sent w)]"
    and "ac_sent w = served_commands events @ map snd (ac_queue w)"
  shows "i = length rs" "map fst rest = [Suc (length rs) ..< length (ac_sent w)]"
    "i < length (ac_sent w)" "ac_sent w ! i = c"
proof -
  have ids: "i # map fst rest = [length rs ..< length (ac_sent w)]" using assms(2,3) by simp
  then show less: "i < length (ac_sent w)"
    by (cases "length rs < length (ac_sent w)") (auto simp: upt_conv_Cons)
  with ids show i: "i = length rs" "map fst rest = [Suc (length rs) ..< length (ac_sent w)]"
    by (cases "length rs < length (ac_sent w)"; simp add: upt_conv_Cons)+
  show "ac_sent w ! i = c"
    using assms(2,4) run_events_length [OF assms(1)] i(1) by (simp add: nth_append)
qed

lemma serial_step:
  assumes "actor_step handler (silent \<union> writes) w w'" "serial s0 w events"
  shows "\<exists>more. serial s0 w' (events @ more)"
proof -
  from assms(2) obtain rs t where run: "run_events handler events s0 = Some (rs, t)" "view (ac_state w) = view t"
    and replies: "\<forall>i. ac_replies w i = (if i < length rs then rs ! i else None)"
    and queue: "map fst (ac_queue w) = [length rs ..< length (ac_sent w)]"
      "ac_sent w = served_commands events @ map snd (ac_queue w)"
    and updates: "\<forall>f. Updated f \<in> set events \<longrightarrow> f \<in> writes"
    by (auto simp: serial_def)
  from assms(1) show ?thesis
  proof cases
    case (serve i c rest k r s)
    from handler_view [OF serve(4), of t] run(2) obtain t' where t': "handler k c t = Some (r, t')" "view t' = view s"
      by auto
    note head = serial_head [OF run(1) serve(3) queue]
    have "serial s0 w' (events @ [Served k c])"
      unfolding serial_def
      using run_events_served [OF run(1) t'(1)] t'(2) head replies queue(2) updates serve(3)
      by (auto simp: serve(1) nth_append less_Suc_eq)
    then show ?thesis ..
  next
    case (send c)
    have "length rs \<le> length (ac_sent w)" using run_events_length [OF run(1)] by (simp add: queue(2))
    then have "serial s0 w' (events @ [])"
      unfolding serial_def using run replies queue updates
      by (intro exI [of _ rs] exI [of _ t]) (simp add: send(1))
    then show ?thesis ..
  next
    case (direct_update f)
    then consider "f \<in> silent" | "f \<in> writes" by blast
    then show ?thesis
    proof cases
      case 1
      with direct_update assms(2) have "serial s0 w' (events @ [])" by (simp add: serial_def silent_view)
      then show ?thesis ..
    next
      case 2
      then have "serial s0 w' (events @ [Updated f])"
        unfolding serial_def using run_events_updated [OF run(1), of f] run(2) replies queue updates
        by (auto simp: direct_update(1) intro: writes_view)
      then show ?thesis ..
    qed
  qed (rule exI [of _ "[]"], use assms(2) in \<open>simp add: serial_def\<close>)+
qed

lemma serialized:
  assumes "(actor_step handler (silent \<union> writes))\<^sup>*\<^sup>* (actor_start s0 n) w"
  shows "\<exists>events. serial s0 w events"
  using assms
proof (induction rule: rtranclp_induct)
  case base
  then show ?case using serial_start by blast
next
  case (step y z)
  then show ?case using serial_step by blast
qed

lemma stops_idle:
  assumes "(actor_step handler direct)\<^sup>*\<^sup>* (actor_start s0 n) w" "\<not> ac_running w"
  shows "ac_queue w = []"
proof -
  have "\<not> ac_running w \<longrightarrow> ac_queue w = []"
    using assms(1) by (induction rule: rtranclp_induct) (auto simp: actor_start_def elim!: actor_stepE)
  with assms(2) show ?thesis by simp
qed

text \<open>A running actor whose handler returns on what is queued can always empty its queue.\<close>

lemma drains:
  assumes "ac_running w" "\<And>i c s. (i, c) \<in> set (ac_queue w) \<Longrightarrow> \<exists>k. handler k c s \<noteq> None"
  shows "\<exists>w'. (actor_step handler direct)\<^sup>*\<^sup>* w w' \<and> ac_queue w' = [] \<and> ac_running w' \<and> ac_sent w' = ac_sent w"
  using assms
proof (induction "ac_queue w" arbitrary: w)
  case Nil
  then show ?case by auto
next
  case (Cons q rest)
  obtain i c where q: "q = (i, c)" by fastforce
  then have "(i, c) \<in> set (ac_queue w)" using Cons.hyps(2) by (metis list.set_intros(1))
  then obtain k where "handler k c (ac_state w) \<noteq> None" using Cons.prems(2) by blast
  then obtain r s where hk: "handler k c (ac_state w) = Some (r, s)" by auto
  let ?w = "w\<lparr>ac_state := s, ac_queue := rest, ac_replies := (ac_replies w)(i := r)\<rparr>"
  have step: "actor_step handler direct w ?w"
    using Cons.prems(1) Cons.hyps(2) hk q by (intro actor_step.serve) auto
  have "\<exists>w'. (actor_step handler direct)\<^sup>*\<^sup>* ?w w' \<and> ac_queue w' = [] \<and> ac_running w' \<and> ac_sent w' = ac_sent ?w"
  proof (rule Cons.hyps(1))
    fix i' c' s'
    assume "(i', c') \<in> set (ac_queue ?w)"
    then have "(i', c') \<in> set (ac_queue w)" using Cons.hyps(2) [symmetric] by simp
    then show "\<exists>k. handler k c' s' \<noteq> None" by (rule Cons.prems(2))
  qed (use Cons.prems(1) in auto)
  with step show ?case by (auto intro: converse_rtranclp_into_rtranclp)
qed

end

text \<open>
  An actor whose replies are promises: what a reply says of the state holds when it is
  given, and neither other commands nor direct updates undo it.
\<close>

locale durable_actor = serialized_actor handler silent writes view
  for handler :: "'k \<Rightarrow> 'c \<Rightarrow> 's \<Rightarrow> ('r option \<times> 's) option"
    and silent :: "('s \<Rightarrow> 's) set" and writes :: "('s \<Rightarrow> 's) set" and view :: "'s \<Rightarrow> 'v" +
  fixes promise :: "'c \<Rightarrow> 'r \<Rightarrow> 's \<Rightarrow> bool"
  assumes promise_made: "handler k c s = Some (Some r, t) \<Longrightarrow> promise c r t"
    and promise_served: "promise c r s \<Longrightarrow> handler k c' s = Some (r', t) \<Longrightarrow> promise c r t"
    and promise_updated: "promise c r s \<Longrightarrow> f \<in> silent \<union> writes \<Longrightarrow> promise c r (f s)"
begin

lemma promises_kept:
  assumes "(actor_step handler (silent \<union> writes))\<^sup>*\<^sup>* (actor_start s0 n) w"
  shows "\<forall>i r. ac_replies w i = Some r \<longrightarrow> i < length (ac_sent w) \<and> promise (ac_sent w ! i) r (ac_state w)"
  using assms
proof (induction rule: rtranclp_induct)
  case base
  then show ?case by (simp add: actor_start_def)
next
  case (step w w')
  from serialized [OF step(1)] obtain events rs t where "run_events handler events s0 = Some (rs, t)"
    "map fst (ac_queue w) = [length rs ..< length (ac_sent w)]"
    "ac_sent w = served_commands events @ map snd (ac_queue w)"
    by (auto simp: serial_def)
  note head = serial_head [OF this(1) _ this(2,3)]
  from step(2) show ?case
  proof cases
    case (serve i c rest k r s)
    then show ?thesis
      using step.IH promise_made [of k c "ac_state w" _ s] promise_served [OF _ serve(4)] head(3,4) [OF serve(3)]
      by auto
  next
    case (send c)
    then show ?thesis using step.IH by (auto simp: nth_append intro: less_SucI)
  next
    case (direct_update f)
    then show ?thesis using step.IH promise_updated by auto
  qed (use step.IH in auto)
qed

end

end
