(* ===== verification/Store_Writer.thy ===== *)
theory Store_Writer
  imports Share_Dag Mailbox
begin

text \<open>
  The store writer (\<open>store/writer/mod.rs\<close>) and its handle (\<open>store/writer/handle.rs\<close>):
  one thread serves the commands that write to the database in the order they were sent; handles
  wait for the reply, and change the chain state in memory without the channel. The only other
  writer is the background task of \<open>store/background_tasks.rs\<close>, which prunes old shares
  and jobs directly in the database, at any moment. A panic of the writer aborts the process.
\<close>

section \<open>Commands\<close>

datatype handle_error = Database store_error | ChannelClosed | NotFound string

datatype write_command =
    AddShare share_block u32 work bool
  | SetupGenesis share_block
  | InitChainStateFromStore blockhash
  | AddJob u64 string
  | AddUser string
  | AddPplnsShare simple_pplns_share
  | SetChainTip blockhash
  | SetGenesisBlockHash blockhash
  | UpdateTips "blockhash list"
  | AddTip blockhash
  | RemoveTip blockhash

text \<open>What is sent back: a bare result, or the id of a user.\<close>

datatype write_reply = Done "(handle_error, unit) outcome" | UserId "(handle_error, u64) outcome"

text \<open>What the system clock shows when a command is served.\<close>

record clock =
  clock_millis :: u64
  clock_secs :: u64

definition write_share :: "btc \<Rightarrow> share_block \<Rightarrow> u32 \<Rightarrow> work \<Rightarrow> bool \<Rightarrow> share_store
    \<Rightarrow> (store_error, unit) outcome \<times> share_store" where
  "write_share B share height chain_work confirm_txs st =
     commit_batch (store_add_share B share height chain_work confirm_txs []) st"

definition write_genesis :: "btc \<Rightarrow> share_block \<Rightarrow> share_store \<Rightarrow> (store_error, unit) outcome \<times> share_store" where
  "write_genesis B genesis st =
     (case setup_genesis B genesis [] st of (batch, st') \<Rightarrow> commit_batch batch st')"

definition reply_done :: "(store_error, unit) outcome \<times> share_store \<Rightarrow> (write_reply option \<times> share_store) option" where
  "reply_done res = (case res of (result, st) \<Rightarrow> Some (Some (Done (map_err Database result)), st))"

fun handle_command :: "btc \<Rightarrow> clock \<Rightarrow> write_command \<Rightarrow> share_store \<Rightarrow> (write_reply option \<times> share_store) option" where
  "handle_command B clk (AddShare share height chain_work confirm_txs) st =
     reply_done (write_share B share height chain_work confirm_txs st)"
| "handle_command B clk (SetupGenesis genesis) st = reply_done (write_genesis B genesis st)"
| "handle_command B clk (InitChainStateFromStore genesis_hash) st =
     (case init_chain_state_from_store genesis_hash st of
        None \<Rightarrow> None
      | Some res \<Rightarrow> reply_done res)"
| "handle_command B clk (AddJob timestamp serialized_notify) st =
     reply_done (add_job timestamp serialized_notify st)"
| "handle_command B clk (AddUser btcaddress) st =
     (case add_user (clock_millis clk) (clock_secs clk) btcaddress st of
        (result, st') \<Rightarrow> Some (Some (UserId (map_err Database result)), st'))"
| "handle_command B clk (AddPplnsShare pplns_share) st =
     reply_done (add_pplns_share (clock_millis clk) pplns_share st)"
| "handle_command B clk (SetChainTip hash) st = Some (None, set_chain_tip hash st)"
| "handle_command B clk (SetGenesisBlockHash hash) st = Some (None, set_genesis_blockhash hash st)"
| "handle_command B clk (UpdateTips new_tips) st = Some (None, update_tips new_tips st)"
| "handle_command B clk (AddTip hash) st = Some (None, add_tip hash st)"
| "handle_command B clk (RemoveTip hash) st = Some (None, remove_tip hash st)"

text \<open>The updates that handles make without the channel.\<close>

definition memory_updates :: "(share_store \<Rightarrow> share_store) set" where
  "memory_updates = range set_chain_tip \<union> range set_genesis_blockhash \<union> range update_tips
     \<union> range add_tip \<union> range remove_tip"

text \<open>
  The deletions of the background task, each a single operation of the database, while its cutoff
  (the clock less the time to live) is not beyond \<open>cutoff\<close>.
\<close>

definition prune_updates :: "u64 \<Rightarrow> (share_store \<Rightarrow> share_store) set" where
  "prune_updates cutoff =
     {\<lambda>st. snd (prune_shares now ttl st) | now ttl. saturating_sub now ttl \<le> cutoff}
     \<union> {\<lambda>st. snd (prune_jobs now ttl st) | now ttl. saturating_sub now ttl \<le> cutoff}"

type_synonym writer = "(share_store, write_command, write_reply) actor"

type_synonym writer_event = "(clock, write_command, share_store) actor_event"

abbreviation writer_step :: "btc \<Rightarrow> u64 \<Rightarrow> writer \<Rightarrow> writer \<Rightarrow> bool" where
  "writer_step B cutoff \<equiv> actor_step (handle_command B) (memory_updates \<union> prune_updates cutoff)"

section \<open>Requests of a handle\<close>

text \<open>
  A handle sends a command and waits for its reply; the send fails, and so does the wait, when the
  writer is gone. These are the requests as their caller sees them while nobody else writes.
\<close>

definition request ::
  "bool \<Rightarrow> (share_store \<Rightarrow> (store_error, 'a) outcome \<times> share_store) \<Rightarrow> share_store
     \<Rightarrow> (handle_error, 'a) outcome \<times> share_store" where
  "request writer_alive f st =
     (if writer_alive then (case f st of (result, st') \<Rightarrow> (map_err Database result, st')) else (Err ChannelClosed, st))"

definition handle_add_share ::
  "btc \<Rightarrow> bool \<Rightarrow> share_block \<Rightarrow> u32 \<Rightarrow> work \<Rightarrow> bool \<Rightarrow> share_store \<Rightarrow> (handle_error, unit) outcome \<times> share_store" where
  "handle_add_share B alive share height chain_work confirm_txs st =
     request alive (write_share B share height chain_work confirm_txs) st"

definition handle_setup_genesis ::
  "btc \<Rightarrow> bool \<Rightarrow> share_block \<Rightarrow> share_store \<Rightarrow> (handle_error, unit) outcome \<times> share_store" where
  "handle_setup_genesis B alive genesis st = request alive (write_genesis B genesis) st"

definition handle_init_chain_state ::
  "bool \<Rightarrow> blockhash \<Rightarrow> share_store \<Rightarrow> ((handle_error, unit) outcome \<times> share_store) option" where
  "handle_init_chain_state alive genesis_hash st =
     (if alive then map_option (\<lambda>res. request True (\<lambda>_. res) st) (init_chain_state_from_store genesis_hash st)
      else Some (Err ChannelClosed, st))"

definition handle_add_job :: "bool \<Rightarrow> u64 \<Rightarrow> string \<Rightarrow> share_store \<Rightarrow> (handle_error, unit) outcome \<times> share_store" where
  "handle_add_job alive timestamp serialized_notify st = request alive (add_job timestamp serialized_notify) st"

definition handle_add_user ::
  "clock \<Rightarrow> bool \<Rightarrow> string \<Rightarrow> share_store \<Rightarrow> (handle_error, u64) outcome \<times> share_store" where
  "handle_add_user clk alive btcaddress st =
     request alive (add_user (clock_millis clk) (clock_secs clk) btcaddress) st"

definition handle_add_pplns_share ::
  "clock \<Rightarrow> bool \<Rightarrow> simple_pplns_share \<Rightarrow> share_store \<Rightarrow> (handle_error, unit) outcome \<times> share_store" where
  "handle_add_pplns_share clk alive pplns_share st =
     request alive (add_pplns_share (clock_millis clk) pplns_share) st"

section \<open>Lemmas\<close>

text \<open>The database, as opposed to the state in memory.\<close>

definition db_of :: "share_store \<Rightarrow> share_store" where
  "db_of st = st\<lparr>genesis_blockhash := None, chain_tip := 0, tips := []\<rparr>"

lemma db_of_memory [simp]:
  "db_of (set_chain_tip h st) = db_of st" "db_of (set_genesis_blockhash h st) = db_of st"
  "db_of (update_tips ts st) = db_of st" "db_of (add_tip h st) = db_of st" "db_of (remove_tip h st) = db_of st"
  by (simp_all add: db_of_def set_chain_tip_def set_genesis_blockhash_def update_tips_def add_tip_def remove_tip_def)

lemma db_of_set:
  "db_of (st\<lparr>genesis_blockhash := g, chain_tip := t, tips := ts\<rparr>) = db_of st"
  by (simp add: db_of_def)

lemma same_db:
  assumes "db_of st' = db_of st"
  shows "st' = st\<lparr>genesis_blockhash := genesis_blockhash st', chain_tip := chain_tip st', tips := tips st'\<rparr>"
proof -
  have "(db_of st')\<lparr>genesis_blockhash := genesis_blockhash st', chain_tip := chain_tip st', tips := tips st'\<rparr> = st'"
    by (simp add: db_of_def)
  moreover have "(db_of st)\<lparr>genesis_blockhash := g, chain_tip := t, tips := ts\<rparr>
      = st\<lparr>genesis_blockhash := g, chain_tip := t, tips := ts\<rparr>" for g t ts
    by (simp add: db_of_def)
  ultimately show ?thesis using assms by metis
qed

lemma apply_op_set_memory:
  "apply_op op (st\<lparr>genesis_blockhash := g, chain_tip := t, tips := ts\<rparr>)
     = (apply_op op st)\<lparr>genesis_blockhash := g, chain_tip := t, tips := ts\<rparr>"
  by (cases op) simp_all

lemma apply_batch_set_memory:
  "apply_batch ops (st\<lparr>genesis_blockhash := g, chain_tip := t, tips := ts\<rparr>)
     = (apply_batch ops st)\<lparr>genesis_blockhash := g, chain_tip := t, tips := ts\<rparr>"
  by (induction ops arbitrary: st) (simp_all add: apply_op_set_memory)

lemma apply_batch_same_db: "db_of st' = db_of st \<Longrightarrow> db_of (apply_batch ops st') = db_of (apply_batch ops st)"
  by (subst same_db) (auto simp: apply_batch_set_memory db_of_set)

lemma db_fields:
  assumes "db_of st' = db_of st"
  shows "read_only st' = read_only st" "block_index_cf st' = block_index_cf st" "block_md_cf st' = block_md_cf st"
    "top_confirmed_cf st' = top_confirmed_cf st"
  using arg_cong [OF assms, of read_only] arg_cong [OF assms, of block_index_cf]
    arg_cong [OF assms, of block_md_cf] arg_cong [OF assms, of top_confirmed_cf]
  by (simp_all add: db_of_def)

lemma commit_same_db:
  assumes "db_of st' = db_of st" "commit_batch ops st = (r, t)"
  shows "\<exists>t'. commit_batch ops st' = (r, t') \<and> db_of t' = db_of t"
  using assms(2) db_fields(1) [OF assms(1)] apply_batch_same_db [OF assms(1), of ops] assms(1)
  by (auto simp: commit_batch_def split: if_splits)

lemma load_loop_same_index:
  assumes "load_loop st queue chain leaves = Some r" "block_index_cf st' = block_index_cf st"
  shows "load_loop st' queue chain leaves = Some r"
  using assms
proof (induction arbitrary: st' rule: load_loop.raw_induct [rotated, consumes 1])
  case (1 load_loop' st queue chain leaves r)
  have same: "get_children_blockhashes st' h = get_children_blockhashes st h" for h
    using 1(3) by (simp add: get_children_blockhashes_def)
  from 1(2) show ?case
    by (subst load_loop.simps)
      (auto simp: same split: list.splits outcome.splits option.splits intro: 1(1) [OF _ 1(3)])
qed

lemma metadata_same_db: "db_of st' = db_of st \<Longrightarrow> get_block_metadata st' = get_block_metadata st"
  by (drule db_fields(3)) (simp add: get_block_metadata_def fun_eq_iff)

lemma init_same_db:
  assumes "db_of st' = db_of st" "init_chain_state_from_store g st = Some (r, t)"
  shows "\<exists>t'. init_chain_state_from_store g st' = Some (r, t') \<and> db_of t' = db_of t"
proof -
  have md: "get_block_metadata (set_genesis_blockhash g st') = get_block_metadata (set_genesis_blockhash g st)"
    using assms(1) by (intro metadata_same_db) simp
  obtain l where l: "load_chain (set_genesis_blockhash g st) g = Some l"
    using assms(2) by (auto simp: init_chain_state_from_store_def Let_def split: option.splits)
  then have "load_chain (set_genesis_blockhash g st') g = Some l"
    unfolding load_chain_def by (rule load_loop_same_index) (simp add: db_fields(2) [OF assms(1)])
  with assms l md show ?thesis
    by (auto simp: init_chain_state_from_store_def Let_def split: outcome.splits option.splits prod.splits if_splits)
qed

lemma genesis_same_db:
  assumes "db_of st' = db_of st" "write_genesis B g st = (r, t)"
  shows "\<exists>t'. write_genesis B g st' = (r, t') \<and> db_of t' = db_of t"
proof -
  obtain batch s1 where made: "setup_genesis B g [] st = (batch, s1)" by fastforce
  have "make_confirmed (set_genesis_blockhash h st') b k ops = make_confirmed (set_genesis_blockhash h st) b k ops"
    for h b k ops
    using db_fields(4) [OF assms(1)]
    by (simp add: make_confirmed_def get_top_confirmed_height_def set_genesis_blockhash_def)
  then obtain s1' where made': "setup_genesis B g [] st' = (batch, s1')" "db_of s1' = db_of s1"
    using made assms(1) by (auto simp: setup_genesis_def Let_def)
  then show ?thesis
    using assms(2) made commit_same_db [OF made'(2), of batch] by (simp add: write_genesis_def)
qed

text \<open>The accounting operations touch neither the memory nor the share tables.\<close>

lemma accounting_set_memory:
  "add_job ts n (st\<lparr>genesis_blockhash := g, chain_tip := t, tips := ls\<rparr>)
     = map_prod id (\<lambda>s. s\<lparr>genesis_blockhash := g, chain_tip := t, tips := ls\<rparr>) (add_job ts n st)"
  "add_user ms sec a (st\<lparr>genesis_blockhash := g, chain_tip := t, tips := ls\<rparr>)
     = map_prod id (\<lambda>s. s\<lparr>genesis_blockhash := g, chain_tip := t, tips := ls\<rparr>) (add_user ms sec a st)"
  "add_pplns_share ms p (st\<lparr>genesis_blockhash := g, chain_tip := t, tips := ls\<rparr>)
     = map_prod id (\<lambda>s. s\<lparr>genesis_blockhash := g, chain_tip := t, tips := ls\<rparr>) (add_pplns_share ms p st)"
  by (simp_all add: add_job_def add_user_def add_pplns_share_def Let_def split: prod.split cell.split)

lemma set_memory_same_db:
  assumes "db_of st' = db_of st"
    and "\<And>s g t ls. f (s\<lparr>genesis_blockhash := g, chain_tip := t, tips := ls\<rparr>)
       = map_prod id (\<lambda>s. s\<lparr>genesis_blockhash := g, chain_tip := t, tips := ls\<rparr>) (f s)"
    and "f st = (r, t)"
  shows "\<exists>t'. f st' = (r, t') \<and> db_of t' = db_of t"
proof -
  have "f st' = map_prod id (\<lambda>s. s\<lparr>genesis_blockhash := genesis_blockhash st', chain_tip := chain_tip st',
      tips := tips st'\<rparr>) (f st)"
    using arg_cong [OF same_db [OF assms(1)], of f] assms(2) by simp
  with assms(3) show ?thesis by (simp add: db_of_set)
qed

lemma handle_command_same_db:
  assumes "handle_command B clk c st = Some (r, t)" "db_of st' = db_of st"
  shows "\<exists>t'. handle_command B clk c st' = Some (r, t') \<and> db_of t' = db_of t"
proof (cases c)
  case (AddShare share height w m)
  with assms commit_same_db [OF assms(2)] show ?thesis
    by (fastforce simp: reply_done_def write_share_def split: prod.splits)
next
  case (SetupGenesis g)
  with assms genesis_same_db [OF assms(2)] show ?thesis
    by (fastforce simp: reply_done_def split: prod.splits)
next
  case (InitChainStateFromStore g)
  with assms init_same_db [OF assms(2)] show ?thesis
    by (fastforce simp: reply_done_def split: prod.splits option.splits)
next
  case (AddJob ts n)
  with assms set_memory_same_db [OF assms(2), of "add_job ts n", OF accounting_set_memory(1)] show ?thesis
    by (fastforce simp: reply_done_def split: prod.splits)
next
  case (AddUser a)
  with assms set_memory_same_db [OF assms(2), of "add_user (clock_millis clk) (clock_secs clk) a",
      OF accounting_set_memory(2)] show ?thesis
    by (fastforce split: prod.splits)
next
  case (AddPplnsShare p)
  with assms set_memory_same_db [OF assms(2), of "add_pplns_share (clock_millis clk) p",
      OF accounting_set_memory(3)] show ?thesis
    by (fastforce simp: reply_done_def split: prod.splits)
qed (use assms in auto)

lemma prune_set_memory:
  "prune_shares now ttl (st\<lparr>genesis_blockhash := g, chain_tip := t, tips := ls\<rparr>)
     = map_prod id (\<lambda>s. s\<lparr>genesis_blockhash := g, chain_tip := t, tips := ls\<rparr>) (prune_shares now ttl st)"
  "prune_jobs now ttl (st\<lparr>genesis_blockhash := g, chain_tip := t, tips := ls\<rparr>)
     = map_prod id (\<lambda>s. s\<lparr>genesis_blockhash := g, chain_tip := t, tips := ls\<rparr>) (prune_jobs now ttl st)"
  by (simp_all add: prune_shares_def prune_jobs_def Let_def)

lemma prune_same_db:
  assumes "f \<in> prune_updates cutoff" "db_of st' = db_of st"
  shows "db_of (f st') = db_of (f st)"
proof -
  have same: "db_of (snd (p st')) = db_of (snd (p st))"
    if "\<And>s g t ls. p (s\<lparr>genesis_blockhash := g, chain_tip := t, tips := ls\<rparr>)
       = map_prod id (\<lambda>s. s\<lparr>genesis_blockhash := g, chain_tip := t, tips := ls\<rparr>) (p s)"
    for p :: "share_store \<Rightarrow> (store_error, unit) outcome \<times> share_store"
    using set_memory_same_db [OF assms(2), of p, OF that, of "fst (p st)" "snd (p st)"] by auto
  have "db_of (snd (prune_shares now ttl st')) = db_of (snd (prune_shares now ttl st))"
    "db_of (snd (prune_jobs now ttl st')) = db_of (snd (prune_jobs now ttl st))" for now ttl
    by (rule same, rule prune_set_memory)+
  with assms(1) show ?thesis by (auto simp: prune_updates_def)
qed

subsection \<open>What an acknowledged write promises\<close>

text \<open>
  After a share was written, a block with its hash is stored; after a user was added, its
  address has the id of the reply; after a PPLNS share or a job was added whose time the background
  task has not reached, there is an entry for it.
\<close>

definition block_kept :: "btc \<Rightarrow> share_block \<Rightarrow> share_store \<Rightarrow> bool" where
  "block_kept B share st \<longleftrightarrow>
     (\<exists>stored. block_cf st (block_hash B share) = Stored stored
        \<and> header_block_hash B (ssb_header stored) = block_hash B share)"

definition acknowledged :: "btc \<Rightarrow> u64 \<Rightarrow> write_command \<Rightarrow> write_reply \<Rightarrow> share_store \<Rightarrow> bool" where
  "acknowledged B cutoff c r st \<longleftrightarrow>
     (case c of
        AddShare share height chain_work confirm_txs \<Rightarrow> r = Done (Ok ()) \<longrightarrow> block_kept B share st
      | SetupGenesis genesis \<Rightarrow> r = Done (Ok ()) \<longrightarrow> block_kept B genesis st
      | AddUser btcaddress \<Rightarrow> (\<forall>user_id. r = UserId (Ok user_id) \<longrightarrow> user_index_cf st btcaddress = Stored user_id)
      | AddPplnsShare share \<Rightarrow>
          r = Done (Ok ()) \<and> cutoff < pps_n_time share * 1000000 \<longrightarrow>
            (\<exists>i stored. (make_key (pps_n_time share * 1000000) (pps_user_id share) i, Stored stored) \<in> set (share_cf st))
      | AddJob timestamp serialized_notify \<Rightarrow>
          r = Done (Ok ()) \<and> cutoff < timestamp \<longrightarrow>
            (\<exists>stored. (be_bytes 8 (unat timestamp), Stored stored) \<in> set (job_cf st))
      | _ \<Rightarrow> True)"

text \<open>How the store may change under such a promise.\<close>

definition grows :: "btc \<Rightarrow> u64 \<Rightarrow> share_store \<Rightarrow> share_store \<Rightarrow> bool" where
  "grows B cutoff st st' \<longleftrightarrow>
     (\<forall>h stored. block_cf st h = Stored stored \<longrightarrow> header_block_hash B (ssb_header stored) = h \<longrightarrow>
        (\<exists>stored'. block_cf st' h = Stored stored' \<and> header_block_hash B (ssb_header stored') = h))
     \<and> (\<forall>a i. user_index_cf st a = Stored i \<longrightarrow> user_index_cf st' a = Stored i)
     \<and> (\<forall>t u i s. (make_key t u i, Stored s) \<in> set (share_cf st) \<longrightarrow> cutoff < t \<longrightarrow>
          (\<exists>s'. (make_key t u i, Stored s') \<in> set (share_cf st')))
     \<and> (\<forall>t n. (be_bytes 8 (unat (t :: u64)), Stored n) \<in> set (job_cf st) \<longrightarrow> cutoff < t \<longrightarrow>
          (\<exists>n'. (be_bytes 8 (unat t), Stored n') \<in> set (job_cf st')))"

lemma grows_acknowledged: "grows B cutoff st st' \<Longrightarrow> acknowledged B cutoff c r st \<Longrightarrow> acknowledged B cutoff c r st'"
  unfolding grows_def acknowledged_def block_kept_def by (cases c; simp; metis)

lemma grows_refl: "grows B cutoff st st"
  by (auto simp: grows_def)

lemma grows_same:
  assumes "block_cf st' = block_cf st" "user_index_cf st' = user_index_cf st"
    "share_cf st' = share_cf st" "job_cf st' = job_cf st"
  shows "grows B cutoff st st'"
  using assms by (auto simp: grows_def)

lemma table_put_member: "(k, v) \<in> set (table_put k v t)"
  by (induction k v t rule: table_put.induct) auto

lemma table_put_keeps: "(k', v') \<in> set t \<Longrightarrow> (k', v') \<in> set (table_put k v t) \<or> k' = k"
  by (induction k v t rule: table_put.induct) auto

lemma table_put_grows:
  "(k', Stored s) \<in> set t \<Longrightarrow> \<exists>s'. (k', Stored s') \<in> set (table_put k (Stored v) t)"
  using table_put_keeps [of k' "Stored s" t k "Stored v"] table_put_member [of k "Stored v" t] by auto

lemma prune_grows:
  assumes "f \<in> prune_updates cutoff"
  shows "grows B cutoff st (f st)"
proof -
  have key: "\<not> t < saturating_add c 1" if "cutoff < t" "c \<le> cutoff" for t c :: u64
  proof -
    have "c < t" using that by simp
    then have "c \<noteq> - 1" by auto
    then show ?thesis using saturating_add_1 [of c t] \<open>c < t\<close> by simp
  qed
  have share: "\<not> make_key t u i < make_key (saturating_add c 1) 0 0" if "cutoff < t" "c \<le> cutoff" for t c u i
    using key [OF that] by (auto simp: make_key_lower linorder_not_less)
  have job: "\<not> be_bytes 8 (unat t) < be_bytes 8 (unat (saturating_add c 1))" if "cutoff < t" "c \<le> cutoff" for t c :: u64
    using key [OF that] by simp
  have "grows B cutoff st (snd (prune_shares now ttl st))" "grows B cutoff st (snd (prune_jobs now ttl st))"
    if "saturating_sub now ttl \<le> cutoff" for now ttl
    using share [OF _ that] job [OF _ that]
    by (auto simp: grows_def prune_shares_def prune_jobs_def Let_def table_delete_range_def)
  with assms show ?thesis by (auto simp: prune_updates_def)
qed

lemma batch_grows:
  assumes "\<And>h b. PutBlock h b \<in> set ops \<Longrightarrow> header_block_hash B (ssb_header b) = h"
  shows "grows B cutoff st (apply_batch ops st)"
proof -
  have acc: "share_cf (apply_batch ops st) = share_cf st" "job_cf (apply_batch ops st) = job_cf st"
    "user_index_cf (apply_batch ops st) = user_index_cf st"
    using apply_batch_accounting [of ops st] by (simp_all add: accounting_store.defs)
  have "\<exists>b'. block_cf (apply_batch ops st) h = Stored b' \<and> header_block_hash B (ssb_header b') = h"
    if "block_cf st h = Stored b" "header_block_hash B (ssb_header b) = h" for h b
    using that assms
  proof (induction ops arbitrary: st b)
    case (Cons op ops)
    show ?case
    proof (cases "is_PutBlock op")
      case True
      then obtain h' b' where op: "op = PutBlock h' b'" by (auto simp: is_PutBlock_def)
      with Cons.IH [of "apply_op op st"] Cons.prems show ?thesis by (cases "h' = h") auto
    next
      case False
      with Cons.IH [of "apply_op op st"] Cons.prems show ?thesis by (simp add: frame_op)
    qed
  qed simp
  with acc show ?thesis by (auto simp: grows_def)
qed

lemma commit_grows:
  assumes "\<And>h b. PutBlock h b \<in> set ops \<Longrightarrow> header_block_hash B (ssb_header b) = h"
    and "commit_batch ops st = (r, t)"
  shows "grows B cutoff st t"
  using batch_grows [OF assms(1), where st = st] assms(2)
  by (auto simp: commit_batch_def grows_refl split: if_splits)

lemma share_batch_blocks:
  assumes "PutBlock h b \<in> set (store_add_share B share height w m [])"
  shows "h = block_hash B share" "header_block_hash B (ssb_header b) = h"
proof -
  have "PutBlock h b \<notin> set (concat (map (tx_ops B m) (sb_transactions share)))"
    using all_tx_ops_kinds [of "PutBlock h b"] by auto
  with assms show "h = block_hash B share" "header_block_hash B (ssb_header b) = h"
    by (auto simp: store_add_share_eq index_ops_def Let_def to_storage_share_block_def block_hash_def)
qed

lemma genesis_batch_blocks:
  assumes "PutBlock h b \<in> set (fst (setup_genesis B genesis [] st))"
  shows "header_block_hash B (ssb_header b) = h"
  using assms share_batch_blocks [of h b B genesis]
  by (auto simp: setup_genesis_def Let_def make_confirmed_def set_top_confirmed_height_def split: if_splits)

lemmas memory_ops = set_chain_tip_def set_genesis_blockhash_def update_tips_def add_tip_def remove_tip_def

lemma accounting_grows:
  "grows B cutoff st (snd (add_job ts n st))" "grows B cutoff st (snd (add_user ms sec a st))"
  "grows B cutoff st (snd (add_pplns_share ms p st))"
proof -
  show "grows B cutoff st (snd (add_job ts n st))" "grows B cutoff st (snd (add_pplns_share ms p st))"
    using table_put_grows by (auto simp: grows_def add_job_def add_pplns_share_def Let_def split: prod.split)
  show "grows B cutoff st (snd (add_user ms sec a st))"
    by (auto simp: grows_def add_user_def Let_def split: prod.split cell.split)
qed

lemma init_same_tables:
  assumes "init_chain_state_from_store g st = Some (r, t)"
  shows "block_cf t = block_cf st" "user_index_cf t = user_index_cf st" "share_cf t = share_cf st"
    "job_cf t = job_cf st"
  using assms
  by (auto simp: init_chain_state_from_store_def Let_def memory_ops split: outcome.splits option.splits prod.splits if_splits)

lemma genesis_grows: "grows B cutoff st (snd (write_genesis B genesis st))"
proof -
  obtain batch st1 where made: "setup_genesis B genesis [] st = (batch, st1)" by fastforce
  have "grows B cutoff st1 (snd (commit_batch batch st1))"
    by (rule commit_grows [OF _ prod.collapse [symmetric]])
      (use genesis_batch_blocks [of _ _ B genesis st] made in auto)
  moreover have "block_cf st1 = block_cf st" "user_index_cf st1 = user_index_cf st" "share_cf st1 = share_cf st"
    "job_cf st1 = job_cf st"
    using made by (auto simp: setup_genesis_def Let_def memory_ops)
  ultimately show ?thesis using made by (simp add: write_genesis_def grows_def)
qed

lemma handle_command_grows:
  assumes "handle_command B clk c st = Some (r, t)"
  shows "grows B cutoff st t"
proof (cases c)
  case (AddShare share height w m)
  with assms commit_grows [OF share_batch_blocks(2)] show ?thesis
    by (auto simp: reply_done_def write_share_def split: prod.splits)
next
  case (SetupGenesis g)
  with assms genesis_grows [of B cutoff st g] show ?thesis by (auto simp: reply_done_def split: prod.splits)
next
  case (InitChainStateFromStore g)
  with assms show ?thesis
    by (auto simp: reply_done_def init_same_tables intro: grows_same split: prod.splits option.splits)
next
  case (AddJob ts n)
  with assms accounting_grows(1) [of B cutoff st ts n] show ?thesis by (auto simp: reply_done_def split: prod.splits)
next
  case (AddUser a)
  with assms accounting_grows(2) [of B cutoff st "clock_millis clk" "clock_secs clk" a] show ?thesis
    by (auto split: prod.splits)
next
  case (AddPplnsShare p)
  with assms accounting_grows(3) [of B cutoff st "clock_millis clk" p] show ?thesis
    by (auto simp: reply_done_def split: prod.splits)
qed (use assms in \<open>auto simp: memory_ops intro: grows_same\<close>)

lemma stored_block_hash [simp]: "header_block_hash B (ssb_header (to_storage_share_block B share)) = block_hash B share"
  by (simp add: to_storage_share_block_def block_hash_def)

lemma share_batch_writes:
  "block_cf (apply_batch (store_add_share B share height w m []) st) (block_hash B share)
     = Stored (to_storage_share_block B share)"
  by (simp add: store_add_share_eq index_ops_effect)

lemma genesis_writes:
  assumes "write_genesis B genesis st = (Ok u, t)"
  shows "block_cf t (block_hash B genesis) = Stored (to_storage_share_block B genesis)"
proof -
  define extra where "extra =
    (if extends_top (get_top_confirmed_height (set_genesis_blockhash (block_hash B genesis) st)) 0
     then [PutConfirmed 0 (block_hash B genesis), PutTopConfirmed 0] else [])"
  have "fst (setup_genesis B genesis [] st)
      = store_add_share B genesis 0 (get_work B (sb_header genesis)) True [] @ extra"
    by (simp add: setup_genesis_def Let_def make_confirmed_def set_top_confirmed_height_def extra_def)
  moreover have "\<forall>op \<in> set extra. \<not> is_PutBlock op" by (auto simp: extra_def)
  ultimately show ?thesis
    using assms by (auto simp: write_genesis_def commit_batch_def share_batch_writes frame_batch
        split: prod.splits if_splits)
qed

lemma handle_command_acknowledged:
  assumes "handle_command B clk c st = Some (Some r, t)"
  shows "acknowledged B cutoff c r t"
proof (cases c)
  case (AddShare share height w m)
  with assms show ?thesis
    by (auto simp: acknowledged_def block_kept_def reply_done_def write_share_def commit_batch_def
        share_batch_writes split: prod.splits if_splits)
next
  case (SetupGenesis genesis)
  with assms show ?thesis
    by (auto simp: acknowledged_def block_kept_def reply_done_def map_err_Ok_iff dest!: genesis_writes
        split: prod.splits)
next
  case (AddUser a)
  with assms show ?thesis
    by (auto simp: acknowledged_def add_user_def Let_def map_err_Ok_iff split: prod.splits cell.splits if_splits)
next
  case (AddPplnsShare p)
  with assms table_put_member show ?thesis
    by (fastforce simp: acknowledged_def reply_done_def add_pplns_share_def Let_def split: prod.splits if_splits)
next
  case (AddJob ts n)
  with assms table_put_member show ?thesis
    by (fastforce simp: acknowledged_def reply_done_def add_job_def split: prod.splits if_splits)
qed (simp_all add: acknowledged_def)

interpretation store_writer: durable_actor "handle_command B" memory_updates "prune_updates cutoff" db_of
  "acknowledged B cutoff" for B cutoff
proof
  show "db_of (f s) = db_of s" if "f \<in> memory_updates" for f s
    using that by (auto simp: memory_updates_def)
  show "acknowledged B cutoff c r (f s)" if "acknowledged B cutoff c r s" "f \<in> memory_updates \<union> prune_updates cutoff" for c r s f
    using that grows_acknowledged [OF prune_grows that(1)] grows_acknowledged [OF grows_same that(1)]
    by (auto simp: memory_updates_def memory_ops)
  show "acknowledged B cutoff c r t" if "acknowledged B cutoff c r s" "handle_command B k c' s = Some (r', t)" for c r s k c' r' t
    using grows_acknowledged [OF handle_command_grows that(1)] that(2) by blast
qed (rule prune_same_db handle_command_same_db handle_command_acknowledged; assumption)+

lemma handle_command_returns:
  "(\<forall>g. c \<noteq> InitChainStateFromStore g) \<Longrightarrow> handle_command B clk c st \<noteq> None"
  by (cases c) (auto simp: reply_done_def split: prod.split)

section \<open>Properties\<close>


text \<open>
  No write is forgotten. As long as the writer runs, the steps can be continued so that
  every command sent so far has been served, when none of the queued ones walks a cyclic index.
\<close>

theorem queued_writes_served:
  assumes "(writer_step B cutoff)\<^sup>*\<^sup>* (actor_start st0 n) w" "ac_running w"
    and "\<forall>(i, c) \<in> set (ac_queue w). \<forall>g. c \<noteq> InitChainStateFromStore g"
  shows "\<exists>w' events replies st. (writer_step B cutoff)\<^sup>*\<^sup>* w w' \<and> ac_running w' \<and> ac_queue w' = []
    \<and> served_commands events = ac_sent w \<and> run_events (handle_command B) events st0 = Some (replies, st)
    \<and> db_of (ac_state w') = db_of st \<and> (\<forall>i < length (ac_sent w). ac_replies w' i = replies ! i)"
proof -
  have "\<exists>k. handle_command B k c s \<noteq> None" if "(i, c) \<in> set (ac_queue w)" for i c s
    using handle_command_returns [of c B _ s] assms(3) that by fastforce
  then have "\<exists>w'. (writer_step B cutoff)\<^sup>*\<^sup>* w w' \<and> ac_queue w' = [] \<and> ac_running w' \<and> ac_sent w' = ac_sent w"
    by (rule store_writer.drains [OF assms(2)])
  then obtain w' where
    w': "(writer_step B cutoff)\<^sup>*\<^sup>* w w'" "ac_queue w' = []" "ac_running w'" "ac_sent w' = ac_sent w" by blast
  obtain events replies st where run: "run_events (handle_command B) events st0 = Some (replies, st)"
    "db_of (ac_state w') = db_of st" "\<forall>i. ac_replies w' i = (if i < length replies then replies ! i else None)"
    "ac_sent w' = served_commands events @ map snd (ac_queue w')"
    using store_writer.serialized [OF rtranclp_trans [OF assms(1) w'(1)]]
    unfolding store_writer.serial_def by blast
  then have "served_commands events = ac_sent w" "length replies = length (ac_sent w)"
    using w'(2,4) run_events_length [OF run(1)] by simp_all
  with w' run show ?thesis by (metis (no_types, lifting))
qed

section \<open>Instances\<close>

definition one_sent :: "write_command \<Rightarrow> writer" where
  "one_sent c = (actor_start empty_store 1)\<lparr>ac_queue := [(0, c)], ac_sent := [c]\<rparr>"

lemma one_sent_reached: "(writer_step B cutoff)\<^sup>*\<^sup>* (actor_start empty_store 1) (one_sent c)"
  using actor_step.send [of "actor_start empty_store 1 :: writer" "handle_command B" "memory_updates \<union> prune_updates cutoff" c]
  by (simp add: actor_start_def one_sent_def r_into_rtranclp)

text \<open>A share is sent and served, and then the background task prunes.\<close>

definition served_and_pruned :: "btc \<Rightarrow> share_block \<Rightarrow> writer" where
  "served_and_pruned B share =
     (actor_start (snd (prune_shares 95000000 5000000 (snd (write_share B share 1 1 True empty_store)))) 1)
       \<lparr>ac_sent := [AddShare share 1 1 True], ac_replies := (\<lambda>_. None)(0 := Some (Done (Ok ())))\<rparr>"

lemma served_and_pruned_reached:
  "(writer_step B 90000000)\<^sup>*\<^sup>* (actor_start empty_store 1) (served_and_pruned B share)"
proof -
  let ?c = "AddShare share 1 1 True" and ?direct = "memory_updates \<union> prune_updates 90000000"
  let ?w = "(one_sent ?c)\<lparr>ac_state := snd (write_share B share 1 1 True empty_store), ac_queue := [],
    ac_replies := (ac_replies (one_sent ?c))(0 := Some (Done (Ok ())))\<rparr>"
  have handled: "handle_command B clk ?c empty_store
      = Some (Some (Done (Ok ())), snd (write_share B share 1 1 True empty_store))" for clk
    by (simp add: reply_done_def write_share_def commit_ok)
  have "writer_step B 90000000 (one_sent ?c) ?w"
    by (rule actor_step.serve [where k = "\<lparr>clock_millis = 0, clock_secs = 0\<rparr>"])
      (use handled in \<open>simp_all add: one_sent_def actor_start_def del: handle_command.simps\<close>)
  moreover have "writer_step B 90000000 ?w (served_and_pruned B share)"
  proof -
    have "(\<lambda>st. snd (prune_shares 95000000 5000000 st)) \<in> ?direct"
      unfolding prune_updates_def
      by (intro UnI2 UnI1 CollectI exI [of _ 95000000] exI [of _ 5000000]) (simp add: saturating_sub_def)
    from actor_step.direct_update [OF this, of "handle_command B" ?w] show ?thesis
      by (simp add: served_and_pruned_def one_sent_def actor_start_def)
  qed
  ultimately show ?thesis using one_sent_reached [of B 90000000 ?c] by (meson rtranclp.rtrancl_into_rtrancl)
qed


theorem queued_writes_served_witness:
  "\<exists>w'. (writer_step sample_btc 0)\<^sup>*\<^sup>* (one_sent (AddTip 5)) w' \<and> ac_queue w' = []"
  using queued_writes_served [OF one_sent_reached [of sample_btc 0 "AddTip 5"]]
  by (force simp: one_sent_def actor_start_def)

end
