(* ===== verification/Chain_Handle.thy ===== *)
theory Chain_Handle
  imports Store_Writer
begin

text \<open>
  The chain store handle (\<open>shares/chain/chain_store_handle.rs\<close>): heights and chain work
  of new shares, reorganisation, locators and depths; and the validation of shares that arrive
  from peers (\<open>shares/validation/mod.rs\<close>). The handle asks the store writer for its writes and
  reads the store directly. Work is added without an overflow check, as the bitcoin crate does
  in a release build.
\<close>

section \<open>Reading the chain\<close>

definition MAX_UNCLE_DEPTH :: nat where "MAX_UNCLE_DEPTH = 3"

definition PPLNS_WINDOW :: u64 where "PPLNS_WINDOW = 2160"

definition MIN_CONFIRMATION_DEPTH :: nat where "MIN_CONFIRMATION_DEPTH = 100"

definition get_tip_height :: "share_store \<Rightarrow> (store_error, u32 option) outcome" where
  "get_tip_height st =
     and_then (get_block_metadata st (chain_tip st)) (\<lambda>metadata. Ok (bm_expected_height metadata))"

text \<open>The heights of a locator: ten steps of one, then steps that double.\<close>

partial_function (option) locator_loop :: "u32 \<Rightarrow> u32 \<Rightarrow> u32 list \<Rightarrow> u32 list option" where
  "locator_loop height step indexes =
     (if 0 < height then
        (let step' = (if 10 \<le> length indexes then step * 2 else step)
         in locator_loop (saturating_sub height step') step' (indexes @ [height]))
      else Some indexes)"

definition build_locator :: "share_store \<Rightarrow> (store_error, blockhash list) outcome option" where
  "build_locator st =
     (case get_tip_height st of
        Err e \<Rightarrow> Some (Err e)
      | Panic \<Rightarrow> Some Panic
      | Ok None \<Rightarrow> Some (Ok [])
      | Ok (Some tip_height) \<Rightarrow>
          (if tip_height = 0 then Some (Ok [])
           else case locator_loop tip_height 1 [] of
                  None \<Rightarrow> None
                | Some indexes \<Rightarrow> Some (Ok (concat (map (get_blockhashes_for_height st) (indexes @ [0]))))))"

definition get_depth :: "share_store \<Rightarrow> blockhash \<Rightarrow> nat option" where
  "get_depth st blockhash =
     (let tip = chain_tip st
      in if tip = blockhash then Some 0
         else case (get_block_metadata st tip, get_block_metadata st blockhash) of
                (Ok tip_metadata, Ok block_metadata) \<Rightarrow>
                  (case (bm_expected_height tip_metadata, bm_expected_height block_metadata) of
                     (Some tip_height, Some block_height) \<Rightarrow>
                       (if tip_height \<ge> block_height then Some (unat (tip_height - block_height)) else None)
                   | _ \<Rightarrow> None)
              | _ \<Rightarrow> None)"

definition get_chain_tip_and_uncles :: "share_store \<Rightarrow> blockhash \<times> blockhash list" where
  "get_chain_tip_and_uncles st =
     (let uncles = filter (\<lambda>uncle. (case get_depth st uncle of Some d \<Rightarrow> d | None \<Rightarrow> MAX_UNCLE_DEPTH + 1) \<le> MAX_UNCLE_DEPTH)
                     (tips st)
      in (chain_tip st, hs_remove (chain_tip st) uncles))"

definition get_current_target :: "share_store \<Rightarrow> (store_error, u32) outcome" where
  "get_current_target st =
     (case get_share_headers st [chain_tip st] of
        [] \<Rightarrow> Err (Message ''No tips found'')
      | header # _ \<Rightarrow> Ok (sh_bits header))"

definition setup_share_for_chain :: "share_store \<Rightarrow> share_block \<Rightarrow> share_block" where
  "setup_share_for_chain st share =
     (case get_chain_tip_and_uncles st of (tip, uncles) \<Rightarrow>
        share\<lparr>sb_header := (sb_header share)\<lparr>sh_prev_share_blockhash := tip, sh_uncles := uncles\<rparr>\<rparr>)"

definition chain_is_confirmed :: "btc \<Rightarrow> share_store \<Rightarrow> share_block \<Rightarrow> bool" where
  "chain_is_confirmed B st share =
     (sh_prev_share_blockhash (sb_header share) = 0
      \<or> MIN_CONFIRMATION_DEPTH < (case get_depth st (block_hash B share) of Some d \<Rightarrow> d | None \<Rightarrow> 0))"

section \<open>Adding shares\<close>

datatype chain_error = StoreFailure store_error | WriterFailure handle_error

definition work_over_pplns_window :: "btc \<Rightarrow> share_store \<Rightarrow> blockhash \<Rightarrow> (store_error, work) outcome" where
  "work_over_pplns_window B st start_blockhash =
     and_then (get_shares st (get_dag_for_depth B st start_blockhash PPLNS_WINDOW)) (\<lambda>chain.
       Ok (fold (\<lambda>(_, share) acc. acc + get_work B (sb_header share)) chain 0))"

definition leave_tips :: "share_block \<Rightarrow> share_store \<Rightarrow> share_store" where
  "leave_tips share st =
     fold remove_tip (sh_uncles (sb_header share)) (remove_tip (sh_prev_share_blockhash (sb_header share)) st)"

text \<open>Whether the new share is to become the chain tip, by which work the two branches are compared.\<close>

definition better_chain :: "btc \<Rightarrow> share_block \<Rightarrow> work \<Rightarrow> share_store \<Rightarrow> (store_error, bool) outcome" where
  "better_chain B share new_chain_work st =
     and_then (get_total_work st) (\<lambda>current_total_work.
       case get_common_ancestor B st (block_hash B share) (chain_tip st) of
         Some common_ancestor \<Rightarrow> Ok (new_chain_work > current_total_work)
       | None \<Rightarrow>
           and_then (work_over_pplns_window B st (chain_tip st)) (\<lambda>old_chain_work.
           and_then (work_over_pplns_window B st (block_hash B share)) (\<lambda>new_chain_work_calc.
             Ok ((if new_chain_work_calc = 0 then get_work B (sb_header share) else new_chain_work_calc)
                 > old_chain_work))))"

definition reorg :: "btc \<Rightarrow> share_block \<Rightarrow> work \<Rightarrow> share_store \<Rightarrow> (chain_error, unit) outcome \<times> share_store" where
  "reorg B share new_chain_work st =
     (case better_chain B share new_chain_work st of
        Ok better \<Rightarrow>
          (let st = (if better then set_chain_tip (block_hash B share) st else st);
               st = add_tip (block_hash B share) st
           in (Ok (), leave_tips share st))
      | Err e \<Rightarrow> (Err (StoreFailure e), st)
      | Panic \<Rightarrow> (Panic, st))"

definition new_height_and_work :: "btc \<Rightarrow> share_block \<Rightarrow> share_store \<Rightarrow> u32 \<times> work" where
  "new_height_and_work B share st =
     (case get_block_metadata st (sh_prev_share_blockhash (sb_header share)) of
        Ok prev_metadata \<Rightarrow>
          ((case bm_expected_height prev_metadata of Some h \<Rightarrow> h | None \<Rightarrow> 0) + 1,
           bm_chain_work prev_metadata + get_work B (sb_header share))
      | _ \<Rightarrow> (1, get_work B (sb_header share)))"

definition chain_add_share ::
  "btc \<Rightarrow> bool \<Rightarrow> share_block \<Rightarrow> bool \<Rightarrow> share_store \<Rightarrow> (chain_error, unit) outcome \<times> share_store" where
  "chain_add_share B alive share confirm_txs st =
     (if tips st = [] then
        (case handle_setup_genesis B alive share st of (result, st') \<Rightarrow> (map_err WriterFailure result, st'))
      else
        (case new_height_and_work B share st of (new_height, new_chain_work) \<Rightarrow>
           (case handle_add_share B alive share new_height new_chain_work confirm_txs st of
              (Ok _, st') \<Rightarrow> reorg B share new_chain_work st'
            | (Err e, st') \<Rightarrow> (Err (WriterFailure e), st')
            | (Panic, st') \<Rightarrow> (Panic, st'))))"

definition init_or_setup_genesis ::
  "btc \<Rightarrow> bool \<Rightarrow> share_block \<Rightarrow> share_store \<Rightarrow> ((chain_error, unit) outcome \<times> share_store) option" where
  "init_or_setup_genesis B alive genesis_block st =
     (case get_share st (header_block_hash B (sb_header genesis_block)) of
        Ok None \<Rightarrow> Some (chain_add_share B alive genesis_block True st)
      | Ok (Some _) \<Rightarrow>
          map_option (\<lambda>(result, st'). (map_err WriterFailure result, st'))
            (handle_init_chain_state alive (header_block_hash B (sb_header genesis_block)) st)
      | Err e \<Rightarrow> Some (Err (StoreFailure e), st)
      | Panic \<Rightarrow> Some (Panic, st))"

section \<open>Validation\<close>

definition MAX_TIME_DIFF :: u64 where "MAX_TIME_DIFF = 60"

definition validate_timestamp :: "u64 \<Rightarrow> share_block \<Rightarrow> (string, unit) outcome" where
  "validate_timestamp current_time share =
     (let block_timestamp = ucast (bh_time (sh_bitcoin_header (sb_header share)));
          time_diff = abs_diff current_time block_timestamp
      in if time_diff > MAX_TIME_DIFF then Err ''Share timestamp is too far from current time'' else Ok ())"

text \<open>\<open>get_share(..).is_none()\<close>, whose panics remain.\<close>

definition require_share :: "share_store \<Rightarrow> string \<Rightarrow> blockhash \<Rightarrow> (string, unit) outcome" where
  "require_share st message hash =
     (case get_share st hash of
        Ok (Some _) \<Rightarrow> Ok ()
      | Ok None \<Rightarrow> Err message
      | Err _ \<Rightarrow> Err message
      | Panic \<Rightarrow> Panic)"

definition validate_prev_share_blockhash :: "share_store \<Rightarrow> share_block \<Rightarrow> (string, unit) outcome" where
  "validate_prev_share_blockhash st share =
     require_share st ''Prev share blockhash not found in store'' (sh_prev_share_blockhash (sb_header share))"

fun all_uncles :: "share_store \<Rightarrow> blockhash list \<Rightarrow> (string, unit) outcome" where
  "all_uncles st [] = Ok ()"
| "all_uncles st (uncle # uncles) =
     and_then (require_share st ''Uncle not found in store'' uncle) (\<lambda>_. all_uncles st uncles)"

definition validate_uncles :: "share_store \<Rightarrow> share_block \<Rightarrow> (string, unit) outcome" where
  "validate_uncles st share =
     (if length (sh_uncles (sb_header share)) > MAX_UNCLES then Err ''Too many uncles''
      else all_uncles st (sh_uncles (sb_header share)))"

definition validate :: "u64 \<Rightarrow> share_store \<Rightarrow> share_block \<Rightarrow> (string, unit) outcome" where
  "validate current_time st share =
     and_then (map_err (\<lambda>e. ''Share timestamp validation failed: '' @ e) (validate_timestamp current_time share)) (\<lambda>_.
     and_then (map_err (\<lambda>e. ''Share prev_share_blockhash validation failed: '' @ e)
                 (validate_prev_share_blockhash st share)) (\<lambda>_.
     and_then (map_err (\<lambda>e. ''Share uncles validation failed: '' @ e) (validate_uncles st share)) (\<lambda>_. Ok ())))"

section \<open>Lemmas: locators\<close>

text \<open>A strictly falling list of heights that starts at \<open>h\<close>.\<close>

definition falling_from :: "u32 \<Rightarrow> u32 list \<Rightarrow> bool" where
  "falling_from h hs \<longleftrightarrow>
     sorted_wrt (>) hs \<and> (\<forall>x \<in> set hs. 0 < x \<and> x \<le> h) \<and> (0 < h \<longrightarrow> hs \<noteq> [] \<and> hd hs = h)"

lemma falling_from_Cons:
  assumes "0 < h" "0 < s" "falling_from (saturating_sub h s) hs"
  shows "falling_from h (h # hs)"
proof -
  have "saturating_sub h s < h"
    using assms(1,2) by (simp add: word_less_nat_alt)
  with assms show ?thesis by (auto simp: falling_from_def)
qed

lemma double_step:
  assumes "j < 31"
  shows "unat ((2 ^ j :: u32) * 2) = 2 ^ Suc j"
proof -
  have "(2::nat) ^ Suc j < 2 ^ 32" using assms by (intro power_strict_increasing) simp_all
  moreover have "(2 ^ j :: u32) * 2 = word_of_nat (2 ^ Suc j)" by simp
  ultimately show ?thesis by (simp only: unat_of_nat) simp
qed

lemma locator_doubling:
  assumes "j \<le> 31" "unat h + 2 ^ Suc j \<le> 2 ^ 32 \<or> h = 0" "10 \<le> length indexes"
  shows "\<exists>more. locator_loop h (2 ^ j) indexes = Some (indexes @ more) \<and> length more \<le> 31 - j \<and> falling_from h more"
  using assms
proof (induction "31 - j" arbitrary: j h indexes)
  case 0
  then have "j = 31" by simp
  with 0 have "h = 0" by (auto simp: unat_eq_zero)
  then show ?case by (subst locator_loop.simps) (simp add: falling_from_def)
next
  case (Suc n)
  show ?case
  proof (cases "h = 0")
    case True
    then show ?thesis by (subst locator_loop.simps) (simp add: falling_from_def)
  next
    case False
    define s where s: "s = (2 ^ j * 2 :: u32)"
    have j: "j < 31" "n = 31 - Suc j" using Suc.hyps(2) by auto
    have us: "unat s = 2 ^ Suc j" and pow: "(2 ^ Suc j :: u32) = s"
      using double_step [OF j(1)] by (simp_all add: s)
    have "unat (saturating_sub h s) + 2 ^ Suc (Suc j) \<le> 2 ^ 32 \<or> saturating_sub h s = 0"
    proof (cases "unat s < unat h")
      case True
      then show ?thesis using Suc.prems(2) False us by simp
    next
      case no: False
      then have "unat (saturating_sub h s) = 0" by simp
      then show ?thesis by (simp only: unat_eq_zero) simp
    qed
    with Suc.hyps(1) [of "Suc j" "saturating_sub h s" "indexes @ [h]", unfolded pow] j Suc.prems(3)
    obtain more where more: "locator_loop (saturating_sub h s) s (indexes @ [h]) = Some ((indexes @ [h]) @ more)"
      "length more \<le> 31 - Suc j" "falling_from (saturating_sub h s) more"
      by auto
    have "0 < s" using us by (simp add: word_less_nat_alt)
    with False more(3) have "falling_from h (h # more)" by (intro falling_from_Cons) (simp_all add: word_neq_0_conv)
    moreover have "locator_loop h (2 ^ j) indexes = Some (indexes @ h # more)"
      using False more(1) Suc.prems(3)
      by (subst locator_loop.simps) (simp add: word_neq_0_conv [symmetric] Let_def s [symmetric])
    ultimately show ?thesis using more(2) j by (intro exI [of _ "h # more"]) simp
  qed
qed

lemma locator_ones:
  assumes "length indexes \<le> 10" "unat h + length indexes < 2 ^ 32"
  shows "\<exists>more. locator_loop h 1 indexes = Some (indexes @ more)
    \<and> length more \<le> (10 - length indexes) + 31 \<and> falling_from h more"
  using assms
proof (induction "10 - length indexes" arbitrary: h indexes)
  case 0
  then have "length indexes = 10" by simp
  with 0 locator_doubling [of 0 h indexes] show ?case by auto
next
  case (Suc n)
  show ?case
  proof (cases "h = 0")
    case True
    then show ?thesis by (subst locator_loop.simps) (simp add: falling_from_def)
  next
    case False
    then have "0 < unat h" by (simp add: unat_gt_0 word_neq_0_conv)
    moreover have "n = 10 - length (indexes @ [h])" "length (indexes @ [h]) \<le> 10" using Suc.hyps(2) by auto
    moreover have "unat (saturating_sub h 1) + length (indexes @ [h]) < 2 ^ 32" using Suc.prems(2) \<open>0 < unat h\<close> by simp
    ultimately obtain more where more: "locator_loop (saturating_sub h 1) 1 (indexes @ [h]) = Some ((indexes @ [h]) @ more)"
      "length more \<le> (10 - length (indexes @ [h])) + 31" "falling_from (saturating_sub h 1) more"
      using Suc.hyps(1) [of "indexes @ [h]" "saturating_sub h 1"] by blast
    have "falling_from h (h # more)" using False more(3) by (intro falling_from_Cons) (simp_all add: word_neq_0_conv)
    moreover have "locator_loop h 1 indexes = Some (indexes @ h # more)"
      using False more(1) Suc.hyps(2) by (subst locator_loop.simps) (auto simp: word_neq_0_conv [symmetric] Let_def)
    ultimately show ?thesis using more(2) Suc.hyps(2) by (intro exI [of _ "h # more"]) simp
  qed
qed

section \<open>Lemmas: adding shares\<close>

lemma memory_chain_tip [simp]:
  "chain_tip (add_tip h st) = chain_tip st" "chain_tip (set_chain_tip h st) = h"
  "chain_tip (remove_tip h st) = chain_tip st"
  "tips (set_chain_tip h st) = tips st" "set (tips (add_tip h st)) = insert h (set (tips st))"
  "set (tips (remove_tip h st)) = set (tips st) - {h}"
  by (simp_all add: add_tip_def set_chain_tip_def remove_tip_def)

lemma fold_remove_tip:
  "set (tips (fold remove_tip us st)) = set (tips st) - set us"
  "chain_tip (fold remove_tip us st) = chain_tip st"
  "db_of (fold remove_tip us st) = db_of st"
  by (induction us arbitrary: st) auto

lemma leave_tips_effect:
  "set (tips (leave_tips share st))
     = set (tips st) - insert (sh_prev_share_blockhash (sb_header share)) (set (sh_uncles (sb_header share)))"
  "chain_tip (leave_tips share st) = chain_tip st"
  "db_of (leave_tips share st) = db_of st"
  by (auto simp: leave_tips_def fold_remove_tip)

lemma reorg_result:
  assumes "reorg B share w st = (r, st')"
  shows "db_of st' = db_of st"
    and "r = Ok () \<Longrightarrow> \<exists>better. better_chain B share w st = Ok better
      \<and> chain_tip st' = (if better then block_hash B share else chain_tip st)
      \<and> set (tips st') = insert (block_hash B share) (set (tips st))
           - insert (sh_prev_share_blockhash (sb_header share)) (set (sh_uncles (sb_header share)))"
proof -
  let ?st = "\<lambda>b. leave_tips share (add_tip (block_hash B share) (if b then set_chain_tip (block_hash B share) st else st))"
  have db: "db_of (?st b) = db_of st" for b by (cases b) (simp_all add: leave_tips_effect)
  have eff: "chain_tip (?st b) = (if b then block_hash B share else chain_tip st)"
    "set (tips (?st b)) = insert (block_hash B share) (set (tips st))
           - insert (sh_prev_share_blockhash (sb_header share)) (set (sh_uncles (sb_header share)))" for b
    by (cases b, simp_all add: leave_tips_effect)+
  show "db_of st' = db_of st"
    using assms db by (cases "better_chain B share w st") (auto simp: reorg_def Let_def)
  show "\<exists>better. better_chain B share w st = Ok better
      \<and> chain_tip st' = (if better then block_hash B share else chain_tip st)
      \<and> set (tips st') = insert (block_hash B share) (set (tips st))
           - insert (sh_prev_share_blockhash (sb_header share)) (set (sh_uncles (sb_header share)))"
    if "r = Ok ()"
  proof (cases "better_chain B share w st")
    case (Ok b)
    then have "st' = ?st b" using assms by (simp add: reorg_def Let_def)
    with Ok eff [of b] show ?thesis by blast
  qed (use assms that in \<open>simp_all add: reorg_def\<close>)
qed

lemma write_share_effect:
  assumes "\<not> read_only st" "write_share B share height w c st = (r, st')"
  shows "r = Ok ()" "chain_tip st' = chain_tip st" "tips st' = tips st"
    "block_md_cf st' = (block_md_cf st)(block_hash B share := Stored \<lparr>bm_expected_height = Some height, bm_chain_work = w\<rparr>)"
    "block_cf st' = (block_cf st)(block_hash B share := Stored (to_storage_share_block B share))"
  using assms by (auto simp: write_share_def commit_ok add_share_effect)

lemma db_of_fields_eq:
  assumes "db_of st' = db_of st"
  shows "block_md_cf st' = block_md_cf st" "block_cf st' = block_cf st" "read_only st' = read_only st"
  using arg_cong [OF assms, of block_md_cf] arg_cong [OF assms, of block_cf] arg_cong [OF assms, of read_only]
  by (simp_all add: db_of_def)

text \<open>No tip has more chain work than the chain tip.\<close>

definition best_tip :: "share_store \<Rightarrow> bool" where
  "best_tip st \<longleftrightarrow>
     (\<forall>t \<in> set (tips st). \<exists>m best. get_block_metadata st t = Ok m \<and> get_total_work st = Ok best \<and> bm_chain_work m \<le> best)"

text \<open>
  Height and chain work of a stored block follow from those of its parent, when the parent has
  metadata.
\<close>

definition heights_consistent :: "btc \<Rightarrow> share_store \<Rightarrow> bool" where
  "heights_consistent B st \<longleftrightarrow>
     (\<forall>h b pm. block_cf st h = Stored b \<longrightarrow> block_md_cf st (sh_prev_share_blockhash (ssb_header b)) = Stored pm \<longrightarrow>
        block_md_cf st h =
          Stored \<lparr>bm_expected_height = Some ((case bm_expected_height pm of Some k \<Rightarrow> k | None \<Rightarrow> 0) + 1),
                  bm_chain_work = bm_chain_work pm + get_work B (ssb_header b)\<rparr>)"

lemma heights_consistent_add:
  assumes inv: "heights_consistent B st"
    and md: "block_md_cf st' = (block_md_cf st)(h := Stored m)" and cf: "block_cf st' = (block_cf st)(h := Stored b)"
    and fresh: "\<forall>g c. block_cf st g = Stored c \<longrightarrow> sh_prev_share_blockhash (ssb_header c) \<noteq> h"
    and own: "sh_prev_share_blockhash (ssb_header b) \<noteq> h"
    and new: "\<And>pm. block_md_cf st (sh_prev_share_blockhash (ssb_header b)) = Stored pm \<Longrightarrow>
      m = \<lparr>bm_expected_height = Some ((case bm_expected_height pm of Some k \<Rightarrow> k | None \<Rightarrow> 0) + 1),
           bm_chain_work = bm_chain_work pm + get_work B (ssb_header b)\<rparr>"
  shows "heights_consistent B st'"
  unfolding heights_consistent_def
proof (intro allI impI)
  fix g c pm
  assume c: "block_cf st' g = Stored c" and pm: "block_md_cf st' (sh_prev_share_blockhash (ssb_header c)) = Stored pm"
  show "block_md_cf st' g = Stored \<lparr>bm_expected_height = Some ((case bm_expected_height pm of Some k \<Rightarrow> k | None \<Rightarrow> 0) + 1),
      bm_chain_work = bm_chain_work pm + get_work B (ssb_header c)\<rparr>"
  proof (cases "g = h")
    case True
    with c cf have "c = b" by simp
    with True md own pm new [of pm] show ?thesis by simp
  next
    case False
    with c cf have "block_cf st g = Stored c" by simp
    moreover from this fresh have "sh_prev_share_blockhash (ssb_header c) \<noteq> h" by blast
    ultimately show ?thesis using inv pm md False unfolding heights_consistent_def by simp
  qed
qed

section \<open>Properties\<close>


text \<open>
  C21: heights and chain work stay consistent. Whatever becomes of the request, after a new share has been
  added (one whose hash no stored block names as its parent) every stored block whose parent has metadata
  is one higher than its parent and has its parent's work plus its own.
\<close>

theorem heights_stay_consistent:
  assumes "heights_consistent B st" "chain_add_share B alive share c st = (r, st')"
    and "\<forall>g b. block_cf st g = Stored b \<longrightarrow> sh_prev_share_blockhash (ssb_header b) \<noteq> block_hash B share"
    and "sh_prev_share_blockhash (sb_header share) \<noteq> block_hash B share"
    and "tips st = [] \<longrightarrow> (\<forall>pm. block_md_cf st (sh_prev_share_blockhash (sb_header share)) \<noteq> Stored pm)"
  shows "heights_consistent B st'"
proof -
  have same: "heights_consistent B s'" if "block_cf s' = block_cf s" "block_md_cf s' = block_md_cf s" "heights_consistent B s" for s s'
    using that by (simp add: heights_consistent_def)
  have add: "heights_consistent B st1"
    if "write_share B share height w c st = (res, st1)" "new_height_and_work B share st = (height, w)" for height w res st1
  proof (cases "read_only st")
    case True
    with that assms(1) show ?thesis by (auto simp: write_share_def commit_batch_def)
  next
    case False
    note eff = write_share_effect [OF False that(1)]
    show ?thesis
      by (rule heights_consistent_add [OF assms(1) eff(4,5) assms(3)])
        (use assms(4) that(2) in \<open>auto simp: to_storage_share_block_def new_height_and_work_def get_block_metadata_def\<close>)
  qed
  show ?thesis
  proof (cases "tips st = []")
    case True
    obtain batch st1 where made: "setup_genesis B share [] st = (batch, st1)" by fastforce
    then have st1: "block_cf st1 = block_cf st" "block_md_cf st1 = block_md_cf st" "read_only st1 = read_only st"
      by (auto simp: setup_genesis_def Let_def set_chain_tip_def add_tip_def set_genesis_blockhash_def)
    have eff: "block_cf (apply_batch batch st1) = (block_cf st)(block_hash B share := Stored (to_storage_share_block B share))"
      "block_md_cf (apply_batch batch st1) = (block_md_cf st)(block_hash B share :=
         Stored \<lparr>bm_expected_height = Some 0, bm_chain_work = get_work B (sb_header share)\<rparr>)"
      using made st1
      by (auto simp: setup_genesis_def Let_def make_confirmed_def set_top_confirmed_height_def add_share_effect split: if_splits)
    have "heights_consistent B (apply_batch batch st1)"
      by (rule heights_consistent_add [OF assms(1) eff(2,1) assms(3)])
        (use assms(4,5) True in \<open>auto simp: to_storage_share_block_def\<close>)
    moreover have "st' = apply_batch batch st1 \<or> st' = st1 \<or> st' = st"
      using assms(2) True made
      by (auto simp: chain_add_share_def handle_setup_genesis_def request_def write_genesis_def commit_batch_def
          split: if_splits prod.splits)
    ultimately show ?thesis using assms(1) same [OF st1(1,2)] by blast
  next
    case False
    obtain height w where hw: "new_height_and_work B share st = (height, w)" by fastforce
    obtain res st1 where wr: "write_share B share height w c st = (res, st1)" by fastforce
    have "db_of st' = db_of st1 \<or> st' = st"
      using assms(2) False hw wr reorg_result(1) [of B share w st1 r st']
      by (auto simp: chain_add_share_def handle_add_share_def request_def split: if_splits outcome.splits)
    then show ?thesis using add [OF wr hw] assms(1) same db_of_fields_eq by metis
  qed
qed

text \<open>
  C35: a locator is always built, from at most 42 heights that fall strictly from the tip to zero.
\<close>

theorem locator_built:
  assumes "get_tip_height st = Ok (Some tip_height)" "0 < tip_height"
  shows "\<exists>heights. build_locator st = Some (Ok (concat (map (get_blockhashes_for_height st) heights)))
    \<and> length heights \<le> 42 \<and> hd heights = tip_height \<and> last heights = 0 \<and> sorted_wrt (>) heights"
proof -
  have "unat tip_height + length ([] :: u32 list) < 2 ^ 32" using unsigned_less [of tip_height, where ?'a = nat] by simp
  from locator_ones [OF _ this] obtain more where more: "locator_loop tip_height 1 [] = Some more"
    "length more \<le> 41" "falling_from tip_height more" by auto
  have "hd (more @ [0]) = tip_height" "sorted_wrt (>) (more @ [0])"
    using more(3) assms(2) by (auto simp: falling_from_def sorted_wrt_append)
  then show ?thesis
    using assms more
    by (intro exI [of _ "more @ [0]"]) (auto simp: build_locator_def)
qed

text \<open>
  A share passes validation exactly when its bitcoin timestamp is at most 60 seconds from now, its parent
  is stored, and it has at most three uncles, all of them stored; reading the store must not panic.
\<close>

theorem validation_correct:
  "validate now st share = Ok () \<longleftrightarrow>
     unat now \<le> unat (bh_time (sh_bitcoin_header (sb_header share))) + 60
     \<and> unat (bh_time (sh_bitcoin_header (sb_header share))) \<le> unat now + 60
     \<and> (\<exists>parent. get_share st (sh_prev_share_blockhash (sb_header share)) = Ok (Some parent))
     \<and> length (sh_uncles (sb_header share)) \<le> 3
     \<and> (\<forall>u \<in> set (sh_uncles (sb_header share)). \<exists>uncle. get_share st u = Ok (Some uncle))"
proof -
  have share: "require_share st m h = Ok () \<longleftrightarrow> (\<exists>s. get_share st h = Ok (Some s))" for m h
    by (auto simp: require_share_def split: outcome.splits option.splits)
  have uncles: "all_uncles st us = Ok () \<longleftrightarrow> (\<forall>u \<in> set us. \<exists>s. get_share st u = Ok (Some s))" for us
    by (induction us) (auto simp: outcome_simps share)
  have "validate_timestamp now share = Ok () \<longleftrightarrow>
      unat now \<le> unat (bh_time (sh_bitcoin_header (sb_header share))) + 60
     \<and> unat (bh_time (sh_bitcoin_header (sb_header share))) \<le> unat now + 60"
    by (auto simp: validate_timestamp_def Let_def MAX_TIME_DIFF_def word_less_nat_alt unat_abs_diff
        unat_ucast_up not_less)
  then show ?thesis
    by (auto simp: validate_def outcome_simps validate_prev_share_blockhash_def validate_uncles_def share uncles
        MAX_UNCLES_def)
qed

section \<open>Instances\<close>

definition next_share :: share_block where
  "next_share = \<lparr>sb_header = chain_header 6 4 [], sb_transactions = [], sb_bitcoin_transactions = []\<rparr>"

lemma time_btc_work [simp]: "to_work time_btc = ucast"
  by (simp add: time_btc_def sample_btc_def)

lemma next_share_simps [simp]:
  "block_hash time_btc next_share = 6" "sh_prev_share_blockhash (sb_header next_share) = 4"
  "sh_uncles (sb_header next_share) = []" "new_height_and_work time_btc next_share sample_dag = (4, 48)"
  by (simp_all add: next_share_def block_hash_def chain_header_def new_height_and_work_def get_block_metadata_def
      md_cell_def get_work_def sample_share_header_def)

lemma dag_loop_prefix: "\<exists>rest. dag_loop B st queue visited results d = results @ rest"
proof (induction B st queue visited results d rule: dag_loop.induct)
  case (2 B st h main queue visited results d)
  show ?case
  proof (cases "h \<notin> set visited \<and> (\<exists>header. get_share_header st h = Ok (Some header))")
    case True
    then obtain header where "h \<notin> set visited" "get_share_header st h = Ok (Some header)" by blast
    with 2(2,3) show ?thesis by (cases main) fastforce+
  next
    case False
    with 2(1) show ?thesis by (auto split: outcome.split option.split)
  qed
qed simp

lemma dag_loop_step:
  assumes "h \<notin> set v" "get_share_header st h = Ok (Some header)" "header_block_hash B header = h"
  shows "dag_loop B st ((h, True) # q) v rs d
    = dag_loop B st (q @ (if d - 1 > 0 then [(sh_prev_share_blockhash header, True)] else [])
        @ map (\<lambda>uncle. (uncle, False)) (sh_uncles header)) (h # v) (rs @ [h]) (d - 1)"
  using assms by (subst dag_loop.simps(2)) (simp only: if_False outcome.case option.case if_True)

lemma dag_loop_main:
  assumes "h \<notin> set v" "get_share_header st h = Ok (Some header)" "header_block_hash B header = h"
  shows "\<exists>rest. dag_loop B st ((h, True) # q) v rs d = rs @ h # rest"
  using dag_loop_step [OF assms] dag_loop_prefix by (metis append.assoc append_Cons append_Nil)

lemma next_share_ancestor:
  "get_common_ancestor time_btc (snd (write_share time_btc next_share 4 48 c sample_dag)) 6 4 = Some 4"
proof -
  let ?st = "snd (write_share time_btc next_share 4 48 c sample_dag)"
  have "block_cf ?st = (block_cf sample_dag)(6 := Stored (to_storage_share_block time_btc next_share))"
    using write_share_effect(5) [of sample_dag time_btc next_share 4 48 c]
    by (cases "write_share time_btc next_share 4 48 c sample_dag") simp
  then have headers: "get_share_header ?st 6 = Ok (Some (chain_header 6 4 []))"
    "get_share_header ?st 4 = Ok (Some (chain_header 4 3 [2]))"
    by (simp_all add: get_share_header_def to_storage_share_block_def next_share_def chain_cell_def)
  have hash: "header_block_hash time_btc (chain_header 6 4 []) = 6" "header_block_hash time_btc (chain_header 4 3 [2]) = 4"
    by (simp_all add: chain_header_def)
  have "\<exists>rest. get_dag_for_depth time_btc ?st 4 COMMON_ANCESTOR_DEPTH = 4 # rest"
    using dag_loop_main [OF _ headers(2) hash(2), of "[]" "[]" "[]"] by (auto simp: get_dag_for_depth_def)
  moreover have "get_dag_for_depth time_btc ?st 6 COMMON_ANCESTOR_DEPTH = dag_loop time_btc ?st [(4, True)] [6] [6] 2159"
    using dag_loop_step [OF _ headers(1) hash(1), of "[]" "[]" "[]" COMMON_ANCESTOR_DEPTH]
    by (simp add: get_dag_for_depth_def COMMON_ANCESTOR_DEPTH_def chain_header_def del: dag_loop.simps)
  ultimately show ?thesis
    using dag_loop_main [OF _ headers(2) hash(2), of "[6]" "[]" "[6]" 2159]
    by (auto simp: get_common_ancestor_def Let_def simp del: dag_loop.simps)
qed


text \<open>The same blocks with the work that belongs to their headers.\<close>

definition even_dag :: share_store where
  "even_dag = sample_dag\<lparr>block_md_cf := (\<lambda>_. Absent)(1 := md_cell 0 8, 2 := md_cell 1 16, 3 := md_cell 2 24,
     4 := md_cell 3 32, 5 := md_cell 2 24)\<rparr>"

theorem heights_stay_consistent_witness:
  "heights_consistent time_btc (snd (chain_add_share time_btc True next_share False even_dag)) \<and> tips even_dag \<noteq> []"
proof -
  obtain r st' where add: "chain_add_share time_btc True next_share False even_dag = (r, st')" by fastforce
  have "heights_consistent time_btc even_dag"
    by (auto simp: heights_consistent_def even_dag_def chain_cell_def md_cell_def chain_header_def get_work_def
        time_btc_def sample_btc_def sample_share_header_def split: if_splits)
  from heights_stay_consistent [OF this add] add show ?thesis
    by (auto simp: even_dag_def chain_cell_def chain_header_def split: if_splits)
qed

theorem locator_built_witness:
  "\<exists>locator. build_locator sample_dag = Some (Ok locator)"
proof -
  have "get_tip_height sample_dag = Ok (Some 3)"
    by (simp add: get_tip_height_def get_block_metadata_def md_cell_def)
  from locator_built [OF this] show ?thesis by auto
qed

theorem validation_correct_witness: "validate 4 empty_store sample_block \<noteq> Ok ()"
  by (simp add: validation_correct get_share_def)

end
