(* ===== verification/Wire_Messages.thy ===== *)
theory Wire_Messages
  imports Share_Block
begin

text \<open>
  The messages peers exchange (\<open>node/messages.rs\<close>): the message kinds, their encodings, and
  the frame with network magic, length and checksum. The double SHA-256 of the bitcoin crate is
  the parameter \<open>sha256d\<close>, a function from bytes to the bytes of the hash.
\<close>

section \<open>Discriminants and magic bytes\<close>

definition INVENTORY :: u8 where "INVENTORY = 0"
definition NOT_FOUND :: u8 where "NOT_FOUND = 1"
definition GET_SHARE_HEADERS :: u8 where "GET_SHARE_HEADERS = 2"
definition GET_SHARE_BLOCKS :: u8 where "GET_SHARE_BLOCKS = 3"
definition SHARE_HEADERS :: u8 where "SHARE_HEADERS = 4"
definition SHARE_BLOCK :: u8 where "SHARE_BLOCK = 5"
definition GET_DATA :: u8 where "GET_DATA = 6"
definition TRANSACTION :: u8 where "TRANSACTION = 7"

definition BLOCK_HASHES :: u8 where "BLOCK_HASHES = 0"
definition TRANSACTION_HASHES :: u8 where "TRANSACTION_HASHES = 1"

definition BLOCK :: u8 where "BLOCK = 0"
definition TXID :: u8 where "TXID = 1"

lemmas message_discriminants = INVENTORY_def NOT_FOUND_def GET_SHARE_HEADERS_def GET_SHARE_BLOCKS_def
  SHARE_HEADERS_def SHARE_BLOCK_def GET_DATA_def TRANSACTION_def

definition MAINNET_MAGIC :: bytes where "MAINNET_MAGIC = [0xf9, 0xbe, 0xb4, 0xd9]"
definition TESTNET_MAGIC :: bytes where "TESTNET_MAGIC = [0x0b, 0x11, 0x09, 0x07]"
definition SIGNET_MAGIC :: bytes where "SIGNET_MAGIC = [0x0a, 0x03, 0xcf, 0x40]"
definition REGTEST_MAGIC :: bytes where "REGTEST_MAGIC = [0xfa, 0xbf, 0xb5, 0xda]"

section \<open>Messages\<close>

datatype inventory_message =
    BlockHashes "blockhash list"
  | TransactionHashes "txid list"

datatype get_data =
    DataBlock blockhash
  | DataTxid txid

datatype message =
    Inventory inventory_message
  | NotFoundMessage
  | GetShareHeaders "blockhash list" blockhash
  | GetShareBlocks "blockhash list" blockhash
  | ShareHeaders "share_header list"
  | ShareBlockMessage share_block
  | GetData get_data
  | TransactionMessage transaction

record raw_message =
  rm_magic :: bytes
  rm_payload :: message
  rm_payload_len :: u32
  rm_checksum :: bytes

definition message_name :: "message \<Rightarrow> string" where
  "message_name m =
     (case m of
        Inventory _ \<Rightarrow> ''Inventory''
      | NotFoundMessage \<Rightarrow> ''NotFound''
      | GetShareHeaders _ _ \<Rightarrow> ''GetShareHeaders''
      | GetShareBlocks _ _ \<Rightarrow> ''GetShareBlocks''
      | ShareHeaders _ \<Rightarrow> ''ShareHeaders''
      | ShareBlockMessage _ \<Rightarrow> ''ShareBlock''
      | GetData _ \<Rightarrow> ''GetData''
      | TransactionMessage _ \<Rightarrow> ''Transaction'')"

section \<open>Encodings of the parts\<close>

definition inventory_encode :: "btc \<Rightarrow> inventory_message \<Rightarrow> bytes" where
  "inventory_encode B content =
     (case content of
        BlockHashes hashes \<Rightarrow> enc (c_u8 B) BLOCK_HASHES @ enc (c_word256s B) hashes
      | TransactionHashes txids \<Rightarrow> enc (c_u8 B) TRANSACTION_HASHES @ txids_encode B txids)"

definition inventory_decode :: "btc \<Rightarrow> inventory_message decoder" where
  "inventory_decode B =
     decode_then (dec (c_u8 B)) (\<lambda>disc.
       if disc = BLOCK_HASHES then
         decode_then (dec (c_word256s B)) (\<lambda>hashes. decode_return (BlockHashes hashes))
       else if disc = TRANSACTION_HASHES then
         decode_then (txids_decode B) (\<lambda>txids. decode_return (TransactionHashes txids))
       else decode_fail)"

definition getdata_encode :: "btc \<Rightarrow> get_data \<Rightarrow> bytes" where
  "getdata_encode B data =
     (case data of
        DataBlock hash \<Rightarrow> enc (c_u8 B) BLOCK @ enc (c_word256 B) hash
      | DataTxid txid \<Rightarrow> enc (c_u8 B) TXID @ enc (c_word256 B) txid)"

definition getdata_decode :: "btc \<Rightarrow> get_data decoder" where
  "getdata_decode B =
     decode_then (dec (c_u8 B)) (\<lambda>disc.
       if disc = BLOCK then decode_then (dec (c_word256 B)) (\<lambda>hash. decode_return (DataBlock hash))
       else if disc = TXID then decode_then (dec (c_word256 B)) (\<lambda>txid. decode_return (DataTxid txid))
       else decode_fail)"

text \<open>A list of headers is its count and each header with an empty transaction count.\<close>

definition share_headers_encode :: "btc \<Rightarrow> share_header list \<Rightarrow> bytes" where
  "share_headers_encode B headers =
     enc (c_varint B) (word_of_nat (length headers))
     @ concat (map (\<lambda>h. share_header_encode B h @ enc (c_u8 B) 0) headers)"

definition listed_header_decode :: "btc \<Rightarrow> share_header decoder" where
  "listed_header_decode B =
     decode_then (share_header_decode B) (\<lambda>h.
     decode_then (dec (c_u8 B)) (\<lambda>n. if n \<noteq> 0 then decode_fail else decode_return h))"

definition share_headers_decode_finite :: "btc \<Rightarrow> share_header list decoder" where
  "share_headers_decode_finite B =
     decode_then (dec (c_varint B)) (\<lambda>len. decode_many (listed_header_decode B) (unat len))"

definition share_headers_decode :: "btc \<Rightarrow> share_header list decoder" where
  "share_headers_decode B = decode_limited (max_msg_size B) (share_headers_decode_finite B)"

section \<open>Encoding of a message\<close>

definition message_encode :: "btc \<Rightarrow> message \<Rightarrow> bytes" where
  "message_encode B m =
     (case m of
        Inventory content \<Rightarrow> enc (c_u8 B) INVENTORY @ inventory_encode B content
      | NotFoundMessage \<Rightarrow> enc (c_u8 B) NOT_FOUND
      | GetShareHeaders hashes stop \<Rightarrow>
          enc (c_u8 B) GET_SHARE_HEADERS @ enc (c_word256s B) hashes @ enc (c_word256 B) stop
      | GetShareBlocks hashes stop \<Rightarrow>
          enc (c_u8 B) GET_SHARE_BLOCKS @ enc (c_word256s B) hashes @ enc (c_word256 B) stop
      | ShareHeaders headers \<Rightarrow> enc (c_u8 B) SHARE_HEADERS @ share_headers_encode B headers
      | ShareBlockMessage block \<Rightarrow> enc (c_u8 B) SHARE_BLOCK @ share_block_encode B block
      | GetData data \<Rightarrow> enc (c_u8 B) GET_DATA @ getdata_encode B data
      | TransactionMessage tx \<Rightarrow> enc (c_u8 B) TRANSACTION @ enc (c_transaction B) tx)"

definition locator_decode :: "btc \<Rightarrow> (blockhash list \<Rightarrow> blockhash \<Rightarrow> 'a) \<Rightarrow> 'a decoder" where
  "locator_decode B f =
     decode_then (dec (c_word256s B)) (\<lambda>hashes.
     decode_then (dec (c_word256 B)) (\<lambda>stop. decode_return (f hashes stop)))"

definition message_decode :: "btc \<Rightarrow> message decoder" where
  "message_decode B =
     decode_then (dec (c_u8 B)) (\<lambda>disc.
       if disc = INVENTORY then decode_then (inventory_decode B) (\<lambda>content. decode_return (Inventory content))
       else if disc = NOT_FOUND then decode_return NotFoundMessage
       else if disc = GET_SHARE_HEADERS then locator_decode B GetShareHeaders
       else if disc = GET_SHARE_BLOCKS then locator_decode B GetShareBlocks
       else if disc = SHARE_HEADERS then
         decode_then (share_headers_decode B) (\<lambda>headers. decode_return (ShareHeaders headers))
       else if disc = SHARE_BLOCK then
         decode_then (share_block_decode B) (\<lambda>block. decode_return (ShareBlockMessage block))
       else if disc = GET_DATA then decode_then (getdata_decode B) (\<lambda>data. decode_return (GetData data))
       else if disc = TRANSACTION then
         decode_then (dec (c_transaction B)) (\<lambda>tx. decode_return (TransactionMessage tx))
       else decode_fail)"

section \<open>The frame\<close>

definition checksum_of :: "(bytes \<Rightarrow> bytes) \<Rightarrow> bytes \<Rightarrow> bytes" where
  "checksum_of sha256d payload = take 4 (sha256d payload)"

text \<open>\<open>RawMessage::new\<close> panics when the payload is longer than a \<open>u32\<close> can say.\<close>

definition raw_message_new ::
  "btc \<Rightarrow> (bytes \<Rightarrow> bytes) \<Rightarrow> bytes \<Rightarrow> message \<Rightarrow> (unit, raw_message) outcome" where
  "raw_message_new B sha256d magic payload =
     (let len = length (message_encode B payload) in
      if 2 ^ 32 \<le> len then Panic
      else Ok \<lparr>rm_magic = magic, rm_payload = payload, rm_payload_len = word_of_nat len,
               rm_checksum = checksum_of sha256d (message_encode B payload)\<rparr>)"

definition raw_message_encode :: "btc \<Rightarrow> raw_message \<Rightarrow> bytes" where
  "raw_message_encode B m =
     enc (c_array4 B) (rm_magic m) @ enc (c_u32 B) (rm_payload_len m) @ enc (c_array4 B) (rm_checksum m)
     @ message_encode B (rm_payload m)"

definition read_exact :: "nat \<Rightarrow> bytes decoder" where
  "read_exact n bs = (if length bs < n then None else Some (take n bs, drop n bs))"

text \<open>The payload is decoded from its own buffer; bytes of the buffer after it are ignored.\<close>

definition raw_message_decode :: "btc \<Rightarrow> (bytes \<Rightarrow> bytes) \<Rightarrow> raw_message decoder" where
  "raw_message_decode B sha256d =
     decode_then (dec (c_array4 B)) (\<lambda>magic.
     decode_then (dec (c_u32 B)) (\<lambda>payload_len.
     decode_then (dec (c_array4 B)) (\<lambda>expected_checksum.
     decode_then (read_exact (unat payload_len)) (\<lambda>payload_bytes.
       if checksum_of sha256d payload_bytes \<noteq> expected_checksum then decode_fail
       else (case message_decode B payload_bytes of
               None \<Rightarrow> decode_fail
             | Some (payload, _) \<Rightarrow>
                 decode_return \<lparr>rm_magic = magic, rm_payload = payload, rm_payload_len = payload_len,
                   rm_checksum = expected_checksum\<rparr>)))))"

section \<open>The codec of the request-response protocol\<close>

text \<open>
  The codec reads twelve bytes of header, uses only the length in them, and decodes the payload;
  it does not go through the decoder of the frame.
\<close>

definition read_message :: "btc \<Rightarrow> message decoder" where
  "read_message B =
     decode_then (read_exact 12) (\<lambda>header_bytes.
       let payload_len = from_le_bytes [header_bytes ! 4, header_bytes ! 5, header_bytes ! 6, header_bytes ! 7]
       in decode_then (read_exact (unat payload_len)) (\<lambda>payload_bytes.
            case message_decode B payload_bytes of
              None \<Rightarrow> decode_fail
            | Some (m, _) \<Rightarrow> decode_return m))"

definition write_message :: "btc \<Rightarrow> (bytes \<Rightarrow> bytes) \<Rightarrow> bytes \<Rightarrow> message \<Rightarrow> (unit, bytes) outcome" where
  "write_message B sha256d magic msg =
     and_then (raw_message_new B sha256d magic msg) (\<lambda>raw_msg. Ok (raw_message_encode B raw_msg))"

text \<open>The magic of the configured network.\<close>

definition network_magic :: "network \<Rightarrow> bytes" where
  "network_magic network =
     (case network of
        Bitcoin \<Rightarrow> MAINNET_MAGIC
      | Testnet \<Rightarrow> TESTNET_MAGIC
      | Signet \<Rightarrow> SIGNET_MAGIC
      | _ \<Rightarrow> REGTEST_MAGIC)"

section \<open>Lemmas\<close>

definition headers_fit :: "btc \<Rightarrow> share_header list \<Rightarrow> bool" where
  "headers_fit B hs \<longleftrightarrow> length hs < 2 ^ 64 \<and> list_all (header_fits B) hs
     \<and> length (share_headers_encode B hs) \<le> max_msg_size B"

fun message_fits :: "btc \<Rightarrow> message \<Rightarrow> bool" where
  "message_fits B (Inventory (BlockHashes hs)) = fits B (c_word256s B) hs"
| "message_fits B (Inventory (TransactionHashes ids)) = txids_fit B ids"
| "message_fits B NotFoundMessage = True"
| "message_fits B (GetShareHeaders hs _) = fits B (c_word256s B) hs"
| "message_fits B (GetShareBlocks hs _) = fits B (c_word256s B) hs"
| "message_fits B (ShareHeaders hs) = headers_fit B hs"
| "message_fits B (ShareBlockMessage b) = block_fits B b"
| "message_fits B (GetData _) = True"
| "message_fits B (TransactionMessage tx) = fits B (c_transaction B) tx"

lemma listed_header_format:
  "btc_ok B \<Longrightarrow> round_trips (header_fits B) (\<lambda>h. share_header_encode B h @ enc (c_u8 B) 0) (listed_header_decode B)"
  by (intro round_tripsI) (simp add: listed_header_decode_def decode_then_encoded [OF share_header_format])

lemma share_headers_format:
  assumes "btc_ok B"
  shows "round_trips (headers_fit B) (share_headers_encode B) (share_headers_decode B)"
proof -
  have "round_trips (\<lambda>hs. length hs < 2 ^ 64 \<and> list_all (header_fits B) hs)
      (share_headers_encode B) (share_headers_decode_finite B)"
    using assms
    by (intro round_tripsI) (simp add: share_headers_encode_def share_headers_decode_finite_def unat_of_nat_u64
        decode_many_encoded [OF listed_header_format] list_all_iff)
  then show ?thesis
    by (intro round_tripsI) (simp add: headers_fit_def share_headers_decode_def decode_limited_encoded
        [where P = "\<lambda>hs. length hs < 2 ^ 64 \<and> list_all (header_fits B) hs"])
qed

lemma inventory_format:
  assumes "btc_ok B"
  shows "round_trips (\<lambda>content. message_fits B (Inventory content)) (inventory_encode B) (inventory_decode B)"
proof (rule round_tripsI)
  fix content and rest :: bytes
  assume "message_fits B (Inventory content)"
  with assms show "inventory_decode B (inventory_encode B content @ rest) = Some (content, rest)"
    by (cases content) (simp_all add: inventory_encode_def inventory_decode_def BLOCK_HASHES_def TRANSACTION_HASHES_def
        decode_then_encoded [OF txids_format])
qed

lemma getdata_format: "btc_ok B \<Longrightarrow> round_trips (\<lambda>_. True) (getdata_encode B) (getdata_decode B)"
  by (intro round_tripsI) (simp add: getdata_encode_def getdata_decode_def BLOCK_def TXID_def split: get_data.split)

lemma message_format:
  assumes "btc_ok B"
  shows "round_trips (message_fits B) (message_encode B) (message_decode B)"
proof (rule round_tripsI)
  fix m and rest :: bytes
  assume fit: "message_fits B m"
  note simps = message_encode_def message_decode_def message_discriminants locator_decode_def assms
  show "message_decode B (message_encode B m @ rest) = Some (m, rest)"
  proof (cases m)
    case (Inventory content)
    with fit show ?thesis by (simp add: simps decode_then_encoded [OF inventory_format])
  next
    case (ShareHeaders hs)
    with fit show ?thesis by (simp add: simps decode_then_encoded [OF share_headers_format])
  next
    case (ShareBlockMessage b)
    with fit show ?thesis by (simp add: simps decode_then_encoded [OF share_block_format])
  next
    case (GetData d)
    then show ?thesis by (simp add: simps decode_then_encoded [OF getdata_format])
  qed (use fit in \<open>simp_all add: simps\<close>)
qed

interpretation peer_messages: wire_format "\<lambda>m. btc_ok B \<and> message_fits B m" "message_encode B" "message_decode B"
  for B
  by unfold_locales (rule round_tripsD [OF message_format], simp_all)

lemma read_exact_prefix [simp]: "decode_then (read_exact (length xs)) f (xs @ rest) = f xs rest"
  by (simp add: read_exact_def decode_then_def)

lemma raw_message_decode_framed:
  assumes "btc_ok B" "length magic = 4" "length checksum = 4" "length payload < 2 ^ 32"
  shows "raw_message_decode B sha256d
      (enc (c_array4 B) magic @ enc (c_u32 B) (word_of_nat (length payload)) @ enc (c_array4 B) checksum @ payload @ rest)
    = (if checksum_of sha256d payload \<noteq> checksum then None
       else map_option (\<lambda>(m, _). (\<lparr>rm_magic = magic, rm_payload = m, rm_payload_len = word_of_nat (length payload),
                                  rm_checksum = checksum\<rparr>, rest)) (message_decode B payload))"
proof -
  have "unat (word_of_nat (length payload) :: u32) = length payload"
    using assms(4) by (simp add: unat_of_nat)
  with assms show ?thesis
    by (simp add: raw_message_decode_def decode_fail_def split: option.split)
qed

text \<open>
  What the codec needs of the crate's encodings: four-byte arrays are their bytes and a \<open>u32\<close> is
  its four bytes, least significant first.
\<close>

definition frame_layout :: "btc \<Rightarrow> bool" where
  "frame_layout B \<longleftrightarrow> (\<forall>bs. length bs = 4 \<longrightarrow> enc (c_array4 B) bs = bs)
     \<and> (\<forall>w. enc (c_u32 B) w = to_le_bytes w)"

lemma length_four: "length xs = 4 \<Longrightarrow> \<exists>a b c d. xs = [a, b, c, d]"
  by (cases xs rule: list.exhaust; cases "tl xs" rule: list.exhaust; cases "tl (tl xs)" rule: list.exhaust;
      cases "tl (tl (tl xs))" rule: list.exhaust) auto

lemma read_message_framed:
  assumes "length magic = 4" "length checksum = 4" "length payload < 2 ^ 32"
  shows "read_message B (magic @ to_le_bytes (word_of_nat (length payload)) @ checksum @ payload @ rest)
    = map_option (\<lambda>(m, _). (m, rest)) (message_decode B payload)"
proof -
  have len: "unat (word_of_nat (length payload) :: u32) = length payload"
    using assms(3) by (simp add: unat_of_nat)
  obtain a b c d where le: "to_le_bytes (word_of_nat (length payload)) = [a, b, c, d]"
    using length_four [of "to_le_bytes (word_of_nat (length payload))"] by auto
  have "from_le_bytes [a, b, c, d] = word_of_nat (length payload)"
    using from_to_le_bytes [of "word_of_nat (length payload)"] unfolding le .
  moreover have "read_exact 12 (magic @ [a, b, c, d] @ checksum @ payload @ rest)
      = Some (magic @ [a, b, c, d] @ checksum, payload @ rest)"
    using assms by (simp add: read_exact_def)
  ultimately show ?thesis
    using assms len
    by (simp add: le read_message_def decode_then_def [of "read_exact 12"] nth_append Let_def decode_fail_def
        split: option.split)
qed

text \<open>The bytes the codec writes, and that it reads no message from a part of them.\<close>

lemma write_message_bytes:
  assumes "frame_layout B" "length (message_encode B m) < 2 ^ 32" "length magic = 4"
    and "length (checksum_of sha256d (message_encode B m)) = 4"
  shows "write_message B sha256d magic m = Ok (magic @ to_le_bytes (word_of_nat (length (message_encode B m)))
      @ checksum_of sha256d (message_encode B m) @ message_encode B m)"
  using assms
  by (simp add: write_message_def raw_message_new_def raw_message_encode_def frame_layout_def outcome_simps)

lemma read_message_partial:
  assumes "length magic = 4" "length checksum = 4" "length payload < 2 ^ 32" "n < 12 + length payload"
  shows "read_message B (take n (magic @ to_le_bytes (word_of_nat (length payload)) @ checksum @ payload)) = None"
proof (cases "n < 12")
  case True
  then have "length (take n xs) < 12" for xs :: bytes by simp
  then show ?thesis by (simp only: read_message_def decode_then_def [of "read_exact 12"] read_exact_def) simp
next
  case False
  have len: "unat (word_of_nat (length payload) :: u32) = length payload"
    using assms(3) by (simp add: unat_of_nat)
  obtain a b c d where le: "to_le_bytes (word_of_nat (length payload)) = [a, b, c, d]"
    using length_four [of "to_le_bytes (word_of_nat (length payload))"] by auto
  have "from_le_bytes [a, b, c, d] = word_of_nat (length payload)"
    using from_to_le_bytes [of "word_of_nat (length payload)"] unfolding le .
  moreover define header where "header = magic @ [a, b, c, d] @ checksum"
  have header: "length header = 12" "[header ! 4, header ! 5, header ! 6, header ! 7] = [a, b, c, d]"
    using assms(1,2) by (simp_all add: header_def nth_append)
  have "take n header = header" using False header(1) by simp
  then have cut: "take n (magic @ to_le_bytes (word_of_nat (length payload)) @ checksum @ payload)
      = header @ take (n - 12) payload"
    unfolding le using take_append [of n header payload] header(1) by (simp add: header_def)
  have "n - 12 < length payload" using assms(4) False by linarith
  ultimately show ?thesis
    unfolding cut using len header
    by (simp add: read_message_def decode_then_def [of "read_exact _"] read_exact_def)
qed

section \<open>Properties\<close>

text \<open>
  C16: a message survives the wire. A message within the crate's limits and shorter than four
  gigabytes is framed, and the codec writes the bytes of that frame. Reading them the codec returns
  the message and leaves whatever follows; from a beginning of them alone it returns no message.
  The decoder of frames, which also checks the checksum, returns the frame from the same
  bytes, and two messages that are written as the same bytes are the same message.
\<close>

theorem framed_message_round_trip:
  assumes "btc_ok B" "frame_layout B" "message_fits B m" "message_fits B m'" "length magic = 4"
    and "\<And>bs. length (sha256d bs) = 32"
    and "length (message_encode B m) < 2 ^ 32"
  shows "\<exists>raw bytes. raw_message_new B sha256d magic m = Ok raw \<and> rm_payload raw = m
    \<and> write_message B sha256d magic m = Ok bytes \<and> bytes = raw_message_encode B raw
    \<and> read_message B (bytes @ rest) = Some (m, rest)
    \<and> (\<forall>n < length bytes. read_message B (take n bytes) = None)
    \<and> raw_message_decode B sha256d (bytes @ rest) = Some (raw, rest)
    \<and> (write_message B sha256d magic m' = Ok bytes \<longrightarrow> m' = m)"
proof -
  let ?payload = "message_encode B m"
  let ?raw = "\<lparr>rm_magic = magic, rm_payload = m, rm_payload_len = word_of_nat (length ?payload),
               rm_checksum = checksum_of sha256d ?payload\<rparr>"
  let ?bytes = "magic @ to_le_bytes (word_of_nat (length ?payload)) @ checksum_of sha256d ?payload @ ?payload"
  have sum: "length (checksum_of sha256d p) = 4" for p by (simp add: checksum_of_def assms(6))
  have dec: "message_decode B (message_encode B k) = Some (k, [])" if "message_fits B k" for k
    using peer_messages.decode_encode [of B k "[]"] assms(1) that by simp
  have new: "raw_message_new B sha256d magic m = Ok ?raw" using assms(7) by (simp add: raw_message_new_def)
  have raw: "?bytes = raw_message_encode B ?raw"
    using assms(2,5) sum by (simp add: raw_message_encode_def frame_layout_def)
  have wrote: "write_message B sha256d magic m = Ok ?bytes"
    using write_message_bytes [OF assms(2,7,5) sum] .
  have read: "read_message B (?bytes @ rest) = Some (m, rest)"
    using read_message_framed [OF assms(5) sum assms(7)] dec [OF assms(3)] by simp
  have partial: "\<forall>n < length ?bytes. read_message B (take n ?bytes) = None"
    using read_message_partial [OF assms(5) sum assms(7)] assms(5) sum by simp
  have decode: "raw_message_decode B sha256d (?bytes @ rest) = Some (?raw, rest)"
    unfolding raw using raw_message_decode_framed [OF assms(1,5) sum assms(7), of sha256d] dec [OF assms(3)]
    by (simp add: raw_message_encode_def)
  have same: "m' = m" if "write_message B sha256d magic m' = Ok ?bytes"
  proof -
    have short: "length (message_encode B m') < 2 ^ 32"
      using that by (auto simp: write_message_def raw_message_new_def outcome_simps Let_def split: if_splits)
    with that have "?bytes = magic @ to_le_bytes (word_of_nat (length (message_encode B m')))
        @ checksum_of sha256d (message_encode B m') @ message_encode B m'"
      using write_message_bytes [OF assms(2) short assms(5) sum] by simp
    then have "read_message B (?bytes @ rest) = Some (m', rest)"
      using read_message_framed [OF assms(5) sum short] dec [OF assms(4)] by simp
    with read show ?thesis by simp
  qed
  from new wrote raw read partial decode same show ?thesis
    by (intro exI [of _ ?raw] exI [of _ ?bytes] conjI) (simp_all only: raw_message.simps, simp)
qed

text \<open>
  A frame is accepted only intact: its payload is taken from exactly as many bytes as its
  header announces, those bytes hash to the announced checksum and start with the decoded message;
  a frame whose payload bytes do not hash to its checksum is refused, as is one cut short.
\<close>

theorem corrupted_frame_refused:
  assumes "btc_ok B" "length magic = 4" "length checksum = 4" "length payload < 2 ^ 32"
  defines "frame \<equiv> enc (c_array4 B) magic @ enc (c_u32 B) (word_of_nat (length payload)) @ enc (c_array4 B) checksum"
  shows "(raw_message_decode B sha256d (frame @ payload @ rest) = Some (raw, rest') \<longleftrightarrow>
            checksum_of sha256d payload = checksum \<and> rest' = rest \<and> rm_magic raw = magic
            \<and> rm_payload_len raw = word_of_nat (length payload) \<and> rm_checksum raw = checksum
            \<and> (\<exists>unread. message_decode B payload = Some (rm_payload raw, unread)))
    \<and> (n < length payload \<longrightarrow> raw_message_decode B sha256d (frame @ take n payload) = None)"
proof
  show "raw_message_decode B sha256d (frame @ payload @ rest) = Some (raw, rest') \<longleftrightarrow>
            checksum_of sha256d payload = checksum \<and> rest' = rest \<and> rm_magic raw = magic
            \<and> rm_payload_len raw = word_of_nat (length payload) \<and> rm_checksum raw = checksum
            \<and> (\<exists>unread. message_decode B payload = Some (rm_payload raw, unread))"
    using raw_message_decode_framed [OF assms(1-4), of sha256d rest]
    by (cases raw) (auto simp: frame_def)
  have "unat (word_of_nat (length payload) :: u32) = length payload"
    using assms(4) by (simp add: unat_of_nat)
  then show "n < length payload \<longrightarrow> raw_message_decode B sha256d (frame @ take n payload) = None"
    using assms(1-3) by (simp add: frame_def raw_message_decode_def read_exact_def decode_then_def [of "read_exact _"])
qed

text \<open>
  The codec of the peer-to-peer protocol reads back what it writes, but it checks neither the
  magic nor the checksum: a frame with any magic and any checksum in its header, even one the
  decoder of frames refuses, is accepted with the message in its payload.
\<close>

theorem codec_skips_magic_and_checksum:
  assumes "btc_ok B" "frame_layout B" "message_fits B m" "length (message_encode B m) < 2 ^ 32"
    and "\<And>bs. length (sha256d bs) = 32" "length magic = 4" "length checksum = 4" "length any_magic = 4"
  shows "\<exists>bytes. write_message B sha256d magic m = Ok bytes \<and> read_message B (bytes @ rest) = Some (m, rest)
    \<and> bytes = magic @ to_le_bytes (word_of_nat (length (message_encode B m)))
        @ checksum_of sha256d (message_encode B m) @ message_encode B m
    \<and> read_message B (any_magic @ to_le_bytes (word_of_nat (length (message_encode B m))) @ checksum
          @ message_encode B m @ rest) = Some (m, rest)"
proof -
  have dec: "message_decode B (message_encode B m) = Some (m, [])"
    using peer_messages.decode_encode [of B m "[]"] assms(1,3) by simp
  have sum: "length (checksum_of sha256d (message_encode B m)) = 4" by (simp add: checksum_of_def assms(5))
  show ?thesis
    using write_message_bytes [OF assms(2,4,6) sum] read_message_framed [OF assms(6) sum assms(4)] read_message_framed [OF assms(8,7,4)] dec by simp
qed

text \<open>The hash of the instance is the bytes themselves, padded to 32.\<close>

definition padded_bytes :: "bytes \<Rightarrow> bytes" where
  "padded_bytes bs = take 32 (bs @ replicate 32 0)"

theorem corrupted_frame_refused_witness:
  "raw_message_decode sample_btc padded_bytes
     (enc (c_array4 sample_btc) REGTEST_MAGIC @ enc (c_u32 sample_btc) (word_of_nat (length [1 :: u8]))
        @ enc (c_array4 sample_btc) [9, 9, 9, 9] @ [1]) = None"
  using corrupted_frame_refused [OF sample_btc_ok, of REGTEST_MAGIC "[9, 9, 9, 9]" "[1]" padded_bytes "[]"]
  by (cases "raw_message_decode sample_btc padded_bytes
       (enc (c_array4 sample_btc) REGTEST_MAGIC @ enc (c_u32 sample_btc) (word_of_nat (length [1 :: u8]))
          @ enc (c_array4 sample_btc) [9, 9, 9, 9] @ [1])")
    (auto simp: checksum_of_def padded_bytes_def REGTEST_MAGIC_def)

text \<open>The instance with little-endian lengths.\<close>

definition wire_btc :: btc where
  "wire_btc = sample_btc\<lparr>c_u32 := le_u32_codec\<rparr>"

lemma wire_btc_ok: "btc_ok wire_btc" "frame_layout wire_btc"
proof -
  show "btc_ok wire_btc"
    using sample_btc_ok le_u32_codec_ok by (simp add: btc_ok_def wire_btc_def fits_def [abs_def])
  show "frame_layout wire_btc" by (simp add: frame_layout_def wire_btc_def sample_btc_def le_u32_codec_def)
qed

theorem framed_message_round_trip_witness:
  "\<exists>raw bytes. raw_message_new wire_btc padded_bytes REGTEST_MAGIC (ShareBlockMessage sample_block) = Ok raw
     \<and> write_message wire_btc padded_bytes REGTEST_MAGIC (ShareBlockMessage sample_block) = Ok bytes
     \<and> read_message wire_btc (bytes @ [7]) = Some (ShareBlockMessage sample_block, [7])
     \<and> raw_message_decode wire_btc padded_bytes (bytes @ [7]) = Some (raw, [7])"
proof -
  have short: "length (message_encode wire_btc (ShareBlockMessage sample_block)) < 2 ^ 32"
    by (simp add: message_encode_def share_block_encode_def share_header_encode_def sample_block_def
        sample_share_header_def wire_btc_def sample_btc_def list_codec_def word256_codec_def word_codec_def u64_codec_def
        u32_codec_def le_u32_codec_def byte_codec_def bytes_codec_def bitcoin_header_codec_def iso_codec_def
        pair_codec_def)
  have fits: "message_fits wire_btc (ShareBlockMessage sample_block)"
    using sample_block_fits
    by (simp add: block_fits_def header_fits_def fits_def wire_btc_def sample_block_def)
  have magic: "length REGTEST_MAGIC = 4" by (simp add: REGTEST_MAGIC_def)
  have "length (padded_bytes bs) = 32" for bs by (simp add: padded_bytes_def)
  from framed_message_round_trip [OF wire_btc_ok fits fits magic _ short, of padded_bytes "[7]", OF this]
  show ?thesis by blast
qed

theorem codec_skips_magic_and_checksum_witness:
  "read_message wire_btc (MAINNET_MAGIC @ to_le_bytes (word_of_nat (length (message_encode wire_btc NotFoundMessage)))
     @ [0, 0, 0, 0] @ message_encode wire_btc NotFoundMessage @ [5]) = Some (NotFoundMessage, [5])"
proof -
  have "length (message_encode wire_btc NotFoundMessage) < 2 ^ 32"
    by (simp add: message_encode_def wire_btc_def sample_btc_def byte_codec_def word_codec_def)
  moreover have "length (padded_bytes bs) = 32" for bs by (simp add: padded_bytes_def)
  ultimately show ?thesis
    using codec_skips_magic_and_checksum [OF wire_btc_ok, of NotFoundMessage padded_bytes REGTEST_MAGIC "[0, 0, 0, 0]"
        MAINNET_MAGIC "[5]"]
    by (simp add: REGTEST_MAGIC_def MAINNET_MAGIC_def)
qed

end
