(* ===== verification/Peer_Node.thy ===== *)
theory Peer_Node
  imports Wire_Messages Chain_Handle
begin

text \<open>
  The peer-to-peer side of the node: the handlers of peer messages
  (\<open>node/p2p_message_handlers\<close>), the service that wraps them and the inactivity monitor
  (\<open>service\<close>, \<open>middleware/inactivity.rs\<close>), the events of the swarm (\<open>node/mod.rs\<close>) and
  the actor that drains the swarm channel (\<open>node/actor.rs\<close>). libp2p is a parameter: its
  events are inputs, the set of connected peers is an argument, and what the node asks of it is a
  list of actions. A handler returns its result, the store, and what it sent to the swarm channel.
\<close>

type_synonym peer_id = nat
type_synonym channel = nat

datatype swarm_send =
    Request peer_id message
  | Response channel message
  | Inv share_block
  | Disconnect peer_id
  | Broadcast share_block

datatype peer_error = PeerStore store_error | SwarmClosed | PeerMessage string

text \<open>
  What a handler sees of its surroundings: the crate's functions, the bloom filter of the database,
  whether the store writer and the swarm channel are open, and the clock.
\<close>

record peer_env =
  pe_btc :: btc
  pe_key_may_exist :: "share_store \<Rightarrow> blockhash \<Rightarrow> bool"
  pe_writer_alive :: bool
  pe_swarm_open :: bool
  pe_now :: u64
  pe_now_micros :: u64

section \<open>Handlers of messages\<close>

definition MAX_BLOCKS :: nat where "MAX_BLOCKS = 500"
definition MAX_HEADERS :: nat where "MAX_HEADERS = 2000"

text \<open>\<open>swarm_tx.send(..).await?\<close>\<close>

definition swarm_tx_send :: "peer_env \<Rightarrow> swarm_send \<Rightarrow> (peer_error, unit) outcome \<times> swarm_send list" where
  "swarm_tx_send env s = (if pe_swarm_open env then (Ok (), [s]) else (Err SwarmClosed, []))"

definition send_result ::
  "peer_env \<Rightarrow> (store_error, 'a) outcome \<Rightarrow> ('a \<Rightarrow> swarm_send) \<Rightarrow> (peer_error, unit) outcome \<times> swarm_send list" where
  "send_result env result f =
     (case result of
        Ok x \<Rightarrow> swarm_tx_send env (f x)
      | Err e \<Rightarrow> (Err (PeerStore e), [])
      | Panic \<Rightarrow> (Panic, []))"

definition handle_getblocks ::
  "peer_env \<Rightarrow> share_store \<Rightarrow> blockhash list \<Rightarrow> blockhash \<Rightarrow> channel
     \<Rightarrow> (peer_error, unit) outcome \<times> swarm_send list" where
  "handle_getblocks env st locator stop_block_hash response_channel =
     send_result env (get_blockhashes_for_locator (pe_key_may_exist env) st locator stop_block_hash MAX_BLOCKS)
       (\<lambda>response_block_hashes. Response response_channel (Inventory (BlockHashes response_block_hashes)))"

definition handle_getheaders ::
  "peer_env \<Rightarrow> share_store \<Rightarrow> blockhash list \<Rightarrow> blockhash \<Rightarrow> channel
     \<Rightarrow> (peer_error, unit) outcome \<times> swarm_send list" where
  "handle_getheaders env st block_hashes stop_block_hash response_channel =
     send_result env (get_headers_for_locator (pe_key_may_exist env) st block_hashes stop_block_hash MAX_HEADERS)
       (\<lambda>response_headers. Response response_channel (ShareHeaders response_headers))"

text \<open>One request per missing block; a failed send ends the loop.\<close>

fun request_blocks ::
  "peer_env \<Rightarrow> channel \<Rightarrow> blockhash list \<Rightarrow> (peer_error, unit) outcome \<times> swarm_send list" where
  "request_blocks env ch [] = (Ok (), [])"
| "request_blocks env ch (hash # missing_blocks) =
     (case swarm_tx_send env (Response ch (GetData (DataBlock hash))) of
        (Ok _, sent) \<Rightarrow>
          (case request_blocks env ch missing_blocks of (result, sent2) \<Rightarrow> (result, sent @ sent2))
      | failed \<Rightarrow> failed)"

fun handle_inventory ::
  "peer_env \<Rightarrow> share_store \<Rightarrow> inventory_message list \<Rightarrow> channel
     \<Rightarrow> (peer_error, unit) outcome \<times> swarm_send list" where
  "handle_inventory env st [] ch = (Ok (), [])"
| "handle_inventory env st (BlockHashes locator # inventory) ch =
     (case request_blocks env ch (get_missing_blockhashes (pe_key_may_exist env) st locator) of
        (Ok _, sent) \<Rightarrow>
          (case handle_inventory env st inventory ch of (result, sent2) \<Rightarrow> (result, sent @ sent2))
      | failed \<Rightarrow> failed)"
| "handle_inventory env st (TransactionHashes _ # inventory) ch = handle_inventory env st inventory ch"

definition handle_share_block ::
  "peer_env \<Rightarrow> share_block \<Rightarrow> share_store \<Rightarrow> (peer_error, unit) outcome \<times> share_store" where
  "handle_share_block env share_block st =
     (case validate (pe_now env) st share_block of
        Err e \<Rightarrow> (Err (PeerMessage ''Share block validation failed''), st)
      | Panic \<Rightarrow> (Panic, st)
      | Ok _ \<Rightarrow>
          (case chain_add_share (pe_btc env) (pe_writer_alive env) share_block True st of
             (Ok _, st') \<Rightarrow> (Ok (), st')
           | (Err e, st') \<Rightarrow> (Err (PeerMessage ''Error adding share to chain''), st')
           | (Panic, st') \<Rightarrow> (Panic, st')))"

definition handle_share_headers :: "share_header list \<Rightarrow> (peer_error, unit) outcome" where
  "handle_share_headers share_headers = Ok ()"

record request_context =
  rc_peer :: peer_id
  rc_request :: message
  rc_channel :: channel

definition handle_request ::
  "peer_env \<Rightarrow> request_context \<Rightarrow> share_store
     \<Rightarrow> (peer_error, unit) outcome \<times> share_store \<times> swarm_send list" where
  "handle_request env ctx st =
     (case rc_request ctx of
        GetShareHeaders block_hashes stop_block_hash \<Rightarrow>
          (case handle_getheaders env st block_hashes stop_block_hash (rc_channel ctx) of (result, sent) \<Rightarrow> (result, st, sent))
      | GetShareBlocks block_hashes stop_block_hash \<Rightarrow>
          (case handle_getblocks env st block_hashes stop_block_hash (rc_channel ctx) of (result, sent) \<Rightarrow> (result, st, sent))
      | ShareHeaders share_headers \<Rightarrow> (handle_share_headers share_headers, st, [])
      | ShareBlockMessage share_block \<Rightarrow>
          (case handle_share_block env share_block st of (result, st') \<Rightarrow>
             (map_err (\<lambda>e. PeerMessage ''Failed to add share'') result, st', []))
      | Inventory _ \<Rightarrow> (Ok (), st, [])
      | NotFoundMessage \<Rightarrow> (Ok (), st, [])
      | GetData _ \<Rightarrow> (Ok (), st, [])
      | TransactionMessage _ \<Rightarrow> (Ok (), st, []))"

section \<open>Senders\<close>

text \<open>Building the locator is the loop of the chain handle; \<open>None\<close> is a loop that does not end.\<close>

definition send_getheaders ::
  "peer_env \<Rightarrow> peer_id \<Rightarrow> share_store \<Rightarrow> ((peer_error, unit) outcome \<times> swarm_send list) option" where
  "send_getheaders env peer_id st =
     map_option (\<lambda>result. send_result env result (\<lambda>locator. Request peer_id (GetShareHeaders locator 0)))
       (build_locator st)"

definition send_blocks_inventory ::
  "peer_env \<Rightarrow> peer_id \<Rightarrow> share_store \<Rightarrow> ((peer_error, unit) outcome \<times> swarm_send list) option" where
  "send_blocks_inventory env peer_id st =
     map_option (\<lambda>result. send_result env result (\<lambda>locator. Request peer_id (Inventory (BlockHashes locator))))
       (build_locator st)"

section \<open>Inactivity\<close>

text \<open>
  The table of the times a peer was last seen, in the order the hash map happens to iterate; times
  are in nanoseconds.
\<close>

type_synonym last_seen = "(peer_id \<times> nat) list"

definition mark_seen :: "peer_id \<Rightarrow> nat \<Rightarrow> last_seen \<Rightarrow> last_seen" where
  "mark_seen peer now seen = (peer, now) # filter (\<lambda>(p, _). p \<noteq> peer) seen"

definition CHECK_INTERVAL :: nat where "CHECK_INTERVAL = 30 * 10 ^ 9"

text \<open>One round of the monitor: the peers to disconnect, and the table without them.\<close>

definition monitor_round :: "nat \<Rightarrow> nat \<Rightarrow> last_seen \<Rightarrow> peer_id list \<times> last_seen" where
  "monitor_round timeout_duration now seen =
     (let to_disconnect = map fst (filter (\<lambda>(peer, last_time). timeout_duration < now - last_time) seen)
      in (to_disconnect, filter (\<lambda>(peer, _). peer \<notin> set to_disconnect) seen))"

text \<open>The service: note the peer, then handle the request.\<close>

definition inactivity_call ::
  "peer_env \<Rightarrow> nat \<Rightarrow> request_context \<Rightarrow> share_store \<Rightarrow> last_seen
     \<Rightarrow> (peer_error, unit) outcome \<times> share_store \<times> last_seen \<times> swarm_send list" where
  "inactivity_call env now ctx st seen =
     (case handle_request env ctx st of (result, st', sent) \<Rightarrow> (result, st', mark_seen (rc_peer ctx) now seen, sent))"

section \<open>Events of the swarm\<close>

text \<open>Outcome of waiting one second for the rate limiter.\<close>

datatype readiness = Ready | ServiceFailed | TimedOut

datatype request_response_event =
    IncomingRequest peer_id message channel
  | IncomingResponse peer_id message
  | OtherRequestResponse

datatype swarm_event =
    NewListenAddr
  | ConnectionEstablished peer_id bool
  | ConnectionClosed peer_id
  | OutgoingConnectionError
  | IdentifyReceived peer_id "string list" string
  | OtherIdentify
  | KademliaEvent
  | RequestResponse request_response_event
  | OtherEvent

text \<open>What the node asks of libp2p.\<close>

datatype net_action =
    SendRequest peer_id message
  | SendResponse channel message
  | DisconnectPeer peer_id
  | RemovePeer peer_id
  | AddAddress peer_id string
  | AddExternalAddress string
  | Bootstrap

record event_effect =
  ev_result :: "(peer_error, unit) outcome"
  ev_store :: share_store
  ev_seen :: last_seen
  ev_actions :: "net_action list"
  ev_sent :: "swarm_send list"

definition no_effect :: "share_store \<Rightarrow> last_seen \<Rightarrow> event_effect" where
  "no_effect st seen = \<lparr>ev_result = Ok (), ev_store = st, ev_seen = seen, ev_actions = [], ev_sent = []\<rparr>"

text \<open>An error is logged; a panic ends the task.\<close>

definition logged :: "(peer_error, unit) outcome \<Rightarrow> (peer_error, unit) outcome" where
  "logged result = (case result of Panic \<Rightarrow> Panic | _ \<Rightarrow> Ok ())"

definition node_request_response_event ::
  "peer_env \<Rightarrow> readiness \<Rightarrow> nat \<Rightarrow> request_response_event \<Rightarrow> share_store \<Rightarrow> last_seen \<Rightarrow> event_effect" where
  "node_request_response_event env ready now event st seen =
     (case event of
        IncomingRequest peer msg ch \<Rightarrow>
          (case ready of
             Ready \<Rightarrow>
               (case inactivity_call env now \<lparr>rc_peer = peer, rc_request = msg, rc_channel = ch\<rparr> st seen of
                  (result, st', seen', sent) \<Rightarrow>
                    \<lparr>ev_result = logged result, ev_store = st', ev_seen = seen', ev_actions = [], ev_sent = sent\<rparr>)
           | _ \<Rightarrow> (no_effect st seen)\<lparr>ev_sent := snd (swarm_tx_send env (Disconnect peer))\<rparr>)
      | _ \<Rightarrow> no_effect st seen)"

text \<open>The handler of \<open>node/request_response_handler.rs\<close>, for a task per event; nothing calls it.\<close>

definition handle_request_response_event ::
  "peer_env \<Rightarrow> request_response_event \<Rightarrow> share_store \<Rightarrow> (peer_error, unit) outcome \<times> share_store \<times> swarm_send list" where
  "handle_request_response_event env event st =
     (case event of
        IncomingRequest peer msg response_channel \<Rightarrow>
          (case handle_request env \<lparr>rc_peer = peer, rc_request = msg, rc_channel = response_channel\<rparr> st of
             (result, st', sent) \<Rightarrow> (logged result, st', sent))
      | IncomingResponse _ _ \<Rightarrow> (Ok (), st, [])
      | OtherRequestResponse \<Rightarrow> (Ok (), st, []))"

definition handle_identify_event :: "peer_id \<Rightarrow> string list \<Rightarrow> string \<Rightarrow> net_action list" where
  "handle_identify_event peer_id listen_addrs observed_addr =
     map (AddAddress peer_id) listen_addrs @ [AddExternalAddress observed_addr, Bootstrap]"

definition handle_swarm_event ::
  "peer_env \<Rightarrow> readiness \<Rightarrow> nat \<Rightarrow> swarm_event \<Rightarrow> share_store \<Rightarrow> last_seen \<Rightarrow> event_effect option" where
  "handle_swarm_event env ready now event st seen =
     (case event of
        ConnectionEstablished peer_id dialer \<Rightarrow>
          (if dialer then
             map_option (\<lambda>(result, sent). (no_effect st seen)\<lparr>ev_result := logged result, ev_sent := sent\<rparr>)
               (send_getheaders env peer_id st)
           else Some (no_effect st seen))
      | ConnectionClosed peer_id \<Rightarrow> Some ((no_effect st seen)\<lparr>ev_actions := [RemovePeer peer_id]\<rparr>)
      | IdentifyReceived peer_id listen_addrs observed_addr \<Rightarrow>
          Some ((no_effect st seen)\<lparr>ev_actions := handle_identify_event peer_id listen_addrs observed_addr\<rparr>)
      | RequestResponse request_response_event \<Rightarrow>
          Some (node_request_response_event env ready now request_response_event st seen)
      | _ \<Rightarrow> Some (no_effect st seen))"

section \<open>The actor\<close>

definition SWARM_CAPACITY :: nat where "SWARM_CAPACITY = 100"

definition send_to_peer :: "peer_id \<Rightarrow> message \<Rightarrow> net_action list" where
  "send_to_peer peer_id msg = [SendRequest peer_id msg]"

definition send_to_all_peers :: "peer_id list \<Rightarrow> message \<Rightarrow> net_action list" where
  "send_to_all_peers connected_peers msg = concat (map (\<lambda>peer_id. send_to_peer peer_id msg) connected_peers)"

definition shutdown_node :: "peer_id list \<Rightarrow> net_action list" where
  "shutdown_node connected_peers = map DisconnectPeer connected_peers"

text \<open>Taking one element from the swarm channel.\<close>

definition perform_send :: "peer_id list \<Rightarrow> swarm_send \<Rightarrow> net_action list" where
  "perform_send connected_peers s =
     (case s of
        Request peer_id msg \<Rightarrow> [SendRequest peer_id msg]
      | Response response_channel msg \<Rightarrow> [SendResponse response_channel msg]
      | Inv _ \<Rightarrow> []
      | Disconnect peer_id \<Rightarrow> [DisconnectPeer peer_id]
      | Broadcast share_block \<Rightarrow> send_to_all_peers connected_peers (ShareBlockMessage share_block))"

record pplns_query =
  pq_limit :: nat
  pq_start_time :: "u64 option"
  pq_end_time :: "u64 option"

definition handle_get_pplns_shares :: "u64 \<Rightarrow> share_store \<Rightarrow> pplns_query \<Rightarrow> simple_pplns_share list" where
  "handle_get_pplns_shares now_micros st query =
     get_pplns_shares_filtered now_micros st (Some (pq_limit query)) (pq_start_time query) (pq_end_time query)"

datatype node_command =
    SendToPeer peer_id message
  | GetPeers
  | Shutdown
  | GetPplnsShares pplns_query

datatype command_reply =
    Sent
  | Peers "peer_id list"
  | ShutDown
  | PplnsShares "simple_pplns_share list"

text \<open>
  The node: its store, the monitor's table, the swarm channel, what other tasks are waiting to put
  into it, what was asked of libp2p, and the channels of the requests received. A node whose
  handler waits for room in the channel is blocked: it is the channel's only receiver.
\<close>

record node =
  nd_store :: share_store
  nd_seen :: last_seen
  nd_queue :: "swarm_send list"
  nd_pending :: "swarm_send list"
  nd_actions :: "net_action list"
  nd_replies :: "command_reply list"
  nd_requests :: "channel list"
  nd_running :: bool
  nd_blocked :: bool

definition node_start :: "share_store \<Rightarrow> node" where
  "node_start st =
     \<lparr>nd_store = st, nd_seen = [], nd_queue = [], nd_pending = [], nd_actions = [], nd_replies = [],
      nd_requests = [], nd_running = True, nd_blocked = False\<rparr>"

definition node_command_step :: "peer_env \<Rightarrow> peer_id list \<Rightarrow> node_command \<Rightarrow> node \<Rightarrow> node" where
  "node_command_step env connected_peers command n =
     (case command of
        GetPeers \<Rightarrow> n\<lparr>nd_replies := nd_replies n @ [Peers connected_peers]\<rparr>
      | SendToPeer peer_id msg \<Rightarrow>
          n\<lparr>nd_actions := nd_actions n @ send_to_peer peer_id msg, nd_replies := nd_replies n @ [Sent]\<rparr>
      | Shutdown \<Rightarrow>
          n\<lparr>nd_actions := nd_actions n @ shutdown_node connected_peers, nd_replies := nd_replies n @ [ShutDown],
            nd_running := False\<rparr>
      | GetPplnsShares query \<Rightarrow>
          n\<lparr>nd_replies := nd_replies n @ [PplnsShares (handle_get_pplns_shares (pe_now_micros env) (nd_store n) query)]\<rparr>)"

fun event_channels :: "swarm_event \<Rightarrow> channel list" where
  "event_channels (RequestResponse (IncomingRequest _ _ ch)) = [ch]"
| "event_channels _ = []"

definition after_event :: "swarm_event \<Rightarrow> event_effect \<Rightarrow> node \<Rightarrow> node" where
  "after_event event eff n =
     (let room = SWARM_CAPACITY - length (nd_queue n)
      in n\<lparr>nd_store := ev_store eff, nd_seen := ev_seen eff, nd_actions := nd_actions n @ ev_actions eff,
           nd_queue := nd_queue n @ take room (ev_sent eff),
           nd_requests := nd_requests n @ event_channels event,
           nd_running := (ev_result eff \<noteq> Panic), nd_blocked := (room < length (ev_sent eff))\<rparr>)"

text \<open>
  One iteration of the actor's loop, one round of the monitor, or another task's send. A request
  comes with a response channel of its own.
\<close>

inductive node_step :: "node \<Rightarrow> node \<Rightarrow> bool" where
  receive: "nd_running n \<Longrightarrow> \<not> nd_blocked n \<Longrightarrow> nd_queue n = s # rest \<Longrightarrow>
    node_step n (n\<lparr>nd_queue := rest, nd_actions := nd_actions n @ perform_send connected_peers s\<rparr>)"
| event: "nd_running n \<Longrightarrow> \<not> nd_blocked n \<Longrightarrow> pe_swarm_open env \<Longrightarrow>
    set (event_channels event) \<inter> set (nd_requests n) = {} \<Longrightarrow>
    handle_swarm_event env ready now event (nd_store n) (nd_seen n) = Some eff \<Longrightarrow>
    node_step n (after_event event eff n)"
| command: "nd_running n \<Longrightarrow> \<not> nd_blocked n \<Longrightarrow> node_step n (node_command_step env connected_peers command n)"
| monitor: "monitor_round timeout now (nd_seen n) = (to_disconnect, seen) \<Longrightarrow>
    node_step n (n\<lparr>nd_seen := seen, nd_pending := nd_pending n @ map Disconnect to_disconnect\<rparr>)"
| emission: "node_step n (n\<lparr>nd_pending := nd_pending n @ [Broadcast share_block]\<rparr>)"
| other_send: "nd_pending n = s # rest \<Longrightarrow> length (nd_queue n) < SWARM_CAPACITY \<Longrightarrow>
    node_step n (n\<lparr>nd_queue := nd_queue n @ [s], nd_pending := rest\<rparr>)"

inductive_cases node_stepE: "node_step n n'"

section \<open>Lemmas\<close>

lemma sends_to_peers [simp]:
  "send_to_peer peer_id msg = [SendRequest peer_id msg]"
  "send_to_all_peers connected_peers msg = map (\<lambda>peer_id. SendRequest peer_id msg) connected_peers"
  "shutdown_node connected_peers = map DisconnectPeer connected_peers"
  by (simp_all add: send_to_peer_def send_to_all_peers_def shutdown_node_def)

lemma build_locator_returns: "\<exists>result. build_locator st = Some result"
proof -
  have "locator_loop h 1 [] \<noteq> None" for h
  proof -
    have "unat h + length ([] :: u32 list) < 2 ^ 32" using unsigned_less [of h, where ?'a = nat] by simp
    from locator_ones [OF _ this] show ?thesis by auto
  qed
  then show ?thesis
    by (auto simp: build_locator_def simp del: not_None_eq split: outcome.split option.split)
qed

lemma handle_swarm_event_returns: "\<exists>eff. handle_swarm_event env ready now event st seen = Some eff"
  using build_locator_returns [of st]
  by (auto simp: handle_swarm_event_def send_getheaders_def split: swarm_event.split)

fun bounded_response :: "channel \<Rightarrow> swarm_send \<Rightarrow> bool" where
  "bounded_response ch (Response c (Inventory (BlockHashes hashes))) \<longleftrightarrow> c = ch \<and> length hashes \<le> MAX_BLOCKS"
| "bounded_response ch (Response c (ShareHeaders headers)) \<longleftrightarrow> c = ch \<and> length headers \<le> MAX_HEADERS"
| "bounded_response ch _ \<longleftrightarrow> False"

lemma send_result_sent: "snd (send_result env result f) = (case result of Ok x \<Rightarrow> if pe_swarm_open env then [f x] else [] | _ \<Rightarrow> [])"
  by (simp add: send_result_def swarm_tx_send_def split: outcome.split)

lemma push_children_bounded:
  "push_children limit children found queue = (found', queue') \<Longrightarrow> length found \<le> limit \<Longrightarrow> length found' \<le> limit"
  by (induction limit children found queue rule: push_children.induct) (auto split: if_splits)

lemma descendants_bounded:
  "descendant_loop st stop limit queue found = Ok hashes \<Longrightarrow> length found \<le> limit \<Longrightarrow> length hashes \<le> limit"
proof (induction st stop limit queue found rule: descendant_loop.induct)
  case (2 st stop limit current queue found)
  show ?case
  proof (cases "length found < limit \<and> current \<noteq> stop")
    case True
    with 2(3) obtain children where c: "get_children_blockhashes st current = Ok children"
      and l: "(case children of
          Some cs \<Rightarrow> (case push_children limit cs found queue of (f, q) \<Rightarrow> descendant_loop st stop limit q f)
        | None \<Rightarrow> descendant_loop st stop limit queue found) = Ok hashes"
      by (auto simp: outcome_simps)
    show ?thesis
    proof (cases children)
      case None
      with 2(1) [OF _ _ c] True l 2(4) show ?thesis by simp
    next
      case (Some cs)
      obtain f q where p: "push_children limit cs found queue = (f, q)" by fastforce
      from 2(2) [OF _ _ c Some p [symmetric]] True l 2(4) push_children_bounded [OF p] show ?thesis
        by (simp add: Some p)
    qed
  qed (use 2(3,4) in \<open>auto split: if_splits\<close>)
qed simp

lemma locator_hashes_bounded:
  assumes "get_blockhashes_for_locator kme st locator stop limit = Ok hashes" "0 < limit"
  shows "length hashes \<le> limit"
  using assms descendants_bounded [of st stop limit _ "[]"]
  by (auto simp: get_blockhashes_for_locator_def get_descendant_blockhashes_def
      simp del: descendant_loop.simps split: option.splits)

lemma locator_headers_bounded:
  assumes "get_headers_for_locator kme st locator stop limit = Ok headers" "0 < limit"
  shows "length headers \<le> limit"
proof -
  have "length (List.map_filter f xs) \<le> length xs" for f :: "blockhash \<Rightarrow> share_header option" and xs
    by (induction xs) (auto simp: List.map_filter_simps split: option.split)
  then have "length (get_share_headers st hashes) \<le> length hashes" for hashes
    by (simp add: get_share_headers_def)
  then show ?thesis
    using assms by (auto simp: get_headers_for_locator_def outcome_simps dest!: locator_hashes_bounded intro: order_trans)
qed

lemma handle_getheaders_sent:
  "handle_getheaders env st locator stop ch = (result, sent) \<Longrightarrow> length sent \<le> 1 \<and> list_all (bounded_response ch) sent"
  using send_result_sent [of env "get_headers_for_locator (pe_key_may_exist env) st locator stop MAX_HEADERS"]
    locator_headers_bounded [of "pe_key_may_exist env" st locator stop MAX_HEADERS]
  by (auto simp: handle_getheaders_def MAX_HEADERS_def prod_eq_iff split: outcome.splits)

lemma handle_getblocks_sent:
  "handle_getblocks env st locator stop ch = (result, sent) \<Longrightarrow> length sent \<le> 1 \<and> list_all (bounded_response ch) sent"
  using send_result_sent [of env "get_blockhashes_for_locator (pe_key_may_exist env) st locator stop MAX_BLOCKS"]
    locator_hashes_bounded [of "pe_key_may_exist env" st locator stop MAX_BLOCKS]
  by (auto simp: handle_getblocks_def MAX_BLOCKS_def prod_eq_iff split: outcome.splits)

lemma handle_request_sent:
  "handle_request env ctx st = (result, st', sent) \<Longrightarrow> length sent \<le> 1 \<and> list_all (bounded_response (rc_channel ctx)) sent"
  by (auto simp: handle_request_def split: message.splits prod.splits
      dest: handle_getheaders_sent handle_getblocks_sent)

text \<open>The response channels used by what is queued and by what was sent.\<close>

fun send_channels :: "swarm_send \<Rightarrow> channel list" where
  "send_channels (Response ch _) = [ch]"
| "send_channels _ = []"

fun action_channels :: "net_action \<Rightarrow> channel list" where
  "action_channels (SendResponse ch _) = [ch]"
| "action_channels _ = []"

definition answered :: "node \<Rightarrow> channel list" where
  "answered n = concat (map action_channels (nd_actions n)) @ concat (map send_channels (nd_queue n))"

fun bounded_action :: "net_action \<Rightarrow> bool" where
  "bounded_action (SendResponse ch m) = bounded_response ch (Response ch m)"
| "bounded_action _ = True"

fun bounded_send :: "swarm_send \<Rightarrow> bool" where
  "bounded_send (Response ch m) = bounded_response ch (Response ch m)"
| "bounded_send _ = True"

definition node_ok :: "node \<Rightarrow> bool" where
  "node_ok n \<longleftrightarrow> distinct (answered n) \<and> set (answered n) \<subseteq> set (nd_requests n) \<and> distinct (nd_requests n)
     \<and> length (nd_queue n) \<le> SWARM_CAPACITY \<and> distinct (map fst (nd_seen n))
     \<and> list_all bounded_action (nd_actions n) \<and> list_all bounded_send (nd_queue n)
     \<and> list_all (\<lambda>s. send_channels s = []) (nd_pending n)"

lemma concat_map_Nil [simp]: "concat (map (\<lambda>_. []) xs) = []"
  by (induction xs) auto

lemma perform_send_channels: "concat (map action_channels (perform_send peers s)) = send_channels s"
  by (cases s) (simp_all add: perform_send_def comp_def)

lemma perform_send_bounded: "bounded_send s \<Longrightarrow> list_all bounded_action (perform_send peers s)"
  by (cases s) (auto simp: perform_send_def list_all_iff)

lemma bounded_response_channels: "bounded_response ch s \<Longrightarrow> send_channels s = [ch] \<and> bounded_send s"
  by (cases "(ch, s)" rule: bounded_response.cases) auto

lemma silent_pending: "send_channels s = [] \<Longrightarrow> bounded_send s"
  by (cases s) auto

lemma mark_seen_keys: "distinct (map fst seen) \<Longrightarrow> distinct (map fst (mark_seen peer now seen))"
  by (auto simp: mark_seen_def distinct_map inj_on_def)

lemma distinct_keys_filter: "distinct (map fst xs) \<Longrightarrow> distinct (map fst (filter P xs))"
  by (induction xs) auto

text \<open>What an event sends: at most one response, on the channel of its own request.\<close>

lemma few_responses:
  assumes "length sent \<le> 1" "list_all (bounded_response ch) sent"
  shows "(concat (map send_channels (take k sent)) = [] \<or> concat (map send_channels (take k sent)) = [ch])
    \<and> list_all bounded_send sent"
  using assms by (cases sent; cases k) (auto dest: bounded_response_channels)

lemma event_effect_sent:
  assumes "handle_swarm_event env ready now event st seen = Some eff"
  shows "(concat (map send_channels (take k (ev_sent eff))) = []
      \<or> concat (map send_channels (take k (ev_sent eff))) = event_channels event)
    \<and> list_all bounded_send (ev_sent eff)
    \<and> concat (map action_channels (ev_actions eff)) = [] \<and> list_all bounded_action (ev_actions eff)"
proof (cases event)
  case (RequestResponse rr)
  show ?thesis
  proof (cases rr)
    case (IncomingRequest peer msg ch)
    obtain r st' sent where h: "handle_request env \<lparr>rc_peer = peer, rc_request = msg, rc_channel = ch\<rparr> st = (r, st', sent)"
      using prod_cases3 by blast
    from handle_request_sent [OF h] have "length sent \<le> 1" "list_all (bounded_response ch) sent" by simp_all
    note few = few_responses [OF this, of k]
    note eff = assms [unfolded RequestResponse IncomingRequest handle_swarm_event_def node_request_response_event_def
        inactivity_call_def, simplified h swarm_event.case request_response_event.case]
    show ?thesis
    proof (cases "ready = Ready")
      case True
      with eff have "ev_sent eff = sent" "ev_actions eff = []" by auto
      with few show ?thesis by (simp add: RequestResponse IncomingRequest)
    next
      case False
      with eff have "ev_sent eff = [] \<or> ev_sent eff = [Disconnect peer]" "ev_actions eff = []"
        by (cases ready; auto simp: no_effect_def swarm_tx_send_def)+
      then show ?thesis by (cases k) auto
    qed
  qed (use assms RequestResponse in \<open>auto simp: handle_swarm_event_def node_request_response_event_def no_effect_def\<close>)
next
  case (ConnectionEstablished peer dialer)
  have req: "snd (send_result env result (\<lambda>locator. Request peer (m locator))) = []
      \<or> (\<exists>l. snd (send_result env result (\<lambda>locator. Request peer (m locator))) = [Request peer (m l)])"
    for result and m :: "blockhash list \<Rightarrow> message"
    by (auto simp: send_result_sent split: outcome.split)
  show ?thesis
  proof (cases dialer)
    case True
    with assms ConnectionEstablished obtain result a b where
      sr: "send_result env result (\<lambda>locator. Request peer (GetShareHeaders locator 0)) = (a, b)"
      and "eff = (no_effect st seen)\<lparr>ev_result := logged a, ev_sent := b\<rparr>"
      by (auto simp: handle_swarm_event_def send_getheaders_def)
    with req [of result "\<lambda>locator. GetShareHeaders locator 0"] show ?thesis
      by (cases k) (auto simp: no_effect_def sr)
  qed (use assms ConnectionEstablished in \<open>auto simp: handle_swarm_event_def no_effect_def\<close>)
qed (use assms in \<open>auto simp: handle_swarm_event_def no_effect_def handle_identify_event_def list_all_iff\<close>)

lemma event_effect_seen:
  assumes "handle_swarm_event env ready now event st seen = Some eff" "distinct (map fst seen)"
  shows "distinct (map fst (ev_seen eff))"
  using assms
  by (auto simp: handle_swarm_event_def no_effect_def node_request_response_event_def inactivity_call_def mark_seen_keys
      split: swarm_event.splits request_response_event.splits readiness.splits if_splits prod.splits)

lemma node_ok_event:
  assumes "node_ok n" "set (event_channels event) \<inter> set (nd_requests n) = {}"
    and "handle_swarm_event env ready now event (nd_store n) (nd_seen n) = Some eff"
  shows "node_ok (after_event event eff n)"
proof -
  let ?room = "SWARM_CAPACITY - length (nd_queue n)"
  from event_effect_sent [OF assms(3), of ?room] have
    sent: "concat (map send_channels (take ?room (ev_sent eff))) = []
      \<or> concat (map send_channels (take ?room (ev_sent eff))) = event_channels event"
    and bounded: "list_all bounded_send (ev_sent eff)" "list_all bounded_action (ev_actions eff)"
    and silent: "concat (map action_channels (ev_actions eff)) = []"
    by blast+
  have "answered (after_event event eff n) = answered n @ concat (map send_channels (take ?room (ev_sent eff)))"
    using silent by (simp add: answered_def after_event_def Let_def)
  with sent have chans: "answered (after_event event eff n) = answered n
      \<or> answered (after_event event eff n) = answered n @ event_channels event"
    by (metis append_Nil2)
  have new: "distinct (event_channels event)"
    by (cases event rule: event_channels.cases) auto
  have fields: "nd_requests (after_event event eff n) = nd_requests n @ event_channels event"
    "length (nd_queue (after_event event eff n)) \<le> SWARM_CAPACITY"
    "nd_seen (after_event event eff n) = ev_seen eff"
    using assms(1) by (auto simp: after_event_def Let_def node_ok_def)
  have "list_all bounded_send (take ?room (ev_sent eff))"
    using bounded(1) by (auto simp: list_all_iff dest: in_set_takeD)
  moreover have "distinct (map fst (ev_seen eff))"
    using assms(1,3) by (auto simp: node_ok_def intro: event_effect_seen)
  moreover have "distinct (answered (after_event event eff n))
      \<and> set (answered (after_event event eff n)) \<subseteq> set (nd_requests n @ event_channels event)"
  proof -
    have "set (event_channels event) \<inter> set (answered n) = {}"
      using assms(1,2) by (auto simp: node_ok_def)
    with chans assms(1) new show ?thesis by (auto simp: node_ok_def)
  qed
  ultimately show ?thesis
    using assms(1,2) new bounded fields
    by (simp add: node_ok_def) (auto simp: after_event_def Let_def)
qed

lemma node_ok_step:
  assumes "node_step n n'" "node_ok n"
  shows "node_ok n'"
  using assms(1)
proof cases
  case (receive s rest peers)
  from assms(2) receive(4) have "bounded_send s" by (simp add: node_ok_def)
  from perform_send_bounded [OF this] assms(2) receive(1,4) show ?thesis
    by (auto simp: node_ok_def answered_def perform_send_channels)
next
  case (event env event ready now eff)
  with assms(2) show ?thesis by (auto intro: node_ok_event)
next
  case (command env peers command)
  with assms(2) show ?thesis
    by (cases command) (auto simp: node_ok_def node_command_step_def answered_def list_all_iff comp_def)
next
  case (monitor timeout now to_disconnect seen)
  then have "seen = filter (\<lambda>(p, _). p \<notin> set to_disconnect) (nd_seen n)"
    by (auto simp: monitor_round_def Let_def)
  with assms(2) monitor(1) show ?thesis
    by (auto simp: node_ok_def answered_def distinct_keys_filter list_all_iff)
next
  case (other_send s rest)
  then show ?thesis
    using assms(2) silent_pending [of s] by (auto simp: node_ok_def answered_def)
qed (use assms(2) in \<open>auto simp: node_ok_def answered_def\<close>)

lemma node_ok_reachable: "node_step\<^sup>*\<^sup>* (node_start st) n \<Longrightarrow> node_ok n"
proof (induction rule: rtranclp_induct)
  case base
  show ?case by (simp add: node_start_def node_ok_def answered_def)
qed (rule node_ok_step)

text \<open>A blocked node with a full channel does nothing any more.\<close>

lemma blocked_step:
  assumes "node_step n n'" "nd_blocked n" "SWARM_CAPACITY \<le> length (nd_queue n)"
  shows "nd_blocked n' \<and> nd_running n' = nd_running n \<and> nd_queue n' = nd_queue n \<and> nd_actions n' = nd_actions n
    \<and> nd_replies n' = nd_replies n \<and> nd_store n' = nd_store n"
  using assms by cases auto

lemma blocked_forever:
  assumes "node_step\<^sup>*\<^sup>* n n'" "nd_blocked n" "SWARM_CAPACITY \<le> length (nd_queue n)"
  shows "nd_blocked n' \<and> nd_running n' = nd_running n \<and> nd_queue n' = nd_queue n \<and> nd_actions n' = nd_actions n
    \<and> nd_replies n' = nd_replies n \<and> nd_store n' = nd_store n"
  using assms(1)
proof (induction rule: rtranclp_induct)
  case (step m m')
  from blocked_step [OF step(2)] step(3) assms(3) show ?case by simp
qed (use assms in simp)

lemma queue_fills:
  "k \<le> SWARM_CAPACITY \<Longrightarrow>
     node_step\<^sup>*\<^sup>* (node_start st) ((node_start st)\<lparr>nd_queue := replicate k (Broadcast share)\<rparr>)"
proof (induction k)
  case 0
  then show ?case by (simp add: node_start_def)
next
  case (Suc k)
  let ?n = "(node_start st)\<lparr>nd_queue := replicate k (Broadcast share)\<rparr>"
  let ?m = "?n\<lparr>nd_pending := [Broadcast share]\<rparr>"
  have "node_step ?n ?m" using node_step.emission [of ?n share] by (simp add: node_start_def)
  moreover have "node_step ?m ((node_start st)\<lparr>nd_queue := replicate (Suc k) (Broadcast share)\<rparr>)"
    using node_step.other_send [of ?m "Broadcast share" "[]"] Suc.prems
    by (simp add: node_start_def replicate_append_same)
  ultimately show ?case using Suc by (meson Suc_leD rtranclp.rtrancl_into_rtrancl)
qed

text \<open>The rounds of the monitor at the given times: which peer is disconnected when.\<close>

fun run_rounds :: "nat \<Rightarrow> nat list \<Rightarrow> last_seen \<Rightarrow> (nat \<times> peer_id) list" where
  "run_rounds timeout [] seen = []"
| "run_rounds timeout (now # rounds) seen =
     (case monitor_round timeout now seen of
        (to_disconnect, seen') \<Rightarrow> map (Pair now) to_disconnect @ run_rounds timeout rounds seen')"

lemma monitor_round_effect:
  assumes "distinct (map fst seen)" "monitor_round timeout now seen = (to_disconnect, seen')"
  shows "distinct (map fst seen') \<and> distinct to_disconnect
    \<and> (peer \<in> set to_disconnect \<longleftrightarrow> (\<exists>t. (peer, t) \<in> set seen \<and> t + timeout < now))
    \<and> ((peer, t) \<in> set seen' \<longleftrightarrow> (peer, t) \<in> set seen \<and> \<not> t + timeout < now)"
proof -
  have uniq: "(peer, u) \<in> set seen \<Longrightarrow> (peer, t) \<in> set seen \<Longrightarrow> u = t" for u t
    using assms(1) by (metis eq_key_imp_eq_value)
  have late: "timeout < now - t \<longleftrightarrow> t + timeout < now" for t by arith
  have ds: "to_disconnect = map fst (filter (\<lambda>(peer, t). t + timeout < now) seen)"
    "seen' = filter (\<lambda>(peer, _). peer \<notin> set to_disconnect) seen"
    using assms(2) by (auto simp: monitor_round_def Let_def late)
  have "distinct (map fst seen')" "distinct to_disconnect"
    unfolding ds by (rule distinct_keys_filter [OF assms(1)])+
  moreover have mem: "peer \<in> set to_disconnect \<longleftrightarrow> (\<exists>t. (peer, t) \<in> set seen \<and> t + timeout < now)"
    by (force simp: ds(1))
  moreover have "(peer, t) \<in> set seen' \<longleftrightarrow> (peer, t) \<in> set seen \<and> peer \<notin> set to_disconnect"
    by (auto simp: ds(2))
  then have "(peer, t) \<in> set seen' \<longleftrightarrow> (peer, t) \<in> set seen \<and> \<not> t + timeout < now"
    unfolding mem using uniq by blast
  ultimately show ?thesis by blast
qed

lemma run_rounds_first:
  assumes "distinct (map fst seen)" "sorted rounds"
  shows "(now, peer) \<in> set (run_rounds timeout rounds seen) \<longleftrightarrow>
    (\<exists>t. (peer, t) \<in> set seen \<and> find (\<lambda>now. t + timeout < now) rounds = Some now)"
  using assms
proof (induction timeout rounds seen rule: run_rounds.induct)
  case (2 timeout r rounds seen)
  obtain ds seen' where round: "monitor_round timeout r seen = (ds, seen')" by fastforce
  note eff = monitor_round_effect [OF 2(2) round]
  have uniq: "(peer, u) \<in> set seen \<Longrightarrow> (peer, t) \<in> set seen \<Longrightarrow> u = t" for u t
    using 2(2) by (metis eq_key_imp_eq_value)
  from 2(1) [OF round [symmetric]] eff 2(3) have
    "(now, peer) \<in> set (run_rounds timeout rounds seen') \<longleftrightarrow>
      (\<exists>t. (peer, t) \<in> set seen' \<and> find (\<lambda>now. t + timeout < now) rounds = Some now)" by simp
  then have "(now, peer) \<in> set (run_rounds timeout (r # rounds) seen) \<longleftrightarrow>
      now = r \<and> (\<exists>t. (peer, t) \<in> set seen \<and> t + timeout < r)
      \<or> (\<exists>t. (peer, t) \<in> set seen \<and> \<not> t + timeout < r \<and> find (\<lambda>now. t + timeout < now) rounds = Some now)"
    using eff [of peer] by (auto simp: round image_iff)
  moreover have "find (\<lambda>now. t + timeout < now) (r # rounds) = Some now \<longleftrightarrow>
      (if t + timeout < r then now = r else find (\<lambda>now. t + timeout < now) rounds = Some now)" for t
    by auto
  ultimately show ?case by metis
qed simp

text \<open>The answers to requests, when the index can be read.\<close>

lemma handle_getblocks_answers:
  assumes "index_readable st"
  shows "\<exists>hashes. locator_answer (pe_key_may_exist env) st locator stop 500 hashes
    \<and> handle_getblocks env st locator stop ch =
        (if pe_swarm_open env then (Ok (), [Response ch (Inventory (BlockHashes hashes))]) else (Err SwarmClosed, []))"
  using locator_answers [OF assms, of "pe_key_may_exist env" locator stop 500]
  by (auto simp: handle_getblocks_def send_result_def swarm_tx_send_def MAX_BLOCKS_def)

lemma handle_getheaders_answers:
  assumes "index_readable st"
  shows "\<exists>hashes. locator_answer (pe_key_may_exist env) st locator stop 2000 hashes
    \<and> handle_getheaders env st locator stop ch =
        (if pe_swarm_open env then (Ok (), [Response ch (ShareHeaders (get_share_headers st hashes))])
         else (Err SwarmClosed, []))"
  using locator_answers [OF assms, of "pe_key_may_exist env" locator stop 2000]
  by (auto simp: handle_getheaders_def send_result_def swarm_tx_send_def MAX_HEADERS_def)

lemma handle_share_block_effect:
  "if validate (pe_now env) st share = Ok ()
   then snd (handle_share_block env share st) = snd (chain_add_share (pe_btc env) (pe_writer_alive env) share True st)
     \<and> (fst (handle_share_block env share st) = Ok () \<longleftrightarrow>
          fst (chain_add_share (pe_btc env) (pe_writer_alive env) share True st) = Ok ())
   else snd (handle_share_block env share st) = st \<and> fst (handle_share_block env share st) \<noteq> Ok ()"
  by (auto simp: handle_share_block_def split: outcome.splits prod.splits)

section \<open>Properties\<close>

text \<open>
  C36: what a peer's request does, kind by kind. A request for blocks is answered, on its own
  channel, with the hashes that belong to its locator, at most 500: descendants of the first
  locator hash the node has, all of them when they fit and the stop hash is not among them, the genesis
  hash when no locator hash is known. A request for headers is answered with the stored headers of at
  most 2000 such hashes. Neither touches the store; with the swarm channel closed they fail and
  send nothing. A share changes the store only when it passes validation, and then exactly as adding it
  does; it is accepted if and only if it was valid and could be added, and nothing is sent back. Every
  other message is accepted and has no effect. With an unreadable index nothing but a bounded answer
  is sent either.
\<close>

theorem peer_requests_safe:
  assumes "handle_request env ctx st = (result, st', sent)"
  shows "(case rc_request ctx of
      GetShareBlocks locator stop \<Rightarrow>
        st' = st \<and> (index_readable st \<longrightarrow>
          (\<exists>hashes. locator_answer (pe_key_may_exist env) st locator stop 500 hashes
             \<and> (if pe_swarm_open env
                 then result = Ok () \<and> sent = [Response (rc_channel ctx) (Inventory (BlockHashes hashes))]
                 else result = Err SwarmClosed \<and> sent = [])))
    | GetShareHeaders locator stop \<Rightarrow>
        st' = st \<and> (index_readable st \<longrightarrow>
          (\<exists>hashes. locator_answer (pe_key_may_exist env) st locator stop 2000 hashes
             \<and> (if pe_swarm_open env
                 then result = Ok () \<and> sent = [Response (rc_channel ctx) (ShareHeaders (get_share_headers st hashes))]
                 else result = Err SwarmClosed \<and> sent = [])))
    | ShareBlockMessage share \<Rightarrow>
        sent = [] \<and>
        (let added = chain_add_share (pe_btc env) (pe_writer_alive env) share True st
         in if validate (pe_now env) st share = Ok ()
            then st' = snd added \<and> (result = Ok () \<longleftrightarrow> fst added = Ok ())
            else st' = st \<and> result \<noteq> Ok ())
    | _ \<Rightarrow> result = Ok () \<and> st' = st \<and> sent = [])
    \<and> (sent = [] \<or> (\<exists>hashes. sent = [Response (rc_channel ctx) (Inventory (BlockHashes hashes))] \<and> length hashes \<le> 500)
        \<or> (\<exists>headers. sent = [Response (rc_channel ctx) (ShareHeaders headers)] \<and> length headers \<le> 2000))"
proof
  from handle_request_sent [OF assms] obtain s where "sent = [] \<or> sent = [s] \<and> bounded_response (rc_channel ctx) s"
    by (cases sent) auto
  then show "sent = [] \<or> (\<exists>hashes. sent = [Response (rc_channel ctx) (Inventory (BlockHashes hashes))] \<and> length hashes \<le> 500)
        \<or> (\<exists>headers. sent = [Response (rc_channel ctx) (ShareHeaders headers)] \<and> length headers \<le> 2000)"
    by (cases "(rc_channel ctx, s)" rule: bounded_response.cases) (auto simp: MAX_BLOCKS_def MAX_HEADERS_def)
next
  show "case rc_request ctx of
      GetShareBlocks locator stop \<Rightarrow>
        st' = st \<and> (index_readable st \<longrightarrow>
          (\<exists>hashes. locator_answer (pe_key_may_exist env) st locator stop 500 hashes
             \<and> (if pe_swarm_open env
                 then result = Ok () \<and> sent = [Response (rc_channel ctx) (Inventory (BlockHashes hashes))]
                 else result = Err SwarmClosed \<and> sent = [])))
    | GetShareHeaders locator stop \<Rightarrow>
        st' = st \<and> (index_readable st \<longrightarrow>
          (\<exists>hashes. locator_answer (pe_key_may_exist env) st locator stop 2000 hashes
             \<and> (if pe_swarm_open env
                 then result = Ok () \<and> sent = [Response (rc_channel ctx) (ShareHeaders (get_share_headers st hashes))]
                 else result = Err SwarmClosed \<and> sent = [])))
    | ShareBlockMessage share \<Rightarrow>
        sent = [] \<and>
        (let added = chain_add_share (pe_btc env) (pe_writer_alive env) share True st
         in if validate (pe_now env) st share = Ok ()
            then st' = snd added \<and> (result = Ok () \<longleftrightarrow> fst added = Ok ())
            else st' = st \<and> result \<noteq> Ok ())
    | _ \<Rightarrow> result = Ok () \<and> st' = st \<and> sent = []"
  proof (cases "rc_request ctx")
    case (GetShareBlocks locator stop)
    with assms show ?thesis
      using handle_getblocks_answers [of st env locator stop "rc_channel ctx"]
      by (cases "pe_swarm_open env") (auto simp: handle_request_def split: prod.splits)
  next
    case (GetShareHeaders locator stop)
    with assms show ?thesis
      using handle_getheaders_answers [of st env locator stop "rc_channel ctx"]
      by (cases "pe_swarm_open env") (auto simp: handle_request_def split: prod.splits)
  next
    case (ShareBlockMessage share)
    with assms handle_share_block_effect [of env st share] show ?thesis
      by (auto simp: handle_request_def map_err_Ok_iff Let_def split: prod.splits if_splits)
  qed (use assms in \<open>auto simp: handle_request_def handle_share_headers_def\<close>)
qed

text \<open>
  C15: over every run of the node, a request is answered at most once and only on a channel it
  came with, an answer in flight included; every answer is a bounded list of hashes or headers;
  and the swarm channel never holds more than its 100 elements.
\<close>

theorem requests_answered_once:
  assumes "node_step\<^sup>*\<^sup>* (node_start st) n"
  shows "distinct (answered n) \<and> set (answered n) \<subseteq> set (nd_requests n) \<and> distinct (nd_requests n)
    \<and> list_all bounded_action (nd_actions n) \<and> length (nd_queue n) \<le> 100"
  using node_ok_reachable [OF assms] by (simp add: node_ok_def SWARM_CAPACITY_def)

text \<open>
  C38: the node can block itself: it is the only receiver of the swarm channel and waits in its own
  handlers for room in it. From the start it can reach a state in which the channel is full and a
  request for headers makes it wait for ever: it takes nothing from the channel, performs no
  action and answers no command again.
\<close>

theorem full_channel_blocks_node:
  "\<exists>n n'. node_step\<^sup>*\<^sup>* (node_start st) n \<and> \<not> nd_blocked n \<and> node_step n n'
    \<and> (\<forall>n''. node_step\<^sup>*\<^sup>* n' n'' \<longrightarrow> nd_running n'' \<and> nd_blocked n'' \<and> nd_queue n'' = nd_queue n \<and> nd_queue n \<noteq> []
         \<and> nd_actions n'' = nd_actions n \<and> nd_replies n'' = nd_replies n)"
proof -
  define env :: peer_env where "env = \<lparr>pe_btc = sample_btc, pe_key_may_exist = (\<lambda>_ _. False), pe_writer_alive = True,
    pe_swarm_open = True, pe_now = 0, pe_now_micros = 0\<rparr>"
  define n where "n = (node_start st)\<lparr>nd_queue := replicate SWARM_CAPACITY (Broadcast sample_block)\<rparr>"
  define ev where "ev = RequestResponse (IncomingRequest 0 (GetShareHeaders [] 0) 0)"
  have "\<exists>hs. get_headers_for_locator (\<lambda>_ _. False) st [] 0 MAX_HEADERS = Ok hs"
    by (auto simp: get_headers_for_locator_def get_blockhashes_for_locator_def
        outcome_simps split: option.split)
  then obtain eff where eff: "handle_swarm_event env Ready 0 ev (nd_store n) (nd_seen n) = Some eff"
    "length (ev_sent eff) = 1" "ev_actions eff = []" "ev_result eff = Ok ()"
    by (auto simp: ev_def handle_swarm_event_def node_request_response_event_def inactivity_call_def handle_request_def
        handle_getheaders_def send_result_def swarm_tx_send_def env_def n_def node_start_def logged_def)
  let ?n' = "after_event ev eff n"
  have step: "node_step n ?n'"
    by (rule node_step.event [OF _ _ _ _ eff(1)]) (simp_all add: n_def node_start_def env_def)
  have reach: "node_step\<^sup>*\<^sup>* (node_start st) n" unfolding n_def by (rule queue_fills) simp
  have "nd_blocked ?n'" "SWARM_CAPACITY \<le> length (nd_queue ?n')" "nd_running ?n'"
    "nd_queue ?n' = nd_queue n" "nd_actions ?n' = nd_actions n" "nd_replies ?n' = nd_replies n"
    using eff by (simp_all add: after_event_def Let_def n_def)
  note blocked = blocked_forever [OF _ this(1,2)] this(3-6)
  have "\<not> nd_blocked n" "nd_queue n \<noteq> []" by (simp_all add: n_def node_start_def SWARM_CAPACITY_def)
  with reach step blocked show ?thesis by (intro exI [of _ n] exI [of _ ?n']) auto
qed

text \<open>
  Inactive peers. A peer whose last request came at time t is disconnected, once, by the first
  round of the monitor later than t plus the timeout; a peer that never sent a request is never
  disconnected by the monitor.
\<close>

theorem inactive_peer_disconnected:
  assumes "distinct (map fst seen)" "sorted rounds"
  shows "((now, peer) \<in> set (run_rounds timeout rounds (mark_seen peer t seen)) \<longleftrightarrow>
            find (\<lambda>now. t + timeout < now) rounds = Some now)
    \<and> (other \<noteq> peer \<and> other \<notin> fst ` set seen \<longrightarrow> (now, other) \<notin> set (run_rounds timeout rounds (mark_seen peer t seen)))"
proof -
  have "(peer, u) \<in> set (mark_seen peer t seen) \<longleftrightarrow> u = t" for u by (auto simp: mark_seen_def)
  moreover have "other \<noteq> peer \<and> other \<notin> fst ` set seen \<Longrightarrow> (other, u) \<notin> set (mark_seen peer t seen)" for u
    by (force simp: mark_seen_def)
  ultimately show ?thesis
    by (simp add: run_rounds_first [OF mark_seen_keys [OF assms(1)] assms(2)])
qed

section \<open>Instances\<close>

definition sample_env :: peer_env where
  "sample_env = \<lparr>pe_btc = time_btc, pe_key_may_exist = (\<lambda>st h. block_cf st h \<noteq> Absent), pe_writer_alive = True,
     pe_swarm_open = True, pe_now = 4, pe_now_micros = 0\<rparr>"

theorem peer_requests_safe_witness:
  "\<exists>hashes. handle_request sample_env \<lparr>rc_peer = 1, rc_request = GetShareBlocks [9, 2] 0, rc_channel = 7\<rparr> sample_dag
       = (Ok (), sample_dag, [Response 7 (Inventory (BlockHashes hashes))])
     \<and> set hashes \<subseteq> (child_rel sample_dag)\<^sup>+ `` {2} \<and> length hashes \<le> 500"
proof -
  obtain r st' sent where h: "handle_request sample_env
      \<lparr>rc_peer = 1, rc_request = GetShareBlocks [9, 2] 0, rc_channel = 7\<rparr> sample_dag = (r, st', sent)"
    using prod_cases3 by blast
  have "get_first_existing_blockhash (pe_key_may_exist sample_env) sample_dag [9, 2] = Some 2"
    by (simp add: sample_env_def chain_cell_def)
  with peer_requests_safe [OF h] h sample_dag_ok(1) show ?thesis
    by (auto simp: locator_answer_def sample_env_def)
qed

theorem requests_answered_once_witness:
  "\<exists>n. node_step\<^sup>*\<^sup>* (node_start sample_dag) n \<and> nd_requests n = [7] \<and> answered n = [7] \<and> distinct (answered n)"
proof -
  let ?n = "node_start sample_dag"
  define ev where "ev = RequestResponse (IncomingRequest 1 (GetShareHeaders [9, 2] 0) 7)"
  obtain hs where "handle_getheaders sample_env sample_dag [9, 2] 0 7 = (Ok (), [Response 7 (ShareHeaders hs)])"
    using handle_getheaders_answers [OF sample_dag_ok(1), of sample_env "[9, 2]" 0 7]
    by (auto simp: sample_env_def)
  then obtain eff where eff: "handle_swarm_event sample_env Ready 0 ev (nd_store ?n) (nd_seen ?n) = Some eff"
    "ev_sent eff = [Response 7 (ShareHeaders hs)]" "ev_actions eff = []" "ev_result eff = Ok ()"
    by (auto simp: ev_def handle_swarm_event_def node_request_response_event_def inactivity_call_def handle_request_def
        node_start_def logged_def)
  have "node_step ?n (after_event ev eff ?n)"
    by (rule node_step.event [OF _ _ _ _ eff(1)]) (simp_all add: node_start_def sample_env_def)
  then have reached: "node_step\<^sup>*\<^sup>* ?n (after_event ev eff ?n)" by (rule r_into_rtranclp)
  moreover have "nd_requests (after_event ev eff ?n) = [7]" "answered (after_event ev eff ?n) = [7]"
    using eff by (simp_all add: after_event_def Let_def ev_def node_start_def answered_def SWARM_CAPACITY_def)
  ultimately show ?thesis using requests_answered_once [OF reached] by blast
qed

theorem full_channel_blocks_node_witness:
  "\<exists>n n'. node_step\<^sup>*\<^sup>* (node_start sample_dag) n \<and> \<not> nd_blocked n \<and> node_step n n' \<and> nd_blocked n'"
  using full_channel_blocks_node [of sample_dag] by blast

theorem inactive_peer_disconnected_witness:
  "(70, 3) \<in> set (run_rounds 20 [30, 60, 70, 90] (mark_seen 3 45 [(4, 5)]))"
  using inactive_peer_disconnected [of "[(4, 5)]" "[30, 60, 70, 90]" 70 3 20 45] by simp

end
