(* ===== verification/Block_Template.thy ===== *)
theory Block_Template
  imports Share_Block Payout
begin

text \<open>
  The work a job is made of: block templates (\<open>stratum/work/block_template.rs\<close>), the merkle
  branches of their transactions (\<open>stratum/work/gbt.rs\<close>), the coinbase with its room for the
  extranonces, its split into two halves and the outputs read back from the second half
  (\<open>stratum/work/coinbase.rs\<close>), and the byte orders of \<open>stratum/util.rs\<close>. Functions of the
  \<open>hex\<close> and \<open>bitcoin\<close> crates beyond those of \<open>btc\<close> are the fields of \<open>crates\<close>.
\<close>

section \<open>Functions of the crates\<close>

record 'addr crates =
  hex_encode :: "bytes \<Rightarrow> string"
  hex_decode :: "string \<Rightarrow> bytes option"
  parse_hash :: "string \<Rightarrow> 256 word option"
  display_hash :: "256 word \<Rightarrow> string"
  hash_bytes :: "256 word \<Rightarrow> bytes"
  sha256d_hash :: "bytes \<Rightarrow> 256 word"
  push_int :: "int \<Rightarrow> bytes"
  push_slice :: "bytes \<Rightarrow> bytes"
  script_pubkey :: "'addr \<Rightarrow> bytes"
  compact_from_hex :: "string \<Rightarrow> u32 option"
  difficulty_of_target :: "u32 \<Rightarrow> f64"
  difficulty_of_hash :: "256 word \<Rightarrow> f64"
  validate_pow :: "bitcoin_header \<Rightarrow> u32 \<Rightarrow> bool"
  p2wpkh_script :: "pubkey \<Rightarrow> network \<Rightarrow> bytes"
  address_of_script :: "bytes \<Rightarrow> string option"
  c_txouts :: "txout list codec"

text \<open>
  What the crates document: hexadecimal text is two digits per byte and decoding inverts encoding;
  a hash is displayed with its 32 bytes reversed and parsed back; a short push is one length byte
  and the data.
\<close>

definition hex_ok :: "'addr crates \<Rightarrow> bool" where
  "hex_ok X \<longleftrightarrow> (\<forall>bs. hex_decode X (hex_encode X bs) = Some bs)
     \<and> (\<forall>as bs. hex_encode X (as @ bs) = hex_encode X as @ hex_encode X bs)
     \<and> (\<forall>bs. length (hex_encode X bs) = 2 * length bs)"

definition hashes_ok :: "'addr crates \<Rightarrow> bool" where
  "hashes_ok X \<longleftrightarrow> (\<forall>h. display_hash X h = hex_encode X (rev (hash_bytes X h)))
     \<and> (\<forall>h. parse_hash X (display_hash X h) = Some h)
     \<and> (\<forall>h. length (hash_bytes X h) = 32)"

definition pushes_ok :: "'addr crates \<Rightarrow> bool" where
  "pushes_ok X \<longleftrightarrow> (\<forall>bs. length bs \<le> 75 \<longrightarrow> push_slice X bs = word_of_nat (length bs) # bs)"

section \<open>Templates\<close>

record template_transaction =
  tt_data :: string
  tt_txid :: string
  tt_hash :: string
  tt_depends :: "u32 list"
  tt_fee :: u64
  tt_sigops :: u32
  tt_weight :: u32

record block_template =
  bt_version :: i32
  bt_rules :: "string list"
  bt_vbavailable :: "(string \<times> i32) list"
  bt_vbrequired :: u32
  bt_previousblockhash :: string
  bt_transactions :: "template_transaction list"
  bt_coinbaseaux :: "string \<Rightarrow> string option"
  bt_coinbasevalue :: u64
  bt_longpollid :: string
  bt_target :: string
  bt_mintime :: u32
  bt_mutable :: "string list"
  bt_noncerange :: string
  bt_sigoplimit :: u32
  bt_sizelimit :: u32
  bt_weightlimit :: u32
  bt_curtime :: u32
  bt_bits :: string
  bt_height :: u32
  bt_default_witness_commitment :: "string option"

definition transaction_from_template ::
  "'addr crates \<Rightarrow> btc \<Rightarrow> template_transaction \<Rightarrow> ('e, transaction) outcome" where
  "transaction_from_template X B tx =
     and_then (unwrap (hex_decode X (tt_data tx))) (\<lambda>bytes.
       unwrap (deserialize (dec (c_transaction B)) bytes))"

definition template_txids :: "'addr crates \<Rightarrow> block_template \<Rightarrow> ('e, txid list) outcome" where
  "template_txids X template = collect (\<lambda>tx. unwrap (parse_hash X (tt_txid tx))) (bt_transactions template)"

definition get_merkle_root_without_coinbase ::
  "'addr crates \<Rightarrow> btc \<Rightarrow> block_template \<Rightarrow> ('e, merkle_node option) outcome" where
  "get_merkle_root_without_coinbase X B template =
     and_then (template_txids X template) (\<lambda>hashes. Ok (calculate_root B hashes))"

definition decode_transactions :: "'addr crates \<Rightarrow> btc \<Rightarrow> block_template \<Rightarrow> ('e, transaction list) outcome" where
  "decode_transactions X B template = collect (transaction_from_template X B) (bt_transactions template)"

section \<open>Byte orders\<close>

fun chunks4 :: "'a list \<Rightarrow> 'a list list" where
  "chunks4 [] = []"
| "chunks4 (x # xs) = take 4 (x # xs) # chunks4 (drop 3 xs)"

definition reverse_four_byte_chunks :: "'addr crates \<Rightarrow> string \<Rightarrow> (work_error, string) outcome" where
  "reverse_four_byte_chunks X hash_hex =
     (if length hash_hex \<noteq> 64 then Err (WorkError ''Hash length is incorrect'')
      else case hex_decode X hash_hex of
             None \<Rightarrow> Err (WorkError ''Invalid hex'')
           | Some bytes \<Rightarrow> Ok (hex_encode X (concat (rev (chunks4 bytes)))))"

definition to_be_hex :: "'addr crates \<Rightarrow> string \<Rightarrow> ('e, string) outcome" where
  "to_be_hex X le = and_then (unwrap (hex_decode X le)) (\<lambda>bytes. Ok (hex_encode X (rev bytes)))"

section \<open>Merkle branches\<close>

text \<open>Neighbours hashed together; the last one of an odd number with itself.\<close>

fun pair_hashes :: "('h \<Rightarrow> 'h \<Rightarrow> 'h) \<Rightarrow> 'h list \<Rightarrow> 'h list" where
  "pair_hashes f [] = []"
| "pair_hashes f [left] = [f left left]"
| "pair_hashes f (left # right # rest) = f left right # pair_hashes f rest"

lemma length_pair_hashes: "length (pair_hashes f hs) = (length hs + 1) div 2"
  by (induction f hs rule: pair_hashes.induct) auto

text \<open>
  The loop: the first hash is the next branch; the pairs start at the second.
\<close>

function merkle_branches :: "('h \<Rightarrow> 'h \<Rightarrow> 'h) \<Rightarrow> 'h list \<Rightarrow> 'h list" where
  "merkle_branches f [] = []"
| "merkle_branches f (txid # txids) = txid # merkle_branches f (pair_hashes f txids)"
  by pat_completeness auto
termination
  by (relation "measure (\<lambda>(f, hs). length hs)") (auto simp: length_pair_hashes)

definition node_hash :: "'addr crates \<Rightarrow> 256 word \<Rightarrow> 256 word \<Rightarrow> 256 word" where
  "node_hash X left right = sha256d_hash X (hash_bytes X left @ hash_bytes X right)"

definition compute_merkle_branches :: "'addr crates \<Rightarrow> 256 word list \<Rightarrow> 256 word list" where
  "compute_merkle_branches X input_txids = merkle_branches (node_hash X) input_txids"

definition build_merkle_branches_for_template ::
  "'addr crates \<Rightarrow> block_template \<Rightarrow> ('e, 256 word list) outcome" where
  "build_merkle_branches_for_template X template =
     and_then (template_txids X template) (\<lambda>txids. Ok (compute_merkle_branches X txids))"

section \<open>Coinbase\<close>

definition EXTRANONCE1_SIZE :: nat where "EXTRANONCE1_SIZE = 4"
definition EXTRANONCE2_SIZE :: nat where "EXTRANONCE2_SIZE = 8"

definition EXTRANONCE_SEPARATOR :: bytes where
  "EXTRANONCE_SEPARATOR = replicate (EXTRANONCE1_SIZE + EXTRANONCE2_SIZE) 1"

definition SEQUENCE_LENGTH :: nat where "SEQUENCE_LENGTH = 4"
definition LOCKTIME_LENGTH :: nat where "LOCKTIME_LENGTH = 4"

definition build_outputs :: "'addr crates \<Rightarrow> 'addr output_pair list \<Rightarrow> txout list" where
  "build_outputs X output_data =
     map (\<lambda>pair. \<lparr>to_value = op_amount pair, to_script_pubkey = script_pubkey X (op_address pair)\<rparr>) output_data"

definition append_default_witness_commitment ::
  "'addr crates \<Rightarrow> txout list \<Rightarrow> string option \<Rightarrow> (work_error, txout list) outcome" where
  "append_default_witness_commitment X outputs default_witness_commitment =
     (case default_witness_commitment of
        None \<Rightarrow> Ok outputs
      | Some commitment_hex \<Rightarrow>
          (case hex_decode X commitment_hex of
             None \<Rightarrow> Err (WorkError ''Invalid witness commitment hex'')
           | Some commitment \<Rightarrow> Ok (outputs @ [\<lparr>to_value = 0, to_script_pubkey = commitment\<rparr>])))"

definition coinbase_script_head ::
  "'addr crates \<Rightarrow> int \<Rightarrow> 256 word option \<Rightarrow> bytes \<Rightarrow> u32 \<Rightarrow> u32 \<Rightarrow> bytes" where
  "coinbase_script_head X height commitment aux_flags secs nsecs =
     push_int X height
     @ (case commitment of None \<Rightarrow> [] | Some hash \<Rightarrow> push_slice X (hash_bytes X hash))
     @ push_slice X aux_flags @ push_slice X (to_le_bytes secs) @ push_slice X (to_le_bytes nsecs)"

definition build_coinbase_transaction ::
  "'addr crates \<Rightarrow> u32 \<times> u32 \<Rightarrow> i32 \<Rightarrow> 'addr output_pair list \<Rightarrow> int \<Rightarrow> bytes \<Rightarrow> string option \<Rightarrow> bytes
     \<Rightarrow> 256 word option \<Rightarrow> (work_error, transaction) outcome" where
  "build_coinbase_transaction X timestamp version output_data height aux_flags default_witness_commitment
     pool_signature commitment =
     (if output_data = [] then Err (WorkError ''Empty output distribution'')
      else
        let coinbase_script =
              coinbase_script_head X height commitment aux_flags (fst timestamp) (snd timestamp)
              @ push_slice X EXTRANONCE_SEPARATOR @ push_slice X pool_signature
        in and_then (append_default_witness_commitment X (build_outputs X output_data) default_witness_commitment)
             (\<lambda>outputs.
                Ok \<lparr>tx_version = version, tx_lock_time = 0,
                    tx_input = [\<lparr>ti_previous_output = (0, - 1), ti_script_sig = coinbase_script,
                                 ti_sequence = - 1, ti_witness = []\<rparr>],
                    tx_output = outputs\<rparr>))"

text \<open>\<open>windows(n).position(..)\<close>\<close>

fun find_window :: "'a list \<Rightarrow> 'a list \<Rightarrow> nat option" where
  "find_window w [] = (if w = [] then Some 0 else None)"
| "find_window w (b # bs) =
     (if take (length w) (b # bs) = w then Some 0 else map_option Suc (find_window w bs))"

definition split_coinbase ::
  "'addr crates \<Rightarrow> btc \<Rightarrow> transaction \<Rightarrow> (work_error, string \<times> string) outcome" where
  "split_coinbase X B coinbase =
     (let serialized = enc (c_transaction B) coinbase
      in case find_window EXTRANONCE_SEPARATOR serialized of
           None \<Rightarrow> Err (WorkError ''Invalid coinbase transaction'')
         | Some separator_pos \<Rightarrow>
             Ok (hex_encode X (take separator_pos serialized),
                 hex_encode X (drop (separator_pos + (EXTRANONCE1_SIZE + EXTRANONCE2_SIZE)) serialized)))"

definition extract_outputs_from_coinbase2 ::
  "'addr crates \<Rightarrow> string \<Rightarrow> nat \<Rightarrow> (work_error, txout list) outcome" where
  "extract_outputs_from_coinbase2 X coinbase2_hex pool_signature_len =
     (case hex_decode X coinbase2_hex of
        None \<Rightarrow> Err (WorkError ''Error parsing coinbase hex'')
      | Some coinbase2_bytes \<Rightarrow>
          (let script_sig_part2_len = 1 + pool_signature_len;
               output_data_start_index = script_sig_part2_len + SEQUENCE_LENGTH
           in if length coinbase2_bytes < output_data_start_index + LOCKTIME_LENGTH
              then Err (WorkError ''coinbase2 too short'')
              else
                let output_data_end_index = length coinbase2_bytes - LOCKTIME_LENGTH;
                    output_data = drop output_data_start_index (take output_data_end_index coinbase2_bytes)
                in ok_or (WorkError ''Bad outputs in coinbase2'') (deserialize (dec (c_txouts X)) output_data)))"

text \<open>\<open>build_coinbase_from_components\<close>: the transaction of a submitted share.\<close>

definition build_coinbase_from_components ::
  "'addr crates \<Rightarrow> btc \<Rightarrow> string \<Rightarrow> string \<Rightarrow> string \<Rightarrow> string \<Rightarrow> (string, transaction) outcome" where
  "build_coinbase_from_components X B coinbase1 enonce1 enonce2 coinbase2 =
     and_then (unwrap (hex_decode X (coinbase1 @ enonce1 @ enonce2 @ coinbase2))) (\<lambda>tx_bytes.
       ok_or ''Failed to decode coinbase transaction'' (map_option fst (dec (c_transaction B) tx_bytes)))"

section \<open>Lemmas\<close>

text \<open>
  The merkle root of a list of hashes as the bitcoin crate computes it: node \<open>i\<close> of a level
  combines the nodes \<open>2 i\<close> and \<open>2 i + 1\<close> of the level below, or the last one with itself when
  there is no such second node.
\<close>

definition merkle_level :: "('h \<Rightarrow> 'h \<Rightarrow> 'h) \<Rightarrow> 'h list \<Rightarrow> 'h list" where
  "merkle_level f hs =
     map (\<lambda>i. f (hs ! (2 * i)) (hs ! min (2 * i + 1) (length hs - 1))) [0..<(length hs + 1) div 2]"

function merkle_root :: "('h \<Rightarrow> 'h \<Rightarrow> 'h) \<Rightarrow> 'h list \<Rightarrow> 'h option" where
  "merkle_root f [] = None"
| "merkle_root f [h] = Some h"
| "merkle_root f (h # h' # hs) = merkle_root f (merkle_level f (h # h' # hs))"
  by pat_completeness auto
termination
  by (relation "measure (\<lambda>(f, hs). length hs)") (auto simp: merkle_level_def)

text \<open>Hashing in pairs computes a level.\<close>

lemma merkle_level_Cons: "merkle_level f (a # b # hs) = f a b # merkle_level f hs"
proof (rule nth_equalityI)
  fix i
  assume i: "i < length (merkle_level f (a # b # hs))"
  show "merkle_level f (a # b # hs) ! i = (f a b # merkle_level f hs) ! i"
  proof (cases i)
    case (Suc j)
    with i have "min (Suc (2 * i)) (Suc (length hs)) = Suc (Suc (min (Suc (2 * j)) (length hs - 1)))"
      by (auto simp: merkle_level_def)
    with i Suc show ?thesis by (simp add: merkle_level_def del: upt_Suc)
  qed (simp add: merkle_level_def del: upt_Suc)
qed (simp add: merkle_level_def)

lemma pair_hashes_level: "pair_hashes f hs = merkle_level f hs"
  by (induction f hs rule: pair_hashes.induct) (simp_all add: merkle_level_Cons, simp_all add: merkle_level_def)

text \<open>What a miner computes: the coinbase hash combined with every branch in turn.\<close>

lemma merkle_branches_root: "Some (foldl f h (merkle_branches f txids)) = merkle_root f (h # txids)"
proof (induction f txids arbitrary: h rule: merkle_branches.induct)
  case (2 f txid txids)
  then show ?case by (simp add: merkle_level_Cons pair_hashes_level)
qed simp

lemma length_merkle_branches: "length txids < 2 ^ n \<Longrightarrow> length (merkle_branches f txids) \<le> n"
proof (induction f txids arbitrary: n rule: merkle_branches.induct)
  case (2 f txid txids)
  then obtain m where m: "n = Suc m" by (cases n) auto
  with 2(2) have "length (pair_hashes f txids) < 2 ^ m" by (simp add: length_pair_hashes)
  from 2(1) [OF this] m show ?case by simp
qed simp

lemma concat_chunks4: "concat (chunks4 xs) = xs"
proof (induction xs rule: chunks4.induct)
  case (2 x xs)
  then show ?case by (simp add: take_Cons')
qed simp

lemma chunks4_blocks: "length xs mod 4 = 0 \<Longrightarrow> chunk \<in> set (chunks4 xs) \<Longrightarrow> length chunk = 4"
proof (induction xs rule: chunks4.induct)
  case (2 x xs)
  from 2(2) have "Suc (length xs) mod 4 = 0" by simp
  then have len: "3 \<le> length xs" by presburger
  then have "length (drop 3 xs) mod 4 = 0" using \<open>Suc (length xs) mod 4 = 0\<close> by (simp, presburger)
  with 2 len show ?case by auto
qed simp

lemma chunks4_concat: "\<forall>c \<in> set cs. length c = 4 \<Longrightarrow> chunks4 (concat cs) = cs"
proof (induction cs)
  case (Cons c cs)
  then obtain w x y z where "c = [w, x, y, z]"
    by (cases c rule: chunks4.cases) (auto simp: numeral_eq_Suc length_Suc_conv)
  with Cons show ?case by simp
qed simp

lemma hex_append: "hex_ok X \<Longrightarrow> hex_encode X as @ hex_encode X bs = hex_encode X (as @ bs)"
  by (simp add: hex_ok_def)

lemma hex_round_trip: "hex_ok X \<Longrightarrow> hex_decode X (hex_encode X bs) = Some bs"
  by (simp add: hex_ok_def)

lemma find_window_Some:
  "find_window w bs = Some k \<Longrightarrow> bs = take k bs @ w @ drop (k + length w) bs \<and> k + length w \<le> length bs"
proof (induction w bs arbitrary: k rule: find_window.induct)
  case (2 w b bs)
  show ?case
  proof (cases "take (length w) (b # bs) = w")
    case True
    with 2(2) have "k = 0" by simp
    moreover have "length w \<le> length (b # bs)" using True by (metis length_take min.cobounded1)
    ultimately show ?thesis using True append_take_drop_id [of "length w" "b # bs"] by simp
  next
    case False
    with 2(2) obtain j where "find_window w bs = Some j" "k = Suc j" by auto
    with 2(1) [OF False] show ?thesis by simp
  qed
qed (auto split: if_splits)

lemma find_window_exists: "w \<noteq> [] \<Longrightarrow> \<exists>k. find_window w (as @ w @ bs) = Some k \<and> k \<le> length as"
proof (induction as)
  case Nil
  then show ?case by (cases w) auto
qed auto

lemma find_window_at:
  assumes "find_window w pre = None" "w \<noteq> []" "pre \<noteq> [] \<Longrightarrow> last pre \<notin> set w"
  shows "find_window w (pre @ w @ post) = Some (length pre)"
  using assms
proof (induction pre)
  case Nil
  then show ?case by (cases w) auto
next
  case (Cons b pre)
  have "take (length w) (b # pre @ w @ post) \<noteq> w"
  proof
    assume eq: "take (length w) (b # pre @ w @ post) = w"
    show False
    proof (cases "length w \<le> length (b # pre)")
      case True
      with eq have "take (length w) (b # pre) = w" by (cases w) (auto simp: Cons.prems(2))
      with Cons.prems(1) show False by simp
    next
      case False
      then have "b # pre = take (length (b # pre)) (take (length w) (b # pre @ w @ post))"
        by (cases w) (auto simp: min_def)
      then have "set (b # pre) \<subseteq> set w" unfolding eq by (metis set_take_subset)
      with Cons.prems(3) last_in_set [of "b # pre"] show False by blast
    qed
  qed
  moreover from Cons have "find_window w (pre @ w @ post) = Some (length pre)"
    by (auto split: if_splits)
  ultimately show ?case by simp
qed

text \<open>
  The layout of a transaction with one input and no witness: something that depends on the version,
  the outpoint and the length of the script, then the script, the sequence number, the outputs and
  the lock time.
\<close>

definition tx_layout :: "'addr crates \<Rightarrow> btc \<Rightarrow> (i32 \<Rightarrow> txid \<times> u32 \<Rightarrow> nat \<Rightarrow> bytes) \<Rightarrow> bool" where
  "tx_layout X B tx_head \<longleftrightarrow>
     (\<forall>v lock po script sq outs.
        enc (c_transaction B)
          \<lparr>tx_version = v, tx_lock_time = lock,
           tx_input = [\<lparr>ti_previous_output = po, ti_script_sig = script, ti_sequence = sq, ti_witness = []\<rparr>],
           tx_output = outs\<rparr>
        = tx_head v po (length script) @ script @ to_le_bytes sq @ enc (c_txouts X) outs @ to_le_bytes lock)"

definition coinbase_tx :: "i32 \<Rightarrow> bytes \<Rightarrow> txout list \<Rightarrow> transaction" where
  "coinbase_tx version script outputs =
     \<lparr>tx_version = version, tx_lock_time = 0,
      tx_input = [\<lparr>ti_previous_output = (0, - 1), ti_script_sig = script, ti_sequence = - 1, ti_witness = []\<rparr>],
      tx_output = outputs\<rparr>"

lemma build_coinbase_Ok:
  assumes "build_coinbase_transaction X ts v pairs height flags witness signature commitment = Ok tx"
  shows "\<exists>outputs. append_default_witness_commitment X (build_outputs X pairs) witness = Ok outputs
    \<and> tx = coinbase_tx v (coinbase_script_head X height commitment flags (fst ts) (snd ts)
        @ push_slice X EXTRANONCE_SEPARATOR @ push_slice X signature) outputs"
  using assms by (auto simp: build_coinbase_transaction_def Let_def outcome_simps coinbase_tx_def split: if_splits)

lemma length_separator [simp]: "length EXTRANONCE_SEPARATOR = 12"
  by (simp add: EXTRANONCE_SEPARATOR_def EXTRANONCE1_SIZE_def EXTRANONCE2_SIZE_def)

lemma coinbase_values:
  assumes "append_default_witness_commitment X (build_outputs X pairs) witness = Ok outputs"
  shows "(\<Sum>out\<leftarrow>outputs. unat (to_value out)) = total_paid pairs"
proof -
  have "(\<Sum>out\<leftarrow>build_outputs X pairs. unat (to_value out)) = total_paid pairs"
    by (simp add: build_outputs_def total_paid_def comp_def)
  with assms show ?thesis
    by (auto simp: append_default_witness_commitment_def split: option.splits)
qed

text \<open>Both halves of a coinbase, and what they reassemble to.\<close>

lemma coinbase_halves:
  assumes layout: "tx_layout X B tx_head" and hex: "hex_ok X" and pushes: "pushes_ok X"
    and build: "build_coinbase_transaction X ts v pairs height flags witness signature commitment = Ok tx"
    and sig: "length signature \<le> 75"
    and run: "find_window EXTRANONCE_SEPARATOR
      (tx_head v (0, - 1) (length (coinbase_script_head X height commitment flags (fst ts) (snd ts)) + (14 + length signature))
       @ coinbase_script_head X height commitment flags (fst ts) (snd ts) @ [12]) = None"
  shows "\<exists>pre post. split_coinbase X B tx = Ok (hex_encode X pre, hex_encode X post)
    \<and> (\<forall>nonce. length nonce = 12 \<longrightarrow> pre @ nonce @ post
        = enc (c_transaction B) (coinbase_tx v (coinbase_script_head X height commitment flags (fst ts) (snd ts)
            @ push_slice X nonce @ push_slice X signature) (tx_output tx)))
    \<and> post = push_slice X signature @ to_le_bytes (- 1) @ enc (c_txouts X) (tx_output tx) @ to_le_bytes 0"
proof -
  let ?head = "coinbase_script_head X height commitment flags (fst ts) (snd ts)"
  let ?pre = "tx_head v (0, - 1) (length ?head + (14 + length signature)) @ ?head @ [12]"
  let ?post = "push_slice X signature @ to_le_bytes (- 1) @ enc (c_txouts X) (tx_output tx) @ to_le_bytes 0"
  from build_coinbase_Ok [OF build] have tx: "tx = coinbase_tx v (?head @ push_slice X EXTRANONCE_SEPARATOR @ push_slice X signature) (tx_output tx)"
    by (auto simp: coinbase_tx_def)
  have push: "push_slice X nonce = 12 # nonce" if "length nonce = 12" for nonce
    using pushes that by (simp add: pushes_ok_def)
  have "length (push_slice X signature) = Suc (length signature)"
    using pushes sig by (simp add: pushes_ok_def)
  then have bytes: "enc (c_transaction B) (coinbase_tx v (?head @ push_slice X nonce @ push_slice X signature) (tx_output tx))
      = ?pre @ nonce @ ?post" if "length nonce = 12" for nonce
    using layout that by (simp add: tx_layout_def coinbase_tx_def push)
  have "find_window EXTRANONCE_SEPARATOR (?pre @ EXTRANONCE_SEPARATOR @ ?post) = Some (length ?pre)"
    using run by (intro find_window_at) (auto simp: EXTRANONCE_SEPARATOR_def EXTRANONCE1_SIZE_def)
  moreover have "enc (c_transaction B) tx = ?pre @ EXTRANONCE_SEPARATOR @ ?post"
    by (subst tx) (rule bytes [OF length_separator])
  ultimately have "split_coinbase X B tx = Ok (hex_encode X ?pre, hex_encode X ?post)"
    by (simp add: split_coinbase_def EXTRANONCE1_SIZE_def EXTRANONCE2_SIZE_def)
  with bytes show ?thesis by (intro exI [of _ ?pre] exI [of _ ?post]) auto
qed

lemma extract_outputs_post:
  assumes "hex_ok X" "pushes_ok X" "length signature \<le> 75" "deserialize (dec (c_txouts X)) (enc (c_txouts X) outputs) = Some outputs"
  shows "extract_outputs_from_coinbase2 X
      (hex_encode X (push_slice X signature @ to_le_bytes sq @ enc (c_txouts X) outputs @ to_le_bytes lock))
      (length signature) = Ok outputs"
proof -
  have push: "length (push_slice X signature) = Suc (length signature)"
    using assms by (simp add: pushes_ok_def)
  have dec: "hex_decode X (hex_encode X bs) = Some bs" for bs using assms(1) by (simp add: hex_ok_def)
  show ?thesis
    by (simp add: extract_outputs_from_coinbase2_def dec push SEQUENCE_LENGTH_def LOCKTIME_LENGTH_def assms(4))
qed

lemma coinbase_rebuilt:
  assumes "hex_ok X" "pushes_ok X" "tx_layout X B tx_head" "btc_ok B"
    and "build_coinbase_transaction X ts v pairs height flags witness signature commitment = Ok tx"
    and "length signature \<le> 16" "length enonce1 = 4" "length enonce2 = 8"
    and "fits B (c_transaction B) tx" "deserialize (dec (c_txouts X)) (enc (c_txouts X) (tx_output tx)) = Some (tx_output tx)"
    and "find_window EXTRANONCE_SEPARATOR
      (tx_head v (0, - 1) (length (coinbase_script_head X height commitment flags (fst ts) (snd ts)) + (14 + length signature))
       @ coinbase_script_head X height commitment flags (fst ts) (snd ts) @ [12]) = None"
  shows "\<exists>c1 c2. split_coinbase X B tx = Ok (c1, c2)
    \<and> build_coinbase_from_components X B c1 (hex_encode X enonce1) (hex_encode X enonce2) c2
        = Ok (coinbase_tx v (coinbase_script_head X height commitment flags (fst ts) (snd ts)
                @ push_slice X (enonce1 @ enonce2) @ push_slice X signature) (tx_output tx))
    \<and> extract_outputs_from_coinbase2 X c2 (length signature) = Ok (tx_output tx)
    \<and> (\<Sum>out\<leftarrow>tx_output tx. unat (to_value out)) = total_paid pairs"
proof -
  from assms(6) have sig: "length signature \<le> 75" by simp
  let ?script = "\<lambda>nonce. coinbase_script_head X height commitment flags (fst ts) (snd ts)
      @ push_slice X nonce @ push_slice X signature"
  obtain pre post where split: "split_coinbase X B tx = Ok (hex_encode X pre, hex_encode X post)"
    and whole: "\<And>nonce. length nonce = 12 \<Longrightarrow>
      pre @ nonce @ post = enc (c_transaction B) (coinbase_tx v (?script nonce) (tx_output tx))"
    and post: "post = push_slice X signature @ to_le_bytes (- 1) @ enc (c_txouts X) (tx_output tx) @ to_le_bytes 0"
    using coinbase_halves [OF assms(3,1,2,5) sig assms(11)] by blast
  from build_coinbase_Ok [OF assms(5)] obtain outputs where outs:
    "append_default_witness_commitment X (build_outputs X pairs) witness = Ok outputs"
    "tx = coinbase_tx v (?script EXTRANONCE_SEPARATOR) outputs" by blast
  then have out_eq: "tx_output tx = outputs" by (simp add: coinbase_tx_def)
  let ?tx = "coinbase_tx v (?script (enonce1 @ enonce2)) (tx_output tx)"
  have nonce: "length (enonce1 @ enonce2) = 12" using assms(7,8) by simp
  have "length (enc (c_transaction B) ?tx) = length (pre @ EXTRANONCE_SEPARATOR @ post)"
    unfolding whole [OF nonce, symmetric] using nonce by simp
  also have "\<dots> = length (enc (c_transaction B) tx)"
    using whole [OF length_separator, unfolded out_eq, folded outs(2)] by (rule arg_cong)
  finally have "length (enc (c_transaction B) ?tx) = length (enc (c_transaction B) tx)" .
  with assms(9) have "fits B (c_transaction B) ?tx" by (simp add: fits_def)
  then have "dec (c_transaction B) (enc (c_transaction B) ?tx) = Some (?tx, [])"
    using assms(4) round_tripsD [of "fits B (c_transaction B)" "enc (c_transaction B)" "dec (c_transaction B)" ?tx "[]"]
    by (simp add: btc_ok_def)
  moreover have "hex_decode X (hex_encode X pre @ hex_encode X enonce1 @ hex_encode X enonce2 @ hex_encode X post)
      = Some (enc (c_transaction B) ?tx)"
    unfolding whole [OF nonce, symmetric] by (simp add: hex_append [OF assms(1)] hex_round_trip [OF assms(1)])
  ultimately show ?thesis
    using split extract_outputs_post [OF assms(1,2) sig assms(10)] coinbase_values [OF outs(1)]
    by (simp add: build_coinbase_from_components_def post out_eq)
qed

section \<open>Properties\<close>

text \<open>
  C13: the merkle branches of a job are right: the root a miner computes by hashing the coinbase
  with the branches in turn, each time the double SHA-256 of the two hashes' bytes, is the merkle
  root the server computes with the bitcoin crate over the coinbase and all transactions of
  the template, whatever the coinbase is. The crate's root is built level by level, an odd node at the end
  of a level combined with itself. Fewer than \<open>2 ^ n\<close> transactions need at most \<open>n\<close>
  branches.
\<close>

theorem branches_give_merkle_root:
  assumes "template_txids X template = (Ok txids :: ('e, txid list) outcome)"
    and "\<forall>hs. calculate_root B hs = merkle_root (\<lambda>l r. sha256d_hash X (hash_bytes X l @ hash_bytes X r)) hs"
  shows "\<exists>branches. build_merkle_branches_for_template X template = (Ok branches :: ('e, txid list) outcome)
    \<and> (\<forall>coinbase_txid. calculate_root B (coinbase_txid # txids)
          = Some (foldl (\<lambda>h branch. sha256d_hash X (hash_bytes X h @ hash_bytes X branch)) coinbase_txid branches))
    \<and> (\<forall>n. length txids < 2 ^ n \<longrightarrow> length branches \<le> n)"
  using assms merkle_branches_root [of "node_hash X" _ txids]
    length_merkle_branches [of txids _ "node_hash X"]
  by (auto simp: build_merkle_branches_for_template_def compute_merkle_branches_def node_hash_def [abs_def])

text \<open>
  C12: a job's coinbase survives its journey to the miner and back: the two halves sent out, put
  together with the extranonces of a share, are the coinbase the pool built with the extranonces
  in its script and nothing else changed; and the outputs read from the second half are the
  coinbase's outputs, whose values add up to what is to be paid. The bytes before the room for
  the extranonces must not contain the twelve bytes that mark it.
\<close>

theorem coinbase_reassembled:
  assumes "hex_ok X" "pushes_ok X" "tx_layout X B tx_head" "btc_ok B"
    and "build_coinbase_transaction X ts v pairs height flags witness signature commitment = Ok tx"
    and "length signature \<le> 16" "length enonce1 = 4" "length enonce2 = 8"
    and "fits B (c_transaction B) tx" "deserialize (dec (c_txouts X)) (enc (c_txouts X) (tx_output tx)) = Some (tx_output tx)"
    and "find_window EXTRANONCE_SEPARATOR
      (tx_head v (0, - 1) (length (coinbase_script_head X height commitment flags (fst ts) (snd ts)) + (14 + length signature))
       @ coinbase_script_head X height commitment flags (fst ts) (snd ts) @ [12]) = None"
  shows "\<exists>c1 c2. split_coinbase X B tx = Ok (c1, c2)
    \<and> build_coinbase_from_components X B c1 (hex_encode X enonce1) (hex_encode X enonce2) c2
        = Ok (coinbase_tx v (coinbase_script_head X height commitment flags (fst ts) (snd ts)
                @ push_slice X (enonce1 @ enonce2) @ push_slice X signature) (tx_output tx))
    \<and> extract_outputs_from_coinbase2 X c2 (length signature) = Ok (tx_output tx)
    \<and> (\<Sum>out\<leftarrow>tx_output tx. unat (to_value out)) = total_paid pairs"
  using assms by (rule coinbase_rebuilt)

section \<open>Instances\<close>

fun hex_pairs :: "string \<Rightarrow> bytes option" where
  "hex_pairs [] = Some []"
| "hex_pairs [c] = None"
| "hex_pairs (c # d # cs) = map_option (\<lambda>bs. word_of_nat (of_char c * 16 + of_char d) # bs) (hex_pairs cs)"

definition sample_crates :: "string crates" where
  "sample_crates =
     \<lparr>hex_encode = (\<lambda>bs. concat (map (\<lambda>b. [char_of (unat b div 16), char_of (unat b mod 16)]) bs)),
      hex_decode = hex_pairs,
      parse_hash = (\<lambda>s. map_option (\<lambda>bs. word_of_nat (of_be_bytes bs)) (hex_pairs s)),
      display_hash = (\<lambda>h. concat (map (\<lambda>b. [char_of (unat b div 16), char_of (unat b mod 16)]) (be_bytes 32 (unat h)))),
      hash_bytes = (\<lambda>h. rev (be_bytes 32 (unat h))),
      sha256d_hash = number_hash,
      push_int = (\<lambda>i. [1, word_of_int i]),
      push_slice = (\<lambda>bs. word_of_nat (length bs) # bs),
      script_pubkey = map (\<lambda>c. word_of_nat (of_char c)),
      compact_from_hex = (\<lambda>s. map_option (\<lambda>bs. word_of_nat (of_be_bytes bs)) (hex_pairs s)),
      difficulty_of_target = (\<lambda>_. Fin 1),
      difficulty_of_hash = (\<lambda>_. Fin 1),
      validate_pow = (\<lambda>h bits. bh_bits h = bits),
      p2wpkh_script = (\<lambda>key _. key),
      address_of_script = (\<lambda>bs. Some (map (\<lambda>b. char_of (unat b)) bs)),
      c_txouts = counted_codec txout_codec\<rparr>"

lemma hex_pairs_encode:
  "hex_pairs (concat (map (\<lambda>b. [char_of (unat b div 16), char_of (unat b mod 16)]) bs)) = Some bs"
proof (induction bs)
  case (Cons b bs)
  have "unat b < 256" using unsigned_less [of b, where ?'a = nat] by simp
  then have "of_char (char_of (unat b div 16) :: char) * 16 + of_char (char_of (unat b mod 16) :: char) = unat b"
    by (simp add: of_char_of)
  with Cons show ?case by simp
qed simp

lemma sample_crates_ok: "hex_ok sample_crates" "hashes_ok sample_crates" "pushes_ok sample_crates"
proof -
  have "length (concat (map (\<lambda>b :: u8. [char_of (unat b div 16), char_of (unat b mod 16) :: char]) bs)) = 2 * length bs" for bs
    by (induction bs) auto
  then show "hex_ok sample_crates" by (simp add: hex_ok_def sample_crates_def hex_pairs_encode)
  have "word_of_nat (of_be_bytes (be_bytes 32 (unat h))) = h" for h :: "256 word"
  proof -
    have "unat h < 256 ^ 32" using unsigned_less [of h, where ?'a = nat] by simp
    then show ?thesis by (simp add: of_be_bytes_be_bytes)
  qed
  then show "hashes_ok sample_crates" by (simp add: hashes_ok_def sample_crates_def hex_pairs_encode)
  show "pushes_ok sample_crates" by (simp add: pushes_ok_def sample_crates_def)
qed

text \<open>Transactions without witnesses in the layout of the protocol, after a byte that says so.\<close>

definition plain_input_codec :: "txin codec" where
  "plain_input_codec =
     \<lparr>enc = (\<lambda>i. enc (pair_codec word256_codec u32_codec) (ti_previous_output i)
               @ enc (counted_codec byte_codec) (ti_script_sig i) @ to_le_bytes (ti_sequence i)),
      dec = decode_then (dec (pair_codec word256_codec u32_codec)) (\<lambda>po.
            decode_then (dec (counted_codec byte_codec)) (\<lambda>script.
            decode_then (dec le_u32_codec) (\<lambda>sq.
              decode_return \<lparr>ti_previous_output = po, ti_script_sig = script, ti_sequence = sq, ti_witness = []\<rparr>)))\<rparr>"

definition wire_transaction_codec :: "transaction codec" where
  "wire_transaction_codec =
     \<lparr>enc = (\<lambda>t. if list_all (\<lambda>i. ti_witness i = []) (tx_input t)
               then 0 # enc u32_codec (tx_version t) @ enc (counted_codec plain_input_codec) (tx_input t)
                    @ enc (counted_codec txout_codec) (tx_output t) @ to_le_bytes (tx_lock_time t)
               else 1 # enc transaction_codec t),
      dec = (\<lambda>bs. case bs of [] \<Rightarrow> None
             | b # bs \<Rightarrow>
                 if b = 0 then
                   decode_then (dec u32_codec) (\<lambda>version.
                   decode_then (dec (counted_codec plain_input_codec)) (\<lambda>inputs.
                   decode_then (dec (counted_codec txout_codec)) (\<lambda>outputs.
                   decode_then (dec le_u32_codec) (\<lambda>lock.
                     decode_return \<lparr>tx_version = version, tx_lock_time = lock, tx_input = inputs, tx_output = outputs\<rparr>)))) bs
                 else dec transaction_codec bs)\<rparr>"

definition small_script :: "txin \<Rightarrow> bool" where
  "small_script i \<longleftrightarrow> ti_witness i = [] \<and> length (ti_script_sig i) < 2 ^ 64"

lemma plain_input_codec_ok: "round_trips small_script (enc plain_input_codec) (dec plain_input_codec)"
proof (rule round_tripsI)
  fix i and rest :: bytes
  assume i: "small_script i"
  have le: "to_le_bytes = enc le_u32_codec" by (simp add: le_u32_codec_def)
  have "list_all (\<lambda>_. True) (ti_script_sig i)" by (simp add: list_all_iff)
  with i show "dec plain_input_codec (enc plain_input_codec i @ rest) = Some (i, rest)"
    by (simp add: plain_input_codec_def small_script_def le pair_codec_ok [OF leaf_codecs_ok(4,2)] le_u32_codec_ok
        decode_then_encoded [OF counted_codec_ok [OF leaf_codecs_ok(1)]])
qed

lemma wire_transaction_codec_ok:
  "round_trips (\<lambda>t. length (enc wire_transaction_codec t) < 2 ^ 64) (enc wire_transaction_codec) (dec wire_transaction_codec)"
proof (rule round_tripsI)
  fix t and rest :: bytes
  assume small: "length (enc wire_transaction_codec t) < 2 ^ 64"
  show "dec wire_transaction_codec (enc wire_transaction_codec t @ rest) = Some (t, rest)"
  proof (cases "list_all (\<lambda>i. ti_witness i = []) (tx_input t)")
    case True
    have be: "be_bytes (Suc n) k \<noteq> []" for n k
      by (simp flip: length_0_conv)
    have ne: "enc plain_input_codec i \<noteq> []" "enc txout_codec out \<noteq> []" for i out
      using be [of 3] be [of 7]
      by (auto simp: plain_input_codec_def txout_codec_def iso_codec_def pair_codec_def u64_codec_def
          word_codec_def to_le_bytes_def split_beta)
    have lens: "length (tx_input t) < 2 ^ 64" "length (tx_output t) < 2 ^ 64"
      using counted_codec_length [of plain_input_codec "tx_input t", OF ne(1)]
        counted_codec_length [of txout_codec "tx_output t", OF ne(2)] small True
      by (simp_all add: wire_transaction_codec_def)
    have "small_script i" if "i \<in> set (tx_input t)" for i
    proof -
      have "enc byte_codec b \<noteq> []" for b by (simp add: byte_codec_def word_codec_def)
      from counted_codec_length [of byte_codec "ti_script_sig i", OF this]
      have "length (ti_script_sig i) \<le> length (enc plain_input_codec i)" by (simp add: plain_input_codec_def)
      also have "\<dots> \<le> length (enc (counted_codec plain_input_codec) (tx_input t))"
        using member_le_sum_list [of "length (enc plain_input_codec i)" "map (length \<circ> enc plain_input_codec) (tx_input t)"] that
        by (simp add: counted_codec_def length_concat comp_def)
      also have "\<dots> < 2 ^ 64" using small True by (simp add: wire_transaction_codec_def)
      finally show ?thesis using that True by (simp add: small_script_def list_all_iff)
    qed
    then have scripts: "list_all small_script (tx_input t)" by (simp add: list_all_iff)
    have "list_all (\<lambda>_. True) (tx_output t)" by (simp add: list_all_iff)
    moreover have le: "to_le_bytes = enc le_u32_codec" by (simp add: le_u32_codec_def)
    ultimately show ?thesis
      using True lens scripts
      by (simp add: wire_transaction_codec_def le leaf_codecs_ok le_u32_codec_ok
          decode_then_encoded [OF counted_codec_ok [OF plain_input_codec_ok]]
          decode_then_encoded [OF counted_codec_ok [OF txout_codec_ok]])
  next
    case False
    then show ?thesis
      using round_tripsD [OF transaction_codec_ok, of t rest] by (simp add: wire_transaction_codec_def)
  qed
qed

definition work_btc :: btc where
  "work_btc = sample_btc\<lparr>c_transaction := wire_transaction_codec, calculate_root := merkle_root (node_hash sample_crates)\<rparr>"

definition work_tx_head :: "i32 \<Rightarrow> txid \<times> u32 \<Rightarrow> nat \<Rightarrow> bytes" where
  "work_tx_head v po n = 0 # enc u32_codec v @ enc u64_codec 1 @ enc (pair_codec word256_codec u32_codec) po
     @ enc u64_codec (word_of_nat n)"

lemma concat_byte_codec: "concat (map (enc byte_codec) bs) = bs"
  by (induction bs) (simp_all add: byte_codec_def word_codec_def)

lemma work_btc_ok: "btc_ok work_btc" "tx_layout sample_crates work_btc work_tx_head"
proof -
  have "round_trips (\<lambda>t. length (enc wire_transaction_codec t) \<le> 4000000) (enc wire_transaction_codec) (dec wire_transaction_codec)"
    by (rule round_trips_weaken [OF wire_transaction_codec_ok]) simp
  with sample_btc_ok show "btc_ok work_btc"
    by (simp add: btc_ok_def work_btc_def fits_def [abs_def]) (simp add: sample_btc_def)
  show "tx_layout sample_crates work_btc work_tx_head"
    by (simp add: tx_layout_def work_btc_def wire_transaction_codec_def work_tx_head_def sample_crates_def
        counted_codec_def plain_input_codec_def concat_byte_codec u64_codec_def)
qed

definition sample_template :: block_template where
  "sample_template =
     \<lparr>bt_version = 4, bt_rules = [], bt_vbavailable = [], bt_vbrequired = 0,
      bt_previousblockhash = display_hash sample_crates 9,
      bt_transactions = map (\<lambda>h. \<lparr>tt_data = [], tt_txid = display_hash sample_crates h, tt_hash = [], tt_depends = [],
         tt_fee = 0, tt_sigops = 0, tt_weight = 0\<rparr>) [11, 12, 13],
      bt_coinbaseaux = (\<lambda>_. None), bt_coinbasevalue = 50, bt_longpollid = [], bt_target = [], bt_mintime = 0,
      bt_mutable = [], bt_noncerange = [], bt_sigoplimit = 0, bt_sizelimit = 0, bt_weightlimit = 0,
      bt_curtime = 7, bt_bits = [], bt_height = 5, bt_default_witness_commitment = None\<rparr>"

lemma sample_template_txids: "template_txids sample_crates sample_template = Ok [11, 12, 13]"
proof -
  have "parse_hash sample_crates (display_hash sample_crates h) = Some h" for h
    using sample_crates_ok(2) unfolding hashes_ok_def by blast
  then show ?thesis by (simp add: template_txids_def sample_template_def)
qed

theorem branches_give_merkle_root_witness:
  "\<exists>branches. build_merkle_branches_for_template sample_crates sample_template = (Ok branches :: (unit, txid list) outcome)
     \<and> length branches \<le> 2
     \<and> calculate_root work_btc [10, 11, 12, 13] = Some (foldl (\<lambda>h branch. sha256d_hash sample_crates
          (hash_bytes sample_crates h @ hash_bytes sample_crates branch)) 10 branches)"
  using branches_give_merkle_root [OF sample_template_txids, of work_btc]
  by (force simp: work_btc_def node_hash_def [abs_def])

definition sample_pairs :: "string output_pair list" where
  "sample_pairs = [\<lparr>op_address = ''a'', op_amount = 50\<rparr>]"

lemma be_bytes_eval:
  "be_bytes (numeral k) v = word_of_nat (v div 256 ^ pred_numeral k) # be_bytes (pred_numeral k) v"
  by (simp add: numeral_eq_Suc)

lemma separator_bytes: "EXTRANONCE_SEPARATOR = [1, 1, 1, 1, 1, 1, 1, 1, 1, 1, 1, 1]"
  by (simp add: EXTRANONCE_SEPARATOR_def EXTRANONCE1_SIZE_def EXTRANONCE2_SIZE_def eval_nat_numeral)

lemma sample_separator:
  "find_window EXTRANONCE_SEPARATOR
      (work_tx_head 2 (0, - 1) (length (coinbase_script_head sample_crates 5 None [0] 1 2) + (14 + 1))
       @ coinbase_script_head sample_crates 5 None [0] 1 2 @ [12]) = None"
  by (simp add: work_tx_head_def coinbase_script_head_def sample_crates_def u32_codec_def u64_codec_def word256_codec_def
      pair_codec_def word_codec_def to_le_bytes_def be_bytes_eval separator_bytes)

lemma sample_coinbase:
  "\<exists>tx c1 c2. build_coinbase_transaction sample_crates (1, 2) 2 sample_pairs 5 [0] None [7] None = Ok tx
     \<and> split_coinbase sample_crates work_btc tx = Ok (c1, c2)"
proof -
  obtain tx where tx: "build_coinbase_transaction sample_crates (1, 2) 2 sample_pairs 5 [0] None [7] None = Ok tx"
    by (simp add: build_coinbase_transaction_def sample_pairs_def append_default_witness_commitment_def)
  from coinbase_halves [OF work_btc_ok(2) sample_crates_ok(1,3) tx] sample_separator tx show ?thesis by auto
qed

theorem coinbase_reassembled_witness:
  "\<exists>tx c1 c2. build_coinbase_transaction sample_crates (1, 2) 2 sample_pairs 5 [0] None [7] None = Ok tx
     \<and> split_coinbase sample_crates work_btc tx = Ok (c1, c2)
     \<and> extract_outputs_from_coinbase2 sample_crates c2 1 = Ok (tx_output tx)"
proof -
  obtain tx where tx: "build_coinbase_transaction sample_crates (1, 2) 2 sample_pairs 5 [0] None [7] None = Ok tx"
    by (simp add: build_coinbase_transaction_def sample_pairs_def append_default_witness_commitment_def)
  have outs: "tx_output tx = [\<lparr>to_value = 50, to_script_pubkey = script_pubkey sample_crates ''a''\<rparr>]"
    using tx by (auto simp: build_coinbase_transaction_def sample_pairs_def append_default_witness_commitment_def build_outputs_def)
  have "deserialize (dec (c_txouts sample_crates)) (enc (c_txouts sample_crates) (tx_output tx)) = Some (tx_output tx)"
    using round_tripsD [OF counted_codec_ok [OF txout_codec_ok], of "tx_output tx" "[]"] outs
    by (simp add: deserialize_def sample_crates_def)
  moreover have "fits work_btc (c_transaction work_btc) tx"
    using tx
    by (auto simp: fits_def work_btc_def build_coinbase_transaction_def sample_pairs_def append_default_witness_commitment_def
        build_outputs_def wire_transaction_codec_def counted_codec_def plain_input_codec_def concat_byte_codec coinbase_script_head_def
        sample_crates_def u32_codec_def u64_codec_def word256_codec_def pair_codec_def word_codec_def txout_codec_def
        iso_codec_def bytes_codec_def list_codec_def byte_codec_def length_to_le_bytes separator_bytes sample_btc_def)
  ultimately show ?thesis
    using coinbase_reassembled [OF sample_crates_ok(1,3) work_btc_ok(2,1) tx, of "[1, 2, 3, 4]" "[1, 2, 3, 4, 5, 6, 7, 8]"] sample_separator tx
    by auto
qed

end
