(* ===== verification/Stratum_Messages.thy ===== *)
theory Stratum_Messages
  imports F64
begin

text \<open>
  The messages of the stratum protocol (\<open>stratum/messages.rs\<close>): identifiers, requests, responses
  and notifications with their constructors, and the array form of the parameters of
  \<open>mining.notify\<close>. JSON values are the values of the serde\_json crate; its text form, and the
  parsing of requests from text, are parameters of the components that use them.
\<close>

section \<open>JSON values\<close>

datatype json_number = PosInt u64 | NegInt int | Float f64

datatype json =
    JNull
  | JBool bool
  | JNumber json_number
  | JString string
  | JArray "json list"
  | JObject "(string \<times> json) list"

fun as_str :: "json \<Rightarrow> string option" where
  "as_str (JString s) = Some s"
| "as_str _ = None"

fun as_bool :: "json \<Rightarrow> bool option" where
  "as_bool (JBool b) = Some b"
| "as_bool _ = None"

fun as_array :: "json \<Rightarrow> json list option" where
  "as_array (JArray vs) = Some vs"
| "as_array _ = None"

definition unwrap_or :: "'a \<Rightarrow> 'a option \<Rightarrow> 'a" where
  "unwrap_or d x = (case x of None \<Rightarrow> d | Some v \<Rightarrow> v)"

text \<open>\<open>json!(difficulty)\<close>: a number that is not finite becomes null.\<close>

definition json_f64 :: "f64 \<Rightarrow> json" where
  "json_f64 x = (if is_finite x then JNumber (Float x) else JNull)"

section \<open>Messages\<close>

datatype request_id = IdNumber u64 | IdString string | IdNone

definition id_eq :: "request_id \<Rightarrow> request_id \<Rightarrow> bool" where
  "id_eq a b =
     (case (a, b) of
        (IdNumber x, IdNumber y) \<Rightarrow> x = y
      | (IdString x, IdString y) \<Rightarrow> x = y
      | (IdNone, IdNone) \<Rightarrow> True
      | _ \<Rightarrow> False)"

definition id_from_i64 :: "64 word \<Rightarrow> request_id" where
  "id_from_i64 val = IdNumber val"

record error_body =
  eb_code :: i32
  eb_message :: string
  eb_data :: "json option"

record simple_request =
  sr_id :: "request_id option"
  sr_method :: string
  sr_params :: "string option list"

record suggest_difficulty =
  sd_id :: "request_id option"
  sd_method :: string
  sd_params :: "u64 list"

record mining_configure_params =
  minimum_difficulty_value :: "u32 option"
  version_rolling_mask :: "string option"
  version_rolling_min_bit_count :: "u32 option"

record mining_configure =
  mc_id :: request_id
  mc_method :: string
  mc_params :: "string list \<times> mining_configure_params"

datatype stratum_request =
    SimpleRequest simple_request
  | MiningConfigureRequest mining_configure
  | SuggestDifficultyRequest suggest_difficulty

record response =
  rs_id :: "request_id option"
  rs_result :: "json option"
  rs_error :: "error_body option"

record notify_params =
  np_job_id :: string
  np_prevhash :: string
  np_coinbase1 :: string
  np_coinbase2 :: string
  np_merkle_branches :: "string list"
  np_version :: string
  np_nbits :: string
  np_ntime :: string
  np_clean_jobs :: bool

record notify =
  nt_method :: string
  nt_params :: notify_params

record set_difficulty_notification =
  sn_method :: string
  sn_params :: "f64 list"

datatype stratum_message =
    RequestMessage stratum_request
  | ResponseMessage response
  | NotifyMessage notify
  | SetDifficulty set_difficulty_notification

section \<open>Parameters of notify\<close>

definition notify_params_serialize :: "notify_params \<Rightarrow> json" where
  "notify_params_serialize p =
     JArray [JString (np_job_id p), JString (np_prevhash p), JString (np_coinbase1 p), JString (np_coinbase2 p),
       JArray (map JString (np_merkle_branches p)), JString (np_version p), JString (np_nbits p),
       JString (np_ntime p), JBool (np_clean_jobs p)]"

definition notify_params_deserialize :: "json \<Rightarrow> (string, notify_params) outcome" where
  "notify_params_deserialize v =
     (case v of
        JArray vec \<Rightarrow>
          if length vec \<noteq> 9 then Err ''Invalid number of fields''
          else
            Ok \<lparr>np_job_id = unwrap_or '''' (as_str (vec ! 0)),
                np_prevhash = unwrap_or '''' (as_str (vec ! 1)),
                np_coinbase1 = unwrap_or '''' (as_str (vec ! 2)),
                np_coinbase2 = unwrap_or '''' (as_str (vec ! 3)),
                np_merkle_branches = unwrap_or []
                  (map_option (map (\<lambda>v. unwrap_or '''' (as_str v))) (as_array (vec ! 4))),
                np_version = unwrap_or '''' (as_str (vec ! 5)),
                np_nbits = unwrap_or '''' (as_str (vec ! 6)),
                np_ntime = unwrap_or '''' (as_str (vec ! 7)),
                np_clean_jobs = unwrap_or False (as_bool (vec ! 8))\<rparr>
      | _ \<Rightarrow> Err ''invalid type'')"

section \<open>Constructors\<close>

definition new_subscribe :: "u64 \<Rightarrow> string \<Rightarrow> string \<Rightarrow> string option \<Rightarrow> simple_request" where
  "new_subscribe i user_agent version extra_nonce =
     \<lparr>sr_id = Some (IdNumber i), sr_method = ''mining.subscribe'',
      sr_params = Some (user_agent @ ''/'' @ version) # (case extra_nonce of None \<Rightarrow> [] | Some _ \<Rightarrow> [extra_nonce])\<rparr>"

definition new_authorize :: "u64 \<Rightarrow> string \<Rightarrow> string option \<Rightarrow> simple_request" where
  "new_authorize i username password =
     \<lparr>sr_id = Some (IdNumber i), sr_method = ''mining.authorize'',
      sr_params = Some username # (case password of None \<Rightarrow> [] | Some p \<Rightarrow> [Some p])\<rparr>"

definition new_submit :: "u64 \<Rightarrow> string \<Rightarrow> string \<Rightarrow> string \<Rightarrow> string \<Rightarrow> string \<Rightarrow> simple_request" where
  "new_submit i username job_id extra_nonce2 n_time nonce =
     \<lparr>sr_id = Some (IdNumber i), sr_method = ''mining.submit'',
      sr_params = [Some username, Some job_id, Some extra_nonce2, Some n_time, Some nonce]\<rparr>"

definition new_version_rolling_configure ::
  "u64 \<Rightarrow> string option \<Rightarrow> u32 option \<Rightarrow> u32 option \<Rightarrow> stratum_request" where
  "new_version_rolling_configure i rolling_mask min_bit_count minimum_difficulty =
     MiningConfigureRequest
       \<lparr>mc_id = IdNumber i, mc_method = ''mining.configure'',
        mc_params =
          ([''version-rolling''],
           \<lparr>minimum_difficulty_value = minimum_difficulty, version_rolling_mask = rolling_mask,
            version_rolling_min_bit_count = min_bit_count\<rparr>)\<rparr>"

definition new_set_difficulty_response :: "request_id option \<Rightarrow> f64 \<Rightarrow> string \<Rightarrow> u8 \<Rightarrow> response" where
  "new_set_difficulty_response i difficulty extra_nonce extra_nonce_size =
     \<lparr>rs_id = i,
      rs_result = Some (JArray [JString ''mining.set_difficulty'', json_f64 difficulty, JString extra_nonce,
        JNumber (PosInt (ucast extra_nonce_size))]),
      rs_error = None\<rparr>"

definition new_ok :: "request_id option \<Rightarrow> json \<Rightarrow> response" where
  "new_ok i result = \<lparr>rs_id = i, rs_result = Some result, rs_error = None\<rparr>"

definition new_error :: "request_id option \<Rightarrow> i32 \<Rightarrow> string \<Rightarrow> response" where
  "new_error i code message =
     \<lparr>rs_id = i, rs_result = None, rs_error = Some \<lparr>eb_code = code, eb_message = message, eb_data = None\<rparr>\<rparr>"

definition new_notify :: "notify_params \<Rightarrow> notify" where
  "new_notify params = \<lparr>nt_method = ''mining.notify'', nt_params = params\<rparr>"

definition set_difficulty_new :: "f64 \<Rightarrow> set_difficulty_notification" where
  "set_difficulty_new difficulty = \<lparr>sn_method = ''mining.set_difficulty'', sn_params = [difficulty]\<rparr>"

section \<open>Lemmas\<close>

lemma id_eq_iff: "id_eq a b \<longleftrightarrow> a = b"
  by (simp add: id_eq_def split: request_id.splits)

lemma unwrap_or_simps [simp]: "unwrap_or d (Some x) = x" "unwrap_or d None = d"
  by (simp_all add: unwrap_or_def)

lemma notify_params_read_back: "notify_params_deserialize (notify_params_serialize p) = Ok p"
  by (simp add: notify_params_deserialize_def notify_params_serialize_def comp_def)

end
