(* ===== verification/Client_Connections.thy ===== *)
theory Client_Connections
  imports P2Pool_Prelude
begin

text \<open>
  The registry of miners' connections (\<open>stratum/client_connections.rs\<close>). A client is entered
  under its address with the sending ends of two channels, whose receiving ends the connection
  holds; both ends are therefore kept in a store of channels, which the registry refers to by
  index.
\<close>

type_synonym socket_addr = nat

definition MSG_CHANNEL_SIZE :: nat where "MSG_CHANNEL_SIZE = 10"

text \<open>
  The channels of a connection: what is queued, what the connection has taken, whether it still
  receives, and whether its shutdown receiver has been woken.
\<close>

record client_channel =
  ch_queue :: "string list"
  ch_taken :: "string list"
  ch_open :: bool
  ch_shutdown :: bool

record client_connections =
  cn_clients :: "(socket_addr \<times> nat) list"
  cn_channels :: "client_channel list"

datatype client_connection_command =
    AddClient socket_addr
  | SendToAll string
  | SendToClient socket_addr string

definition no_connections :: client_connections where
  "no_connections = \<lparr>cn_clients = [], cn_channels = []\<rparr>"

definition update_channel :: "nat \<Rightarrow> (client_channel \<Rightarrow> client_channel) \<Rightarrow> client_connections \<Rightarrow> client_connections" where
  "update_channel i f c = c\<lparr>cn_channels := (cn_channels c)[i := f (cn_channels c ! i)]\<rparr>"

text \<open>Dropping or using the sending end of the shutdown channel wakes the receiver.\<close>

definition shut_channel :: "nat \<Rightarrow> client_connections \<Rightarrow> client_connections" where
  "shut_channel i = update_channel i (\<lambda>ch. ch\<lparr>ch_shutdown := True\<rparr>)"

definition connections_add :: "socket_addr \<Rightarrow> client_connections \<Rightarrow> nat \<times> client_connections" where
  "connections_add addr c =
     (let c' = (case map_of (cn_clients c) addr of None \<Rightarrow> c | Some i \<Rightarrow> shut_channel i c);
          i = length (cn_channels c')
      in (i, \<lparr>cn_clients = hm_insert addr i (cn_clients c'),
              cn_channels = cn_channels c' @ [\<lparr>ch_queue = [], ch_taken = [], ch_open = True, ch_shutdown = False\<rparr>]\<rparr>))"

definition connections_remove :: "socket_addr \<Rightarrow> client_connections \<Rightarrow> bool \<times> client_connections" where
  "connections_remove addr c =
     (case map_of (cn_clients c) addr of
        None \<Rightarrow> (False, c)
      | Some i \<Rightarrow> (True, (shut_channel i c)\<lparr>cn_clients := hm_remove addr (cn_clients c)\<rparr>))"

text \<open>\<open>try_send\<close> fails when the channel is full or its receiver is gone.\<close>

definition try_send :: "nat \<Rightarrow> string \<Rightarrow> client_connections \<Rightarrow> bool \<times> client_connections" where
  "try_send i message c =
     (let ch = cn_channels c ! i
      in if ch_open ch \<and> length (ch_queue ch) < MSG_CHANNEL_SIZE
         then (True, update_channel i (\<lambda>ch. ch\<lparr>ch_queue := ch_queue ch @ [message]\<rparr>) c)
         else (False, c))"

fun try_send_all ::
  "string \<Rightarrow> (socket_addr \<times> nat) list \<Rightarrow> client_connections \<Rightarrow> socket_addr list \<times> client_connections" where
  "try_send_all message [] c = ([], c)"
| "try_send_all message ((addr, i) # clients) c =
     (case try_send i message c of (sent, c1) \<Rightarrow>
        case try_send_all message clients c1 of (failed_addrs, c2) \<Rightarrow>
          (if sent then failed_addrs else addr # failed_addrs, c2))"

definition send_to_all :: "string \<Rightarrow> client_connections \<Rightarrow> client_connections" where
  "send_to_all message c =
     (case try_send_all message (cn_clients c) c of (failed_addrs, c') \<Rightarrow>
        fold (\<lambda>addr c. snd (connections_remove addr c)) failed_addrs c')"

definition send_to_client :: "socket_addr \<Rightarrow> string \<Rightarrow> client_connections \<Rightarrow> bool \<times> client_connections" where
  "send_to_client addr message c =
     (case map_of (cn_clients c) addr of
        None \<Rightarrow> (False, c)
      | Some i \<Rightarrow>
          (case try_send i message c of
             (True, c') \<Rightarrow> (True, c')
           | (False, c') \<Rightarrow> (False, snd (connections_remove addr c'))))"

text \<open>The loop of the actor serves one command after another.\<close>

fun serve_command :: "client_connection_command \<Rightarrow> client_connections \<Rightarrow> client_connections" where
  "serve_command (AddClient addr) c = snd (connections_add addr c)"
| "serve_command (SendToAll message) c = send_to_all message c"
| "serve_command (SendToClient addr message) c = snd (send_to_client addr message c)"

text \<open>
  Runs: the actor serves a command, a connection takes a message from its channel, or a
  connection ends and drops its receiver. The list holds the commands served so far.
\<close>

inductive connections_run :: "client_connection_command list \<Rightarrow> client_connections \<Rightarrow> bool" where
  start: "connections_run [] no_connections"
| serve: "connections_run served c \<Longrightarrow> connections_run (served @ [cmd]) (serve_command cmd c)"
| take_message: "connections_run served c \<Longrightarrow> i < length (cn_channels c) \<Longrightarrow> ch_open (cn_channels c ! i) \<Longrightarrow>
    ch_queue (cn_channels c ! i) = m # rest \<Longrightarrow>
    connections_run served (update_channel i (\<lambda>ch. ch\<lparr>ch_queue := rest, ch_taken := ch_taken ch @ [m]\<rparr>) c)"
| hang_up: "connections_run served c \<Longrightarrow> i < length (cn_channels c) \<Longrightarrow>
    connections_run served (update_channel i (\<lambda>ch. ch\<lparr>ch_open := False\<rparr>) c)"

section \<open>Lemmas\<close>

text \<open>The messages a client is due since it was last added.\<close>

fun due_after :: "socket_addr \<Rightarrow> string list \<Rightarrow> client_connection_command \<Rightarrow> string list" where
  "due_after addr due (AddClient a) = (if a = addr then [] else due)"
| "due_after addr due (SendToAll m) = due @ [m]"
| "due_after addr due (SendToClient a m) = (if a = addr then due @ [m] else due)"

definition messages_due :: "socket_addr \<Rightarrow> client_connection_command list \<Rightarrow> string list" where
  "messages_due addr served = foldl (due_after addr) [] served"

text \<open>
  The channels of registered clients are distinct and up to date, those of the addresses in
  \<open>bad\<close> excepted; the other channels are shut.
\<close>

definition connections_ok :: "socket_addr set \<Rightarrow> (socket_addr \<Rightarrow> string list) \<Rightarrow> client_connections \<Rightarrow> bool" where
  "connections_ok bad due c \<longleftrightarrow>
     distinct (map fst (cn_clients c)) \<and> distinct (map snd (cn_clients c))
     \<and> (\<forall>addr i. (addr, i) \<in> set (cn_clients c) \<longrightarrow> i < length (cn_channels c)
          \<and> (addr \<notin> bad \<longrightarrow> ch_taken (cn_channels c ! i) @ ch_queue (cn_channels c ! i) = due addr))
     \<and> (\<forall>i < length (cn_channels c). length (ch_queue (cn_channels c ! i)) \<le> MSG_CHANNEL_SIZE
          \<and> (i \<notin> snd ` set (cn_clients c) \<longrightarrow> ch_shutdown (cn_channels c ! i)))"

lemma update_channel_simps [simp]:
  "cn_clients (update_channel i f c) = cn_clients c"
  "length (cn_channels (update_channel i f c)) = length (cn_channels c)"
  "j < length (cn_channels c) \<Longrightarrow>
     cn_channels (update_channel i f c) ! j = (if j = i then f (cn_channels c ! j) else cn_channels c ! j)"
  by (simp_all add: update_channel_def nth_list_update)

lemma connections_okD:
  assumes "connections_ok bad due c" "(addr, i) \<in> set (cn_clients c)"
  shows "i < length (cn_channels c)"
    "addr \<notin> bad \<Longrightarrow> ch_taken (cn_channels c ! i) @ ch_queue (cn_channels c ! i) = due addr"
    "map_of (cn_clients c) addr = Some i"
  using assms by (auto simp: connections_ok_def)

lemma same_channel_same_client:
  assumes "connections_ok bad due c" "(addr, i) \<in> set (cn_clients c)" "(a, i) \<in> set (cn_clients c)"
  shows "a = addr"
  using assms unfolding connections_ok_def distinct_map inj_on_def by fastforce

lemma connections_ok_cong:
  assumes "connections_ok bad due c" "\<And>addr. addr \<in> fst ` set (cn_clients c) \<Longrightarrow> due addr = due' addr"
  shows "connections_ok bad due' c"
  using assms unfolding connections_ok_def by (metis fst_conv image_eqI)

lemma try_send_ok:
  assumes "connections_ok bad due c" "(addr, i) \<in> set (cn_clients c)" "try_send i m c = (sent, c')"
  shows "connections_ok (if sent then bad else insert addr bad) (due(addr := due addr @ [m])) c'"
    "cn_clients c' = cn_clients c"
proof -
  note i = connections_okD [OF assms(1,2)]
  have other: "a \<noteq> addr \<Longrightarrow> (a, j) \<in> set (cn_clients c) \<Longrightarrow> j \<noteq> i" for a j
    using same_channel_same_client [OF assms(1,2)] by blast
  show clients: "cn_clients c' = cn_clients c"
    using assms(3) by (auto simp: try_send_def Let_def split: if_splits)
  show "connections_ok (if sent then bad else insert addr bad) (due(addr := due addr @ [m])) c'"
  proof (cases sent)
    case True
    then have c': "c' = update_channel i (\<lambda>ch. ch\<lparr>ch_queue := ch_queue ch @ [m]\<rparr>) c"
      and room: "length (ch_queue (cn_channels c ! i)) < MSG_CHANNEL_SIZE"
      using assms(3) by (auto simp: try_send_def Let_def split: if_splits)
    have entry: "j < length (cn_channels c) \<and> (a \<notin> bad \<longrightarrow>
        ch_taken (cn_channels c' ! j) @ ch_queue (cn_channels c' ! j) = (due(addr := due addr @ [m])) a)"
      if "(a, j) \<in> set (cn_clients c)" for a j
      using connections_okD [OF assms(1) that] other [of a j] i(1,3) that c' by (auto simp flip: append_assoc)
    have len: "length (cn_channels c') = length (cn_channels c)" by (simp add: c')
    have chans: "length (ch_queue (cn_channels c' ! j)) \<le> MSG_CHANNEL_SIZE
        \<and> (j \<notin> snd ` set (cn_clients c) \<longrightarrow> ch_shutdown (cn_channels c' ! j))" if "j < length (cn_channels c)" for j
      using assms(1) room that by (auto simp: c' connections_ok_def)
    show ?thesis
      using assms(1) entry chans True unfolding connections_ok_def clients len by simp
  next
    case False
    then have "c' = c" using assms(3) by (auto simp: try_send_def Let_def split: if_splits)
    with False assms(1) show ?thesis unfolding connections_ok_def by auto
  qed
qed

lemma try_send_all_ok:
  assumes "connections_ok bad (\<lambda>a. if a \<in> fst ` set cs then due a else due a @ [m]) c"
    and "distinct (map fst cs)" "set cs \<subseteq> set (cn_clients c)" "try_send_all m cs c = (failed, c')"
  shows "connections_ok (bad \<union> set failed) (\<lambda>a. due a @ [m]) c' \<and> cn_clients c' = cn_clients c"
  using assms
proof (induction cs arbitrary: bad c failed c')
  case (Cons e cs)
  obtain addr i where e: "e = (addr, i)" by force
  obtain sent c1 where one: "try_send i m c = (sent, c1)" by force
  obtain failed' c2 where rest: "try_send_all m cs c1 = (failed', c2)" by force
  have failed: "failed = (if sent then failed' else addr # failed')" "c' = c2"
    using Cons.prems e one rest by auto
  let ?bad = "if sent then bad else insert addr bad"
  have mem: "(addr, i) \<in> set (cn_clients c)" using Cons.prems e by simp
  have "connections_ok ?bad ((\<lambda>a. if a \<in> fst ` set (e # cs) then due a else due a @ [m])
      (addr := (if addr \<in> fst ` set (e # cs) then due addr else due addr @ [m]) @ [m])) c1"
    and cl: "cn_clients c1 = cn_clients c"
    using try_send_ok [OF Cons.prems(1) mem one] by auto
  then have "connections_ok ?bad (\<lambda>a. if a \<in> fst ` set cs then due a else due a @ [m]) c1"
    using Cons.prems(2) e by (elim connections_ok_cong) auto
  from Cons.IH [OF this _ _ rest] Cons.prems(2,3) cl
  have "connections_ok (?bad \<union> set failed') (\<lambda>a. due a @ [m]) c2" "cn_clients c2 = cn_clients c"
    by auto
  moreover have "?bad \<union> set failed' = bad \<union> set failed" using failed by auto
  ultimately show ?case using failed by simp
qed auto

lemma connections_remove_ok:
  assumes "connections_ok (insert addr bad) due c"
  shows "connections_ok bad due (snd (connections_remove addr c))"
proof (cases "map_of (cn_clients c) addr")
  case None
  then have "addr \<notin> fst ` set (cn_clients c)" by (simp add: map_of_eq_None_iff)
  with assms None show ?thesis
    unfolding connections_ok_def connections_remove_def by (force simp: image_iff)
next
  case (Some i)
  then have mem: "(addr, i) \<in> set (cn_clients c)" by (rule map_of_SomeD)
  note i = connections_okD [OF assms mem]
  let ?c = "snd (connections_remove addr c)"
  have c: "?c = (shut_channel i c)\<lparr>cn_clients := hm_remove addr (cn_clients c)\<rparr>"
    using Some by (simp add: connections_remove_def)
  have chan: "cn_channels ?c ! j = (if j = i then (cn_channels c ! i)\<lparr>ch_shutdown := True\<rparr> else cn_channels c ! j)"
    if "j < length (cn_channels c)" for j
    using that by (simp add: c shut_channel_def)
  have "distinct (map snd (hm_remove addr (cn_clients c)))"
    using assms by (simp add: connections_ok_def hm_remove_def hm_retain_def distinct_map inj_on_def)
  moreover have "ch_shutdown (cn_channels ?c ! j)"
    if "j < length (cn_channels c)" "j \<notin> snd ` set (hm_remove addr (cn_clients c))" for j
  proof (cases "j = i")
    case False
    have "j \<notin> snd ` set (cn_clients c)"
    proof
      assume "j \<in> snd ` set (cn_clients c)"
      then obtain a where "(a, j) \<in> set (cn_clients c)" by auto
      moreover have "a \<noteq> addr" using connections_okD(3) [OF assms calculation] i(3) False by auto
      ultimately have "j \<in> snd ` set (hm_remove addr (cn_clients c))" by (force simp: set_hm_remove)
      with that(2) show False by simp
    qed
    then show ?thesis using that(1) assms False by (simp add: chan connections_ok_def)
  qed (use that chan in simp)
  moreover have "cn_clients ?c = hm_remove addr (cn_clients c)" "length (cn_channels ?c) = length (cn_channels c)"
    by (simp_all add: c shut_channel_def)
  ultimately show ?thesis
    using assms unfolding connections_ok_def by (simp add: chan) (auto simp: set_hm_remove chan)
qed

lemma remove_failed_ok:
  "connections_ok (set failed \<union> bad) due c \<Longrightarrow>
     connections_ok bad due (fold (\<lambda>addr c. snd (connections_remove addr c)) failed c)"
  by (induction failed arbitrary: c) (auto dest: connections_remove_ok)

lemma send_to_all_ok:
  assumes "connections_ok {} due c"
  shows "connections_ok {} (\<lambda>a. due a @ [m]) (send_to_all m c)"
proof -
  obtain failed c' where all: "try_send_all m (cn_clients c) c = (failed, c')" by force
  have "connections_ok {} (\<lambda>a. if a \<in> fst ` set (cn_clients c) then due a else due a @ [m]) c"
    using assms by (rule connections_ok_cong) simp
  moreover have "distinct (map fst (cn_clients c))" using assms by (simp add: connections_ok_def)
  ultimately have "connections_ok ({} \<union> set failed) (\<lambda>a. due a @ [m]) c'"
    using try_send_all_ok [OF _ _ subset_refl all] by blast
  then show ?thesis using remove_failed_ok [of failed "{}"] all by (simp add: send_to_all_def)
qed

lemma send_to_client_ok:
  assumes "connections_ok {} due c"
  shows "connections_ok {} (\<lambda>a. if a = addr then due a @ [m] else due a) (snd (send_to_client addr m c))"
proof (cases "map_of (cn_clients c) addr")
  case None
  then have "addr \<notin> fst ` set (cn_clients c)" by (simp add: map_of_eq_None_iff)
  then have "connections_ok {} (\<lambda>a. if a = addr then due a @ [m] else due a) c"
    using assms by (intro connections_ok_cong [OF assms]) auto
  then show ?thesis using None by (simp add: send_to_client_def)
next
  case (Some i)
  obtain sent c' where one: "try_send i m c = (sent, c')" by force
  have "due(addr := due addr @ [m]) = (\<lambda>a. if a = addr then due a @ [m] else due a)" by auto
  with try_send_ok(1) [OF assms map_of_SomeD [OF Some] one]
  have "connections_ok (if sent then {} else {addr}) (\<lambda>a. if a = addr then due a @ [m] else due a) c'" by simp
  then show ?thesis using Some one connections_remove_ok by (cases sent) (simp_all add: send_to_client_def)
qed

lemma hm_remove_absent: "k \<notin> fst ` set m \<Longrightarrow> hm_remove k m = m"
  by (induction m) (auto simp: hm_remove_def)

lemma connections_add_ok:
  assumes "connections_ok {} due c"
  shows "connections_ok {} (due(addr := [])) (snd (connections_add addr c))"
proof -
  define c1 where "c1 = snd (connections_remove addr c)"
  have c1: "connections_ok {} due c1"
    unfolding c1_def using assms by (intro connections_remove_ok) (auto simp: connections_ok_def)
  have clients: "cn_clients c1 = hm_remove addr (cn_clients c)"
    unfolding c1_def by (simp add: connections_remove_def hm_remove_absent map_of_eq_None_iff split: option.splits)
  have chans: "cn_channels c1 = cn_channels (case map_of (cn_clients c) addr of None \<Rightarrow> c | Some i \<Rightarrow> shut_channel i c)"
    by (simp add: c1_def connections_remove_def shut_channel_def split: option.splits)
  let ?c = "snd (connections_add addr c)"
  have add: "cn_clients ?c = (addr, length (cn_channels c1)) # cn_clients c1"
    "cn_channels ?c = cn_channels c1 @ [\<lparr>ch_queue = [], ch_taken = [], ch_open = True, ch_shutdown = False\<rparr>]"
    by (simp_all add: connections_add_def Let_def clients hm_insert_def chans shut_channel_def split: option.splits)
  have "addr \<notin> fst ` set (cn_clients c1)" "\<And>i. (addr, i) \<notin> set (cn_clients c1)"
    by (auto simp: clients set_hm_remove)
  moreover have "length (cn_channels c1) \<notin> snd ` set (cn_clients c1)"
    using connections_okD(1) [OF c1] by fastforce
  ultimately show ?thesis
    using c1 unfolding connections_ok_def add by (auto simp: nth_append less_Suc_eq)
qed

lemma update_channel_ok:
  assumes "connections_ok bad due c" "i < length (cn_channels c)"
    and "ch_taken (f (cn_channels c ! i)) @ ch_queue (f (cn_channels c ! i))
       = ch_taken (cn_channels c ! i) @ ch_queue (cn_channels c ! i)"
    and "length (ch_queue (f (cn_channels c ! i))) \<le> length (ch_queue (cn_channels c ! i))"
    and "ch_shutdown (f (cn_channels c ! i)) = ch_shutdown (cn_channels c ! i)"
  shows "connections_ok bad due (update_channel i f c)"
  using assms le_trans [OF assms(4)] unfolding connections_ok_def by simp

lemma messages_due_snoc [simp]:
  "messages_due addr (served @ [cmd]) = due_after addr (messages_due addr served) cmd"
  by (simp add: messages_due_def)

lemma connections_run_ok: "connections_run served c \<Longrightarrow> connections_ok {} (\<lambda>addr. messages_due addr served) c"
proof (induction rule: connections_run.induct)
  case start
  then show ?case by (simp add: connections_ok_def no_connections_def)
next
  case (serve served c cmd)
  show ?case
  proof (cases cmd)
    case (AddClient a)
    have "(\<lambda>addr. messages_due addr (served @ [cmd])) = (\<lambda>addr. messages_due addr served)(a := [])"
      by (auto simp: AddClient)
    then show ?thesis using connections_add_ok [OF serve.IH, of a] AddClient by simp
  next
    case (SendToAll m)
    then show ?thesis using send_to_all_ok [OF serve.IH, of m] by simp
  next
    case (SendToClient a m)
    have "(\<lambda>addr. messages_due addr (served @ [cmd]))
        = (\<lambda>x. if x = a then messages_due x served @ [m] else messages_due x served)"
      by (auto simp: SendToClient)
    then show ?thesis using send_to_client_ok [OF serve.IH, of a m] SendToClient by simp
  qed
next
  case (take_message served c i m rest)
  then show ?case by (intro update_channel_ok) auto
next
  case (hang_up served c i)
  then show ?case by (intro update_channel_ok) auto
qed

section \<open>Properties\<close>

text \<open>
  C19: no miner misses work unnoticed: whatever the order of commands, receptions and
  disconnections, what a registered client took from its channel and what is queued for it are
  exactly the messages sent to it or to all since it was added, in order, with at most ten of
  them queued; a connection that is no longer registered has been told to shut down.
\<close>

theorem no_message_missed:
  assumes "connections_run served c"
  shows "(\<forall>addr i. map_of (cn_clients c) addr = Some i \<longrightarrow>
        ch_taken (cn_channels c ! i) @ ch_queue (cn_channels c ! i) = messages_due addr served
        \<and> length (ch_queue (cn_channels c ! i)) \<le> 10)
    \<and> (\<forall>i < length (cn_channels c). i \<notin> snd ` set (cn_clients c) \<longrightarrow> ch_shutdown (cn_channels c ! i))"
  using connections_run_ok [OF assms]
  by (auto simp: connections_ok_def MSG_CHANNEL_SIZE_def dest: map_of_SomeD)

theorem no_message_missed_witness:
  "connections_run [AddClient 1, AddClient 2, SendToAll ''job'']
     (send_to_all ''job'' (snd (connections_add 2 (snd (connections_add 1 no_connections)))))
   \<and> messages_due 2 [AddClient 1, AddClient 2, SendToAll ''job''] = [''job'']"
proof -
  have run: "connections_run [AddClient 1, AddClient 2, SendToAll ''job'']
     (send_to_all ''job'' (snd (connections_add 2 (snd (connections_add 1 no_connections)))))"
    using connections_run.serve [OF connections_run.serve [OF connections_run.serve [OF connections_run.start, of "AddClient 1"],
          of "AddClient 2"], of "SendToAll ''job''"] by simp
  let ?c = "send_to_all ''job'' (snd (connections_add 2 (snd (connections_add 1 no_connections))))"
  have "map_of (cn_clients ?c) 2 = Some 1" "ch_taken (cn_channels ?c ! 1) @ ch_queue (cn_channels ?c ! 1) = [''job'']"
    by (simp_all add: send_to_all_def connections_add_def no_connections_def try_send_def MSG_CHANNEL_SIZE_def
        update_channel_def hm_insert_def hm_remove_def)
  with no_message_missed [OF run, THEN conjunct1, THEN spec [of _ 2], THEN spec [of _ 1]] run show ?thesis by simp
qed

end
