(* ===== verification/Hex_Text.thy ===== *)
theory Hex_Text
  imports P2Pool_Prelude
begin

text \<open>
  Numbers as decimal and hexadecimal text, as the standard library writes and reads them: \<open>{:016x}\<close> and
  \<open>{:08x}\<close>, and \<open>from_str_radix(.., 16)\<close>, which accepts digits of both cases and a leading
  plus sign and refuses empty text, other characters and numbers that are too large.
\<close>

definition hex_digits :: string where
  "hex_digits = ''0123456789abcdef''"

definition hex_digit :: "nat \<Rightarrow> char" where
  "hex_digit n = hex_digits ! n"

definition hex_value :: "char \<Rightarrow> nat option" where
  "hex_value c =
     (let n = of_char c :: nat
      in if 48 \<le> n \<and> n \<le> 57 then Some (n - 48)
         else if 97 \<le> n \<and> n \<le> 102 then Some (n - 87)
         else if 65 \<le> n \<and> n \<le> 70 then Some (n - 55)
         else None)"

fun lower_hex :: "nat \<Rightarrow> nat \<Rightarrow> string" where
  "lower_hex 0 n = []"
| "lower_hex (Suc w) n = lower_hex w (n div 16) @ [hex_digit (n mod 16)]"

fun read_hex :: "nat \<Rightarrow> string \<Rightarrow> nat option" where
  "read_hex acc [] = Some acc"
| "read_hex acc (c # cs) =
     (case hex_value c of None \<Rightarrow> None | Some d \<Rightarrow> read_hex (acc * 16 + d) cs)"

definition from_str_radix_16 :: "string \<Rightarrow> 'a::len word option" where
  "from_str_radix_16 s =
     (let digits = (case s of [] \<Rightarrow> [] | c # cs \<Rightarrow> if of_char c = (43 :: nat) then cs else s)
      in if digits = [] then None
         else case read_hex 0 digits of
                None \<Rightarrow> None
              | Some n \<Rightarrow> if n < 2 ^ LENGTH('a) then Some (word_of_nat n) else None)"

text \<open>\<open>{}\<close> of an unsigned number.\<close>

fun decimal :: "nat \<Rightarrow> string" where
  "decimal n = (if n < 10 then [char_of (48 + n)] else decimal (n div 10) @ [char_of (48 + n mod 10)])"

section \<open>Lemmas\<close>

lemma hex_value_digit: "n < 16 \<Longrightarrow> hex_value (hex_digit n) = Some n"
proof -
  assume "n < 16"
  then have "n \<in> set [0..<16]" by simp
  moreover have "\<forall>n \<in> set [0..<16]. hex_value (hex_digit n) = Some n" by code_simp
  ultimately show ?thesis by blast
qed

lemma read_hex_append:
  "read_hex acc (xs @ ys) = (case read_hex acc xs of None \<Rightarrow> None | Some a \<Rightarrow> read_hex a ys)"
  by (induction xs arbitrary: acc) (auto split: option.splits)

lemma length_lower_hex [simp]: "length (lower_hex w n) = w"
  by (induction w n rule: lower_hex.induct) auto

lemma read_lower_hex: "read_hex acc (lower_hex w n) = Some (acc * 16 ^ w + n mod 16 ^ w)"
proof (induction w n arbitrary: acc rule: lower_hex.induct)
  case (2 w n)
  have "n mod 16 ^ Suc w = (n div 16) mod 16 ^ w * 16 + n mod 16"
    by (simp add: mod_mult2_eq)
  then show ?case
    by (simp add: 2 read_hex_append hex_value_digit algebra_simps)
qed simp

lemma lower_hex_no_sign:
  assumes "lower_hex w n = c # cs"
  shows "of_char c \<noteq> (43 :: nat)"
proof -
  have "read_hex 0 (lower_hex w n) \<noteq> None" by (simp add: read_lower_hex)
  then have "hex_value c \<noteq> None" using assms by (auto split: option.splits)
  then show ?thesis by (auto simp: hex_value_def)
qed

text \<open>Reading inverts writing.\<close>

lemma from_str_radix_lower_hex:
  assumes "0 < w" "LENGTH('a) \<le> 4 * w"
  shows "from_str_radix_16 (lower_hex w (unat x)) = Some (x :: 'a::len word)"
proof -
  have "unat x < 2 ^ LENGTH('a)" by (rule unsigned_less)
  also have "\<dots> \<le> 2 ^ (4 * w)" using assms(2) by (intro power_increasing) auto
  also have "\<dots> = 16 ^ w" by (simp add: power_mult)
  finally have small: "unat x mod 16 ^ w = unat x" by simp
  have ne: "lower_hex w (unat x) \<noteq> []" using assms(1) by (cases w) auto
  then obtain c cs where "lower_hex w (unat x) = c # cs" by (cases "lower_hex w (unat x)") auto
  moreover from this have "of_char c \<noteq> (43 :: nat)" by (rule lower_hex_no_sign)
  moreover have "read_hex 0 (lower_hex w (unat x)) = Some (unat x)" by (simp add: read_lower_hex small)
  ultimately show ?thesis
    using unsigned_less [of x, where ?'a = nat] by (simp add: from_str_radix_16_def)
qed

end
