(* ===== verification/Job_Tracker.thy ===== *)
theory Job_Tracker
  imports Block_Template Chain_Handle Stratum_Messages Client_Connections Hex_Text
begin

text \<open>
  Jobs: the tracker of the jobs sent to miners and of the shares found for them
  (\<open>stratum/work/tracker\<close>), the notifications that announce a job and the task that builds and
  sends them (\<open>stratum/work/notify.rs\<close>), and the commitment to the share chain that goes into
  the coinbase (\<open>build_share_commitment\<close>). The tracker's hash maps are association lists.
\<close>

section \<open>The tracker\<close>

type_synonym job_id = u64

definition MAX_JOB_AGE_SECS :: u64 where "MAX_JOB_AGE_SECS = 15 * 60"

record job_details =
  jd_blocktemplate :: block_template
  jd_coinbase1 :: string
  jd_coinbase2 :: string
  jd_generation_timestamp :: u64
  jd_share_commitment :: "share_commitment option"

record job_tracker =
  jt_job_details :: "(job_id \<times> job_details) list"
  jt_job_shares :: "(job_id \<times> blockhash list) list"
  jt_latest_job_id :: u64

definition tracker_new :: "u64 \<Rightarrow> job_tracker" where
  "tracker_new timestamp_nanos = \<lparr>jt_job_details = [], jt_job_shares = [], jt_latest_job_id = timestamp_nanos\<rparr>"

definition insert_job ::
  "u64 \<Rightarrow> block_template \<Rightarrow> string \<Rightarrow> string \<Rightarrow> share_commitment option \<Rightarrow> job_id \<Rightarrow> job_tracker \<Rightarrow> job_tracker" where
  "insert_job now_secs template coinbase1 coinbase2 commitment job_id t =
     t\<lparr>jt_job_details := hm_insert job_id
         \<lparr>jd_blocktemplate = template, jd_coinbase1 = coinbase1, jd_coinbase2 = coinbase2,
          jd_generation_timestamp = now_secs, jd_share_commitment = commitment\<rparr> (jt_job_details t),
       jt_job_shares := hm_insert job_id [] (jt_job_shares t)\<rparr>"

definition get_next_job_id :: "job_tracker \<Rightarrow> job_id \<times> job_tracker" where
  "get_next_job_id t = (jt_latest_job_id t + 1, t\<lparr>jt_latest_job_id := jt_latest_job_id t + 1\<rparr>)"

definition get_latest_job_id :: "job_tracker \<Rightarrow> job_id" where
  "get_latest_job_id t = jt_latest_job_id t"

definition get_job :: "job_tracker \<Rightarrow> job_id \<Rightarrow> job_details option" where
  "get_job t job_id = map_of (jt_job_details t) job_id"

definition keep_job :: "u64 \<Rightarrow> u64 \<Rightarrow> job_details \<Rightarrow> bool" where
  "keep_job max_age_secs current_time details \<longleftrightarrow>
     saturating_sub current_time (jd_generation_timestamp details) < max_age_secs"

definition cleanup_old_jobs :: "u64 \<Rightarrow> u64 \<Rightarrow> job_tracker \<Rightarrow> nat \<times> job_tracker" where
  "cleanup_old_jobs max_age_secs current_time t =
     (let details = hm_retain (\<lambda>_ d. keep_job max_age_secs current_time d) (jt_job_details t);
          removed = map fst (filter (\<lambda>(_, d). \<not> keep_job max_age_secs current_time d) (jt_job_details t))
      in (length (jt_job_details t) - length details,
          t\<lparr>jt_job_details := details, jt_job_shares := fold hm_remove removed (jt_job_shares t)\<rparr>))"

definition tracker_add_share :: "job_id \<Rightarrow> blockhash \<Rightarrow> job_tracker \<Rightarrow> bool \<times> job_tracker" where
  "tracker_add_share job_id blockhash t =
     (case map_of (jt_job_shares t) job_id of
        None \<Rightarrow> (False, t)
      | Some shares \<Rightarrow>
          (blockhash \<notin> set shares,
           t\<lparr>jt_job_shares := hm_adjust job_id (hs_insert blockhash) (jt_job_shares t)\<rparr>))"

section \<open>Building a job\<close>

definition parse_flags :: "'addr crates \<Rightarrow> string option \<Rightarrow> ('e, bytes) outcome" where
  "parse_flags X flags =
     (case flags of
        None \<Rightarrow> Ok [0]
      | Some flags \<Rightarrow>
          if flags = [] then Ok [0]
          else and_then (unwrap (hex_decode X flags)) (\<lambda>bytes.
                 if length bytes < 2 ^ 32 then Ok bytes else Panic))"

text \<open>
  What the tasks that build jobs are given: the crates, the address parser and the order in which
  the hash map of the payout happens to be traversed, the configuration, the public key of the
  pool's miner, and the text form of a notification.
\<close>

record ('addr, 'net) notify_env =
  ne_crates :: "'addr crates"
  ne_btc :: btc
  ne_parse :: "string \<Rightarrow> 'addr option"
  ne_hash_order :: "(string \<times> f64) list \<Rightarrow> (string \<times> f64) list"
  ne_config :: "('addr, 'net) stratum_config"
  ne_miner_pubkey :: "pubkey option"
  ne_to_string :: "notify \<Rightarrow> string"
  ne_writer_alive :: bool

text \<open>The readings of the clock while a job is built.\<close>

record job_clock =
  jc_payout_secs :: u64
  jc_payout_micros :: u64
  jc_commitment_secs :: u64
  jc_coinbase :: "u32 \<times> u32"
  jc_insert_secs :: u64
  jc_store_micros :: u64

definition DEFAULT_STEP_SIZE_SECONDS :: u64 where "DEFAULT_STEP_SIZE_SECONDS = 24 * 60 * 60"

definition build_output_distribution ::
  "('addr, 'net) notify_env \<Rightarrow> job_clock \<Rightarrow> share_store \<Rightarrow> block_template
     \<Rightarrow> (work_error, 'addr output_pair list) outcome option" where
  "build_output_distribution env clk st template =
     (case compact_from_hex (ne_crates env) (bt_bits template) of
        None \<Rightarrow> Some Panic
      | Some compact_target \<Rightarrow>
          let total_difficulty = f64_mul (difficulty_of_target (ne_crates env) compact_target)
                (sc_difficulty_multiplier (ne_config env))
          in map_option
               (\<lambda>result. case result of Ok distribution \<Rightarrow> Ok distribution | Err _ \<Rightarrow> Ok [] | Panic \<Rightarrow> Panic)
               (get_output_distribution (ne_parse env) (ne_hash_order env) (store_query (jc_payout_micros clk) st)
                  DEFAULT_STEP_SIZE_SECONDS (jc_payout_secs clk) total_difficulty (bt_coinbasevalue template)
                  (ne_config env)))"

definition build_notify ::
  "'addr crates \<Rightarrow> btc \<Rightarrow> u32 \<times> u32 \<Rightarrow> block_template \<Rightarrow> 'addr output_pair list \<Rightarrow> job_id \<Rightarrow> bool \<Rightarrow> bytes
     \<Rightarrow> 256 word option \<Rightarrow> (work_error, notify) outcome" where
  "build_notify X B timestamp template output_distribution job_id clean_jobs pool_signature commitment =
     and_then (parse_flags X (bt_coinbaseaux template ''flags'')) (\<lambda>flags.
     and_then (build_coinbase_transaction X timestamp 2 output_distribution (uint (bt_height template)) flags
                 (bt_default_witness_commitment template) pool_signature commitment) (\<lambda>coinbase.
     and_then (split_coinbase X B coinbase) (\<lambda>(coinbase1, coinbase2).
     and_then (build_merkle_branches_for_template X template) (\<lambda>branches.
     and_then (collect (\<lambda>branch. to_be_hex X (display_hash X branch)) branches) (\<lambda>merkle_branches.
     and_then (map_err (\<lambda>_. WorkError ''Failed to reverse previous block hash'')
                 (reverse_four_byte_chunks X (bt_previousblockhash template))) (\<lambda>prevhash_byte_swapped.
       Ok (new_notify
             \<lparr>np_job_id = lower_hex 16 (unat job_id), np_prevhash = prevhash_byte_swapped,
              np_coinbase1 = coinbase1, np_coinbase2 = coinbase2, np_merkle_branches = merkle_branches,
              np_version = hex_encode X (be_bytes 4 (unat (bt_version template))),
              np_nbits = bt_bits template,
              np_ntime = hex_encode X (be_bytes 4 (unat (bt_curtime template))),
              np_clean_jobs = clean_jobs\<rparr>)))))))"

definition build_share_commitment ::
  "'addr crates \<Rightarrow> btc \<Rightarrow> u64 \<Rightarrow> share_store \<Rightarrow> block_template \<Rightarrow> pubkey option
     \<Rightarrow> (string, share_commitment option) outcome" where
  "build_share_commitment X B now_secs st template miner_pubkey =
     (case get_current_target st of
        Err e \<Rightarrow> Err ''Failed to get current target''
      | Panic \<Rightarrow> Panic
      | Ok target \<Rightarrow>
          case get_chain_tip_and_uncles st of (tip, uncles) \<Rightarrow>
            and_then (get_merkle_root_without_coinbase X B template) (\<lambda>merkle_root.
              case miner_pubkey of
                None \<Rightarrow> Ok None
              | Some key \<Rightarrow>
                  Ok (Some \<lparr>sc_prev_share_blockhash = tip, sc_uncles = uncles, sc_miner_pubkey = key,
                            sc_merkle_root = merkle_root, sc_bits = target, sc_time = ucast now_secs\<rparr>)))"

text \<open>\<open>None\<close> is a payout whose search for shares does not end.\<close>

definition build_notify_and_commitment ::
  "('addr, 'net) notify_env \<Rightarrow> job_clock \<Rightarrow> share_store \<Rightarrow> block_template \<Rightarrow> bool \<Rightarrow> bytes \<Rightarrow> job_tracker
     \<Rightarrow> ((work_error, string \<times> share_commitment option) outcome \<times> job_tracker) option" where
  "build_notify_and_commitment env clk st template clean_jobs pool_signature t =
     (let X = ne_crates env; B = ne_btc env
      in case get_next_job_id t of (job_id, t1) \<Rightarrow>
           case build_output_distribution env clk st template of
             None \<Rightarrow> None
           | Some distribution \<Rightarrow>
               Some
                 (case and_then distribution (\<lambda>output_distribution.
                       and_then (map_err (\<lambda>_. WorkError ''Failed to build share commitment'')
                           (build_share_commitment X B (jc_commitment_secs clk) st template (ne_miner_pubkey env)))
                         (\<lambda>commitment.
                       and_then (build_notify X B (jc_coinbase clk) template output_distribution job_id clean_jobs
                           pool_signature (map_option (commitment_hash B) commitment))
                         (\<lambda>ntf. Ok (ntf, commitment)))) of
                    Ok (ntf, commitment) \<Rightarrow>
                      (Ok (ne_to_string env ntf, commitment),
                       insert_job (jc_insert_secs clk) template (np_coinbase1 (nt_params ntf)) (np_coinbase2 (nt_params ntf))
                         commitment job_id t1)
                  | Err e \<Rightarrow> (Err e, t1)
                  | Panic \<Rightarrow> (Panic, t1)))"

section \<open>The task that sends jobs\<close>

datatype notify_cmd =
    NotifyAll block_template
  | NotifyClient socket_addr bool

text \<open>Its state: the latest template, the tracker, the store, and the commands it sent to the registry of connections.\<close>

record notifier =
  nf_latest_template :: "block_template option"
  nf_tracker :: job_tracker
  nf_store :: share_store
  nf_commands :: "client_connection_command list"
  nf_running :: bool

definition pool_signature_bytes :: "('addr, 'net) stratum_config \<Rightarrow> bytes" where
  "pool_signature_bytes config =
     (case sc_pool_signature config of None \<Rightarrow> [] | Some sig \<Rightarrow> map (\<lambda>c. word_of_nat (of_char c)) sig)"

text \<open>A job that was built is sent and stored; one that was not is skipped.\<close>

definition send_job ::
  "('addr, 'net) notify_env \<Rightarrow> job_clock \<Rightarrow> block_template \<Rightarrow> bool \<Rightarrow> (string \<Rightarrow> client_connection_command)
     \<Rightarrow> notifier \<Rightarrow> notifier option" where
  "send_job env clk template clean_jobs command s =
     (case build_notify_and_commitment env clk (nf_store s) template clean_jobs
             (pool_signature_bytes (ne_config env)) (nf_tracker s) of
        None \<Rightarrow> None
      | Some (Ok (notify_str, _), t) \<Rightarrow>
          Some (s\<lparr>nf_tracker := t, nf_commands := nf_commands s @ [command notify_str],
                  nf_store := snd (handle_add_job (ne_writer_alive env) (jc_store_micros clk) notify_str (nf_store s))\<rparr>)
      | Some (Err _, t) \<Rightarrow> Some (s\<lparr>nf_tracker := t\<rparr>)
      | Some (Panic, t) \<Rightarrow> Some (s\<lparr>nf_tracker := t, nf_running := False\<rparr>))"

definition notify_step ::
  "('addr, 'net) notify_env \<Rightarrow> job_clock \<Rightarrow> notify_cmd \<Rightarrow> notifier \<Rightarrow> notifier option" where
  "notify_step env clk cmd s =
     (case cmd of
        NotifyAll template \<Rightarrow>
          let clean_jobs = (case nf_latest_template s of
                              None \<Rightarrow> True
                            | Some latest \<Rightarrow> bt_previousblockhash latest \<noteq> bt_previousblockhash template)
          in send_job env clk template clean_jobs SendToAll (s\<lparr>nf_latest_template := Some template\<rparr>)
      | NotifyClient client_address clean_jobs \<Rightarrow>
          (case nf_latest_template s of
             None \<Rightarrow> Some s
           | Some template \<Rightarrow> send_job env clk template clean_jobs (SendToClient client_address) s))"

section \<open>The distribution of the latest job\<close>

fun output_lines :: "'addr crates \<Rightarrow> nat \<Rightarrow> txout list \<Rightarrow> string" where
  "output_lines X index [] = []"
| "output_lines X index (tx_out # outputs) =
     (if to_value tx_out \<noteq> 0 then
        (case address_of_script X (to_script_pubkey tx_out) of
           Some address \<Rightarrow>
             ''coinbase_output{index='' @ [char_of (34 :: nat)] @ decimal index @ [char_of (34 :: nat)] @ '',address=''
             @ [char_of (34 :: nat)] @ address @ [char_of (34 :: nat)] @ ''} '' @ decimal (unat (to_value tx_out))
             @ [char_of (10 :: nat)]
         | None \<Rightarrow> [])
      else [])
     @ output_lines X (Suc index) outputs"

definition get_distribution :: "'addr crates \<Rightarrow> job_tracker \<Rightarrow> nat \<Rightarrow> string option" where
  "get_distribution X t pool_signature_length =
     (case get_job t (get_latest_job_id t) of
        None \<Rightarrow> None
      | Some job_details \<Rightarrow>
          (case extract_outputs_from_coinbase2 X (jd_coinbase2 job_details) pool_signature_length of
             Ok outputs \<Rightarrow>
               Some (output_lines X 0 outputs
                 @ ''coinbase_total '' @ decimal (unat (bt_coinbasevalue (jd_blocktemplate job_details))) @ [char_of (10 :: nat)])
           | _ \<Rightarrow> None))"

section \<open>Lemmas\<close>

text \<open>Both maps of the tracker have the same jobs.\<close>

definition tracker_inv :: "job_tracker \<Rightarrow> bool" where
  "tracker_inv t \<longleftrightarrow> distinct (map fst (jt_job_details t)) \<and> distinct (map fst (jt_job_shares t))
     \<and> (\<forall>job_id. map_of (jt_job_shares t) job_id = None \<longleftrightarrow> map_of (jt_job_details t) job_id = None)"

lemma map_of_removed:
  "map_of (fold hm_remove ks m) k = (if k \<in> set ks then None else map_of m k)"
  by (induction ks arbitrary: m) auto

lemma distinct_removed: "distinct (map fst m) \<Longrightarrow> distinct (map fst (fold hm_remove ks m))"
  by (induction ks arbitrary: m) auto

lemma tracker_inv_new [simp]: "tracker_inv (tracker_new n)"
  by (simp add: tracker_inv_def tracker_new_def)

lemma tracker_inv_insert: "tracker_inv t \<Longrightarrow> tracker_inv (insert_job now template c1 c2 commitment job_id t)"
  by (auto simp: tracker_inv_def insert_job_def)

lemma cleanup_details:
  assumes "tracker_inv t"
  shows "map_of (jt_job_details (snd (cleanup_old_jobs age now t))) k
      = (case map_of (jt_job_details t) k of None \<Rightarrow> None | Some d \<Rightarrow> if keep_job age now d then Some d else None)"
    and "map_of (jt_job_shares (snd (cleanup_old_jobs age now t))) k
      = (case map_of (jt_job_details t) k of
           None \<Rightarrow> None | Some d \<Rightarrow> if keep_job age now d then map_of (jt_job_shares t) k else None)"
proof -
  let ?m = "jt_job_details t"
  have dist: "distinct (map fst ?m)" using assms by (simp add: tracker_inv_def)
  show "map_of (jt_job_details (snd (cleanup_old_jobs age now t))) k
      = (case map_of ?m k of None \<Rightarrow> None | Some d \<Rightarrow> if keep_job age now d then Some d else None)"
    using map_of_hm_retain [OF dist] by (simp add: cleanup_old_jobs_def Let_def split: option.splits)
  define removed where "removed = map fst (filter (\<lambda>(_, d). \<not> keep_job age now d) ?m)"
  have mem: "k \<in> set removed \<longleftrightarrow> (\<exists>d. map_of ?m k = Some d \<and> \<not> keep_job age now d)"
    using dist by (auto simp: removed_def image_iff)
  have "jt_job_shares (snd (cleanup_old_jobs age now t)) = fold hm_remove removed (jt_job_shares t)"
    by (simp add: cleanup_old_jobs_def Let_def removed_def)
  then show "map_of (jt_job_shares (snd (cleanup_old_jobs age now t))) k
      = (case map_of ?m k of
           None \<Rightarrow> None | Some d \<Rightarrow> if keep_job age now d then map_of (jt_job_shares t) k else None)"
    using assms mem unfolding tracker_inv_def by (cases "map_of ?m k") (simp_all add: map_of_removed)
qed

lemma tracker_inv_cleanup:
  assumes "tracker_inv t"
  shows "tracker_inv (snd (cleanup_old_jobs age now t))"
  using assms cleanup_details [OF assms, of age now]
  by (auto simp: tracker_inv_def cleanup_old_jobs_def Let_def distinct_removed split: option.splits)

lemma tracker_inv_add_share: "tracker_inv t \<Longrightarrow> tracker_inv (snd (tracker_add_share job_id hash t))"
  by (auto simp: tracker_inv_def tracker_add_share_def map_of_hm_adjust split: option.splits)

text \<open>Sequences of operations: a new job under the next identifier, a cleanup, or a share.\<close>

datatype tracker_op =
    NewJob u64 block_template string string "share_commitment option"
  | Cleanup u64 u64
  | AddShareOp job_id blockhash

fun apply_op :: "tracker_op \<Rightarrow> (job_id \<times> blockhash) list \<times> job_tracker \<Rightarrow> (job_id \<times> blockhash) list \<times> job_tracker" where
  "apply_op (NewJob now template c1 c2 commitment) (accepted, t) =
     (case get_next_job_id t of (job_id, t') \<Rightarrow> (accepted, insert_job now template c1 c2 commitment job_id t'))"
| "apply_op (Cleanup age now) (accepted, t) = (accepted, snd (cleanup_old_jobs age now t))"
| "apply_op (AddShareOp job_id hash) (accepted, t) =
     (case tracker_add_share job_id hash t of
        (is_new, t') \<Rightarrow> (if is_new then accepted @ [(job_id, hash)] else accepted, t'))"

fun new_jobs :: "tracker_op list \<Rightarrow> nat" where
  "new_jobs [] = 0"
| "new_jobs (NewJob _ _ _ _ _ # ops) = Suc (new_jobs ops)"
| "new_jobs (_ # ops) = new_jobs ops"

definition issued :: "u64 \<Rightarrow> nat \<Rightarrow> job_id set" where
  "issued s n = (\<lambda>i. s + word_of_nat i) ` {1..n}"

definition tracked :: "u64 \<Rightarrow> nat \<Rightarrow> (job_id \<times> blockhash) list \<Rightarrow> job_tracker \<Rightarrow> bool" where
  "tracked s n accepted t \<longleftrightarrow> tracker_inv t \<and> distinct accepted \<and> jt_latest_job_id t = s + word_of_nat n
     \<and> fst ` set accepted \<subseteq> issued s n \<and> dom (map_of (jt_job_shares t)) \<subseteq> issued s n
     \<and> (\<forall>j shares. map_of (jt_job_shares t) j = Some shares \<longrightarrow> (\<forall>h. h \<in> set shares \<longleftrightarrow> (j, h) \<in> set accepted))"

lemma next_id_fresh:
  assumes "Suc n < 2 ^ 64"
  shows "s + word_of_nat (Suc n) \<notin> issued s n"
proof
  assume "s + word_of_nat (Suc n) \<in> issued s n"
  then obtain i where i: "i \<le> n" "word_of_nat (Suc n) = (word_of_nat i :: u64)"
    by (auto simp: issued_def algebra_simps)
  have "unat (word_of_nat (Suc n) :: u64) = unat (word_of_nat i :: u64)" by (simp only: i(2))
  then have "Suc n mod 2 ^ 64 = i mod 2 ^ 64" by (simp add: unat_of_nat del: of_nat_Suc)
  with assms i(1) show False by simp
qed

lemma issued_mono: "issued s n \<subseteq> issued s (Suc n)"
  by (auto simp: issued_def)

lemma tracked_new_job:
  assumes "tracked s n accepted t" "Suc n < 2 ^ 64"
  shows "tracked s (Suc n) accepted (snd (apply_op (NewJob now template c1 c2 commitment) (accepted, t)))"
proof -
  define new_id where "new_id = s + (word_of_nat (Suc n) :: u64)"
  have fresh: "new_id \<notin> issued s n" unfolding new_id_def using assms(2) by (rule next_id_fresh)
  have mem: "new_id \<in> issued s (Suc n)" unfolding issued_def new_id_def by (intro imageI) simp
  have none: "(new_id, h) \<notin> set accepted" for h using assms(1) fresh by (force simp: tracked_def)
  have "jt_latest_job_id t + 1 = new_id" using assms(1) by (simp add: tracked_def new_id_def ac_simps)
  then have op: "snd (apply_op (NewJob now template c1 c2 commitment) (accepted, t))
      = insert_job now template c1 c2 commitment new_id (t\<lparr>jt_latest_job_id := new_id\<rparr>)"
    by (simp add: get_next_job_id_def)
  have inv: "tracker_inv (insert_job now template c1 c2 commitment new_id (t\<lparr>jt_latest_job_id := new_id\<rparr>))"
    using assms(1) by (intro tracker_inv_insert) (simp add: tracked_def tracker_inv_def)
  show ?thesis
    unfolding op tracked_def using inv assms(1) issued_mono [of s n] mem none
    by (auto simp: tracked_def insert_job_def) (simp add: new_id_def)
qed

lemma tracked_cleanup:
  assumes "tracked s n accepted t"
  shows "tracked s n accepted (snd (cleanup_old_jobs age now t))"
proof -
  have inv: "tracker_inv t" using assms by (simp add: tracked_def)
  have "jt_latest_job_id (snd (cleanup_old_jobs age now t)) = jt_latest_job_id t" by (simp add: cleanup_old_jobs_def Let_def)
  then show ?thesis
    using assms tracker_inv_cleanup [OF inv] unfolding tracked_def
    by (auto simp: cleanup_details [OF inv] dom_def split: option.splits if_splits)
qed

lemma add_share_result:
  assumes "tracked s n accepted t"
  shows "fst (tracker_add_share j h t) \<longleftrightarrow> get_job t j \<noteq> None \<and> (j, h) \<notin> set accepted"
proof -
  have "map_of (jt_job_shares t) j = None \<longleftrightarrow> map_of (jt_job_details t) j = None"
    using assms unfolding tracked_def tracker_inv_def by blast
  moreover have "\<forall>shares. map_of (jt_job_shares t) j = Some shares \<longrightarrow> (h \<in> set shares \<longleftrightarrow> (j, h) \<in> set accepted)"
    using assms unfolding tracked_def by blast
  ultimately show ?thesis
    unfolding tracker_add_share_def get_job_def by (cases "map_of (jt_job_shares t) j") simp_all
qed

lemma tracked_add_share:
  assumes "tracked s n accepted t"
  shows "case apply_op (AddShareOp j h) (accepted, t) of (accepted', t') \<Rightarrow> tracked s n accepted' t'"
proof (cases "map_of (jt_job_shares t) j")
  case None
  then show ?thesis using assms by (simp add: tracker_add_share_def)
next
  case (Some shares)
  then have j: "j \<in> issued s n" using assms by (auto simp: tracked_def)
  have mem: "x \<in> set shares \<longleftrightarrow> (j, x) \<in> set accepted" for x using assms Some by (auto simp: tracked_def)
  have "tracker_inv (snd (tracker_add_share j h t))"
    using assms by (intro tracker_inv_add_share) (simp add: tracked_def)
  then show ?thesis
    using assms Some j mem
    by (auto simp: tracked_def tracker_add_share_def map_of_hm_adjust dom_def split: if_splits)
qed

lemma tracked_ops:
  assumes "tracked s n accepted t" "n + new_jobs ops < 2 ^ 64"
  shows "case fold apply_op ops (accepted, t) of (accepted', t') \<Rightarrow> tracked s (n + new_jobs ops) accepted' t'"
  using assms
proof (induction ops arbitrary: n accepted t)
  case (Cons op ops)
  show ?case
  proof (cases op)
    case (NewJob now template c1 c2 commitment)
    then have lt: "Suc n < 2 ^ 64" using Cons.prems(2) by simp
    obtain t' where t': "apply_op op (accepted, t) = (accepted, t')"
      by (simp add: NewJob get_next_job_id_def)
    then have "tracked s (Suc n) accepted t'"
      using tracked_new_job [OF Cons.prems(1) lt, of now template c1 c2 commitment] NewJob by simp
    moreover have "fold apply_op (op # ops) (accepted, t) = fold apply_op ops (accepted, t')" by (simp add: t')
    ultimately show ?thesis using Cons.IH [of "Suc n" accepted t'] Cons.prems(2) by (simp only:) (simp add: NewJob)
  next
    case (Cleanup age now)
    from Cons.IH [OF tracked_cleanup [OF Cons.prems(1), of age now]] Cons.prems(2)
    show ?thesis by (simp add: Cleanup)
  next
    case (AddShareOp j h)
    obtain accepted' t' where step: "apply_op op (accepted, t) = (accepted', t')" by force
    then have "tracked s n accepted' t'"
      using tracked_add_share [OF Cons.prems(1), of j h] AddShareOp by simp
    moreover have "fold apply_op (op # ops) (accepted, t) = fold apply_op ops (accepted', t')" by (simp add: step)
    ultimately show ?thesis using Cons.IH [of n accepted' t'] Cons.prems(2) by (simp only:) (simp add: AddShareOp)
  qed
qed simp

lemma tracked_start: "tracked s 0 [] (tracker_new s)"
  by (simp add: tracked_def tracker_new_def tracker_inv_def)

text \<open>What a job that is built consists of.\<close>

lemma distribution_pays_coinbasevalue:
  fixes env :: "('addr, 'net) notify_env"
  assumes "build_output_distribution env clk st template = Some (Ok pairs)" "pairs \<noteq> []"
    and "\<forall>m. mset (ne_hash_order env m) = mset m"
  shows "total_paid pairs = unat (bt_coinbasevalue template)"
proof -
  have res: "(case r of Ok d \<Rightarrow> Ok d | Err _ \<Rightarrow> Ok [] | Panic \<Rightarrow> Panic) = (Ok pairs :: (work_error, 'addr output_pair list) outcome)
      \<Longrightarrow> r = Ok pairs" for r :: "(payout_error, 'addr output_pair list) outcome"
    using assms(2) by (cases r) auto
  obtain goal where "get_output_distribution (ne_parse env) (ne_hash_order env) (store_query (jc_payout_micros clk) st)
      DEFAULT_STEP_SIZE_SECONDS (jc_payout_secs clk) goal (bt_coinbasevalue template) (ne_config env) = Some (Ok pairs)"
    using assms(1,2) by (auto simp: build_output_distribution_def Let_def dest!: res split: option.split_asm)
  then show ?thesis using assms(3) by (rule distribution_conserves)
qed

lemma build_notify_Ok:
  assumes "build_notify X B ts template pairs job_id clean_jobs sig commitment = Ok ntf"
  shows "pairs \<noteq> []"
    and "np_job_id (nt_params ntf) = lower_hex 16 (unat job_id)" "np_clean_jobs (nt_params ntf) = clean_jobs"
    and "\<exists>tx. split_coinbase X B tx = Ok (np_coinbase1 (nt_params ntf), np_coinbase2 (nt_params ntf))
       \<and> (\<Sum>out\<leftarrow>tx_output tx. unat (to_value out)) = total_paid pairs"
proof -
  obtain flags tx c1 c2 where build:
    "build_coinbase_transaction X ts 2 pairs (uint (bt_height template)) flags (bt_default_witness_commitment template)
       sig commitment = Ok tx"
    and split: "split_coinbase X B tx = Ok (c1, c2)"
    and ntf: "np_job_id (nt_params ntf) = lower_hex 16 (unat job_id)" "np_clean_jobs (nt_params ntf) = clean_jobs"
      "np_coinbase1 (nt_params ntf) = c1" "np_coinbase2 (nt_params ntf) = c2"
    using assms by (auto simp: build_notify_def new_notify_def outcome_simps)
  from build show "pairs \<noteq> []" by (auto simp: build_coinbase_transaction_def)
  obtain outputs where "append_default_witness_commitment X (build_outputs X pairs) (bt_default_witness_commitment template) = Ok outputs"
    "tx_output tx = outputs"
    using build_coinbase_Ok [OF build] by (auto simp: coinbase_tx_def)
  then have "(\<Sum>out\<leftarrow>tx_output tx. unat (to_value out)) = total_paid pairs" using coinbase_values by blast
  with split ntf show "\<exists>tx. split_coinbase X B tx = Ok (np_coinbase1 (nt_params ntf), np_coinbase2 (nt_params ntf))
       \<and> (\<Sum>out\<leftarrow>tx_output tx. unat (to_value out)) = total_paid pairs" by auto
  show "np_job_id (nt_params ntf) = lower_hex 16 (unat job_id)" "np_clean_jobs (nt_params ntf) = clean_jobs"
    using ntf by simp_all
qed

text \<open>The notification a job text stands for, the tracked job, and what its coinbase pays.\<close>

definition job_in_order ::
  "('addr, 'net) notify_env \<Rightarrow> block_template \<Rightarrow> bool \<Rightarrow> string \<Rightarrow> job_id \<Rightarrow> job_tracker \<Rightarrow> bool" where
  "job_in_order env template clean_jobs text job_id t \<longleftrightarrow>
     (\<exists>ntf job tx.
        text = ne_to_string env ntf \<and> from_str_radix_16 (np_job_id (nt_params ntf)) = Some job_id
        \<and> np_clean_jobs (nt_params ntf) = clean_jobs
        \<and> get_job t job_id = Some job \<and> jd_blocktemplate job = template
        \<and> jd_coinbase1 job = np_coinbase1 (nt_params ntf) \<and> jd_coinbase2 job = np_coinbase2 (nt_params ntf)
        \<and> split_coinbase (ne_crates env) (ne_btc env) tx = Ok (jd_coinbase1 job, jd_coinbase2 job)
        \<and> (\<Sum>out\<leftarrow>tx_output tx. unat (to_value out)) = unat (bt_coinbasevalue template))"

lemma job_built:
  assumes "build_notify_and_commitment env clk st template clean_jobs sig t = Some (Ok (text, commitment), t')"
    and "\<forall>m. mset (ne_hash_order env m) = mset m"
  shows "job_in_order env template clean_jobs text (jt_latest_job_id t + 1) t'"
    and "\<forall>j. j \<noteq> jt_latest_job_id t + 1 \<longrightarrow> get_job t' j = get_job t j"
proof -
  let ?id = "jt_latest_job_id t + 1"
  obtain pairs ntf where pairs: "build_output_distribution env clk st template = Some (Ok pairs)"
    and ntf: "build_notify (ne_crates env) (ne_btc env) (jc_coinbase clk) template pairs ?id clean_jobs sig
      (map_option (commitment_hash (ne_btc env)) commitment) = Ok ntf"
    and res: "text = ne_to_string env ntf"
      "t' = insert_job (jc_insert_secs clk) template (np_coinbase1 (nt_params ntf)) (np_coinbase2 (nt_params ntf))
        commitment ?id (t\<lparr>jt_latest_job_id := ?id\<rparr>)"
    using assms(1)
    by (auto simp: build_notify_and_commitment_def get_next_job_id_def Let_def outcome_simps
        split: option.splits outcome.splits)
  note built = build_notify_Ok [OF ntf]
  have "total_paid pairs = unat (bt_coinbasevalue template)"
    using distribution_pays_coinbasevalue [OF pairs built(1) assms(2)] .
  with built(4) obtain tx where
    "split_coinbase (ne_crates env) (ne_btc env) tx = Ok (np_coinbase1 (nt_params ntf), np_coinbase2 (nt_params ntf))"
    "(\<Sum>out\<leftarrow>tx_output tx. unat (to_value out)) = unat (bt_coinbasevalue template)" by auto
  moreover have "from_str_radix_16 (np_job_id (nt_params ntf)) = Some ?id"
    using from_str_radix_lower_hex [of 16 ?id] built(2) by simp
  ultimately show "job_in_order env template clean_jobs text ?id t'"
    unfolding job_in_order_def using built(3) res by (auto simp: insert_job_def get_job_def)
  show "\<forall>j. j \<noteq> ?id \<longrightarrow> get_job t' j = get_job t j"
    by (simp add: res(2) insert_job_def get_job_def)
qed

section \<open>Properties\<close>

text \<open>
  C6: a job is announced only when it can be paid and found again: whenever the notifier sends
  something to the registry of connections, it is one job; the job identifier in its text reads
  back to the next identifier, under which the tracker holds the job with the same two halves
  of the coinbase and the template sent; the halves are those of a transaction whose outputs
  add up to the value of the template's coinbase; jobs that were tracked are kept. A job for all
  clients tells them to drop their old work exactly when the template builds on another block
  than the last one, or is the first.
\<close>

theorem announced_job_pays_reward:
  assumes "notify_step env clk cmd s = Some s'" "nf_commands s' \<noteq> nf_commands s"
    and "\<forall>m. mset (ne_hash_order env m) = mset m"
  shows "\<exists>text template clean_jobs command.
      nf_commands s' = nf_commands s @ [command text] \<and> nf_latest_template s' = Some template
      \<and> job_in_order env template clean_jobs text (jt_latest_job_id (nf_tracker s) + 1) (nf_tracker s')
      \<and> (\<forall>j. j \<noteq> jt_latest_job_id (nf_tracker s) + 1 \<longrightarrow> get_job (nf_tracker s') j = get_job (nf_tracker s) j)
      \<and> (case cmd of
           NotifyAll t \<Rightarrow> template = t \<and> command = SendToAll \<and>
             (clean_jobs \<longleftrightarrow> (\<forall>latest. nf_latest_template s = Some latest \<longrightarrow> bt_previousblockhash latest \<noteq> bt_previousblockhash t))
         | NotifyClient addr clean \<Rightarrow> command = SendToClient addr \<and> clean_jobs = clean \<and> nf_latest_template s = Some template)"
proof -
  have sent: "\<exists>text. nf_commands s2 = nf_commands s1 @ [command text]
        \<and> job_in_order env template clean_jobs text (jt_latest_job_id (nf_tracker s1) + 1) (nf_tracker s2)
        \<and> (\<forall>j. j \<noteq> jt_latest_job_id (nf_tracker s1) + 1 \<longrightarrow> get_job (nf_tracker s2) j = get_job (nf_tracker s1) j)
        \<and> nf_latest_template s2 = nf_latest_template s1"
    if "send_job env clk template clean_jobs command s1 = Some s2" "nf_commands s2 \<noteq> nf_commands s1"
    for template clean_jobs command s1 s2
    using that job_built [OF _ assms(3)] by (auto simp: send_job_def split: option.splits prod.splits outcome.splits)
  show ?thesis
  proof (cases cmd)
    case (NotifyAll t)
    then show ?thesis
      using assms(1,2) sent [of t _ SendToAll "s\<lparr>nf_latest_template := Some t\<rparr>" s']
      by (fastforce simp: notify_step_def Let_def split: option.splits)
  next
    case (NotifyClient addr clean)
    then obtain template where "nf_latest_template s = Some template"
      "send_job env clk template clean (SendToClient addr) s = Some s'"
      using assms(1,2) by (auto simp: notify_step_def split: option.splits)
    with sent [OF this(2) assms(2)] NotifyClient show ?thesis by auto
  qed
qed

text \<open>
  The tracker counts a share once: after any sequence of new jobs, cleanups and shares (with
  fewer than \<open>2 ^ 64\<close> jobs) no share was accepted twice, and the next share is accepted exactly
  when its job is still tracked and it was not accepted before, also across cleanups and new jobs;
  the jobs with details and the jobs with shares are the same.
\<close>

theorem shares_accepted_once:
  assumes "new_jobs ops < 2 ^ 64" "fold apply_op ops ([], tracker_new s) = (accepted, t)"
  shows "distinct accepted
    \<and> (\<forall>job_id hash. fst (tracker_add_share job_id hash t) \<longleftrightarrow>
         get_job t job_id \<noteq> None \<and> (job_id, hash) \<notin> set accepted)
    \<and> tracker_inv t"
proof -
  have "tracked s (0 + new_jobs ops) accepted t"
    using tracked_ops [OF tracked_start, of ops s] assms by simp
  from add_share_result [OF this] this show ?thesis by (simp add: tracked_def)
qed

text \<open>
  A cleanup removes exactly the jobs at least as old as the limit, with their shares, and
  reports how many there were.
\<close>

theorem cleanup_removes_old_jobs:
  assumes "tracker_inv t" "cleanup_old_jobs age now t = (n, t')"
  shows "(\<forall>j. get_job t' j = (case get_job t j of None \<Rightarrow> None | Some d \<Rightarrow>
        if unat age \<le> unat now - unat (jd_generation_timestamp d) then None else Some d))
    \<and> (\<forall>j hash. get_job t' j = None \<longrightarrow> \<not> fst (tracker_add_share j hash t'))
    \<and> card (dom (get_job t)) = n + card (dom (get_job t'))"
proof -
  have t': "t' = snd (cleanup_old_jobs age now t)" using assms(2) by simp
  have keep: "keep_job age now d \<longleftrightarrow> \<not> unat age \<le> unat now - unat (jd_generation_timestamp d)" for d
    by (auto simp: keep_job_def saturating_sub_def word_less_nat_alt unat_sub_if_size unat_sub_if' split: if_splits)
  have "get_job t' j = (case get_job t j of None \<Rightarrow> None | Some d \<Rightarrow>
        if unat age \<le> unat now - unat (jd_generation_timestamp d) then None else Some d)" for j
    unfolding get_job_def t' cleanup_details(1) [OF assms(1)] keep by (simp split: option.splits)
  moreover have inv: "tracker_inv t'" unfolding t' using assms(1) by (rule tracker_inv_cleanup)
  then have "get_job t' j = None \<longrightarrow> \<not> fst (tracker_add_share j hash t')" for j hash
    unfolding tracker_inv_def get_job_def tracker_add_share_def by (metis fst_conv option.simps(4))
  moreover have dom: "card (dom (get_job x)) = length (jt_job_details x)" if "tracker_inv x" for x
    using that distinct_card [of "map fst (jt_job_details x)"]
    by (simp add: tracker_inv_def get_job_def [abs_def] dom_map_of_conv_image_fst)
  have "length (jt_job_details t') \<le> length (jt_job_details t)"
    by (simp add: t' cleanup_old_jobs_def Let_def hm_retain_def)
  then have "card (dom (get_job t)) = n + card (dom (get_job t'))"
    using dom [OF inv] dom [OF assms(1)] assms(2) by (auto simp: cleanup_old_jobs_def Let_def)
  ultimately show ?thesis by blast
qed

section \<open>Instances\<close>

definition job_env :: "(string, unit) notify_env" where
  "job_env =
     \<lparr>ne_crates = sample_crates, ne_btc = work_btc, ne_parse = Some, ne_hash_order = (\<lambda>m. m),
      ne_config = sample_config\<lparr>sc_pool_signature := Some [char_of (7 :: nat)], sc_bootstrap_address_parsed := Some ''a''\<rparr>,
      ne_miner_pubkey = None, ne_to_string = (\<lambda>ntf. np_job_id (nt_params ntf)), ne_writer_alive = True\<rparr>"

definition job_clk :: job_clock where
  "job_clk = \<lparr>jc_payout_secs = 100, jc_payout_micros = 0, jc_commitment_secs = 100, jc_coinbase = (1, 2),
     jc_insert_secs = 100, jc_store_micros = 0\<rparr>"

definition job_store :: share_store where
  "job_store = sample_dag\<lparr>share_cf := []\<rparr>"

definition idle_notifier :: notifier where
  "idle_notifier = \<lparr>nf_latest_template = None, nf_tracker = tracker_new 0, nf_store = job_store, nf_commands = [],
     nf_running = True\<rparr>"

lemma job_store_no_shares: "store_query now job_store a b = []"
  by (simp add: store_query_def get_pplns_shares_filtered_def job_store_def populate_btcaddresses_def
      List.map_filter_def table_scan_back_def Let_def)

lemma sample_distribution: "build_output_distribution job_env job_clk job_store sample_template = Some (Ok sample_pairs)"
proof -
  have "get_shares_for_difficulty (store_query 0 job_store) step now goal = Some []" for step now goal
    unfolding get_shares_for_difficulty_def by (subst get_shares_loop.simps) (simp add: job_store_no_shares)
  then show ?thesis
    by (simp add: build_output_distribution_def job_env_def job_clk_def sample_template_def sample_crates_def
        get_output_distribution_def include_address_and_cut_def sample_config_def donation_address_def fee_address_def
        bootstrap_address_def checked_mul_def amount_sub_def BASIS_POINT_FACTOR_def sample_pairs_def)
qed

lemma sample_notify:
  "\<exists>ntf. build_notify sample_crates work_btc (1, 2) sample_template sample_pairs 1 clean_jobs [7] None = Ok ntf"
proof -
  note hex = sample_crates_ok(1) [unfolded hex_ok_def]
  note hashes = sample_crates_ok(2) [unfolded hashes_ok_def]
  have display: "hex_decode sample_crates (display_hash sample_crates h) = Some (rev (hash_bytes sample_crates h))"
    "length (display_hash sample_crates h) = 64" for h
    using hex hashes by (simp_all only: length_rev mult_2)
  obtain branches where branches:
    "build_merkle_branches_for_template sample_crates sample_template = (Ok branches :: (work_error, _) outcome)"
    by (simp add: build_merkle_branches_for_template_def sample_template_txids)
  have "collect (\<lambda>branch. to_be_hex sample_crates (display_hash sample_crates branch)) bs
      = (Ok (map (\<lambda>b. hex_encode sample_crates (hash_bytes sample_crates b)) bs) :: (work_error, _) outcome)" for bs
    by (induction bs) (simp_all add: to_be_hex_def display)
  moreover have "reverse_four_byte_chunks sample_crates (bt_previousblockhash sample_template)
      = Ok (hex_encode sample_crates (concat (rev (chunks4 (rev (hash_bytes sample_crates 9))))))"
    using display(2) [of 9] by (simp add: reverse_four_byte_chunks_def sample_template_def display)
  ultimately show ?thesis
    using sample_coinbase branches
    by (auto simp: build_notify_def parse_flags_def sample_template_def)
qed

theorem announced_job_pays_reward_witness:
  "\<exists>s' text. notify_step job_env job_clk (NotifyAll sample_template) idle_notifier = Some s'
     \<and> job_in_order job_env sample_template True text 1 (nf_tracker s')"
proof -
  obtain ntf where ntf: "build_notify sample_crates work_btc (1, 2) sample_template sample_pairs 1 True [7] None = Ok ntf"
    using sample_notify by blast
  have "get_current_target job_store = Ok (sh_bits (chain_header 4 3 [2]))"
    by (simp add: job_store_def get_current_target_def get_share_headers_def List.map_filter_def chain_cell_def)
  then have "build_share_commitment sample_crates work_btc 100 job_store sample_template None = Ok None"
    by (simp add: build_share_commitment_def get_merkle_root_without_coinbase_def sample_template_txids split: prod.splits)
  then obtain t where "build_notify_and_commitment job_env job_clk job_store sample_template True [7] (tracker_new 0)
      = Some (Ok (ne_to_string job_env ntf, None), t)"
    using ntf sample_distribution
    by (simp add: build_notify_and_commitment_def get_next_job_id_def tracker_new_def job_env_def job_clk_def)
  then obtain s' where s': "notify_step job_env job_clk (NotifyAll sample_template) idle_notifier = Some s'"
    "nf_commands s' \<noteq> nf_commands idle_notifier"
    by (simp add: notify_step_def send_job_def idle_notifier_def pool_signature_bytes_def job_env_def)
  from announced_job_pays_reward [OF this] s' show ?thesis
    by (fastforce simp: job_env_def idle_notifier_def tracker_new_def)
qed

theorem shares_accepted_once_witness:
  "\<exists>t. fold apply_op [NewJob 1 sample_template ''a'' ''b'' None, AddShareOp 6 7, AddShareOp 6 7] ([], tracker_new 5)
     = ([(6, 7)], t) \<and> \<not> fst (tracker_add_share 6 7 t)"
proof -
  let ?ops = "[NewJob 1 sample_template ''a'' ''b'' None, AddShareOp 6 7, AddShareOp 6 7]"
  have jobs: "new_jobs ?ops < 2 ^ 64" by simp
  obtain t where run: "fold apply_op ?ops ([], tracker_new 5) = ([(6, 7)], t)"
    by (simp add: tracker_new_def get_next_job_id_def insert_job_def tracker_add_share_def hm_insert_def hm_adjust_def
        hs_insert_def hm_remove_def)
  then have "\<not> fst (tracker_add_share 6 7 t)" using shares_accepted_once [OF jobs run] by simp
  with run show ?thesis by blast
qed

theorem cleanup_removes_old_jobs_witness:
  "get_job (snd (cleanup_old_jobs MAX_JOB_AGE_SECS 1000 (insert_job 100 sample_template ''a'' ''b'' None 6 (tracker_new 5)))) 6
     = None"
proof -
  let ?t = "insert_job 100 sample_template ''a'' ''b'' None 6 (tracker_new 5)"
  have "tracker_inv ?t" by (rule tracker_inv_insert) simp
  from cleanup_removes_old_jobs [OF this, of MAX_JOB_AGE_SECS 1000 "fst (cleanup_old_jobs MAX_JOB_AGE_SECS 1000 ?t)"
      "snd (cleanup_old_jobs MAX_JOB_AGE_SECS 1000 ?t)"]
  show ?thesis by (simp add: get_job_def insert_job_def MAX_JOB_AGE_SECS_def)
qed

end
