(* ===== verification/Pool_Metrics.thy ===== *)
theory Pool_Metrics
  imports Accounting_Store Hex_Text
begin

text \<open>
  The statistics of the pool: workers, users and totals (\<open>accounting/stats/worker.rs\<close>,
  \<open>user.rs\<close>), the actor that owns them (\<open>metrics.rs\<close>), what is saved to disk and loaded at the
  start (\<open>pool_local_stats.rs\<close>) and the text for the monitoring system (\<open>prom.rs\<close>). The JSON
  text and the file system are not modelled: saving and loading are functions of the metrics.
\<close>

section \<open>Workers and users\<close>

record worker =
  wk_last_share_at :: u64
  wk_shares_valid_total :: f64
  wk_active :: bool
  wk_best_share :: f64
  wk_best_share_ever :: f64

definition worker_default :: worker where
  "worker_default = \<lparr>wk_last_share_at = 0, wk_shares_valid_total = Fin 0, wk_active = False, wk_best_share = Fin 0,
     wk_best_share_ever = Fin 0\<rparr>"

definition worker_record_share :: "f64 \<Rightarrow> f64 \<Rightarrow> u64 \<Rightarrow> worker \<Rightarrow> worker" where
  "worker_record_share difficulty truediff unix_timestamp w =
     w\<lparr>wk_last_share_at := unix_timestamp,
       wk_shares_valid_total := f64_add (wk_shares_valid_total w) difficulty,
       wk_best_share := f64_max (wk_best_share w) truediff,
       wk_best_share_ever := f64_max (wk_best_share_ever w) truediff,
       wk_active := True\<rparr>"

record user =
  us_last_share_at :: u64
  us_shares_valid_total :: f64
  us_workers :: "(string \<times> worker) list"
  us_best_share :: f64
  us_best_share_ever :: f64

definition user_default :: user where
  "user_default = \<lparr>us_last_share_at = 0, us_shares_valid_total = Fin 0, us_workers = [], us_best_share = Fin 0,
     us_best_share_ever = Fin 0\<rparr>"

definition is_active_worker :: "worker \<Rightarrow> bool" where
  "is_active_worker w \<longleftrightarrow> wk_active w \<and> f64_less (Fin 0) (wk_shares_valid_total w)"

definition active_workers :: "user \<Rightarrow> (string \<times> worker) list" where
  "active_workers u = filter (\<lambda>(_, w). wk_active w \<and> f64_less (Fin 0) (wk_shares_valid_total w)) (us_workers u)"

definition any_active_workers :: "user \<Rightarrow> bool" where
  "any_active_workers u \<longleftrightarrow> list_ex (\<lambda>(_, w). wk_active w \<and> f64_less (Fin 0) (wk_shares_valid_total w)) (us_workers u)"

text \<open>The worker is added when it is not there: \<open>get_or_add_worker\<close>.\<close>

definition user_record_share :: "string \<Rightarrow> f64 \<Rightarrow> f64 \<Rightarrow> u64 \<Rightarrow> user \<Rightarrow> user" where
  "user_record_share workername difficulty truediff current_time_stamp u =
     u\<lparr>us_last_share_at := current_time_stamp,
       us_shares_valid_total := f64_add (us_shares_valid_total u) difficulty,
       us_best_share := f64_max (us_best_share u) truediff,
       us_best_share_ever := f64_max (us_best_share_ever u) truediff,
       us_workers := hm_update workername worker_default (worker_record_share difficulty truediff current_time_stamp)
         (us_workers u)\<rparr>"

section \<open>The pool\<close>

record pool_metrics =
  pm_start_time :: u64
  pm_lastupdate :: "u64 option"
  pm_accepted_total :: u64
  pm_accepted_difficulty_total :: f64
  pm_rejected_total :: u64
  pm_best_share :: f64
  pm_best_share_ever :: f64
  pm_users :: "(string \<times> user) list"
  pm_pool_difficulty :: f64

definition pool_metrics_default :: "u64 \<Rightarrow> pool_metrics" where
  "pool_metrics_default now_secs =
     \<lparr>pm_start_time = now_secs, pm_lastupdate = None, pm_accepted_total = 0, pm_accepted_difficulty_total = Fin 0,
      pm_rejected_total = 0, pm_best_share = Fin 0, pm_best_share_ever = Fin 0, pm_users = [],
      pm_pool_difficulty = Fin 0\<rparr>"

definition metrics_record_share_accepted ::
  "u64 \<Rightarrow> string \<Rightarrow> string \<Rightarrow> f64 \<Rightarrow> f64 \<Rightarrow> pool_metrics \<Rightarrow> pool_metrics" where
  "metrics_record_share_accepted now_secs btcaddress workername difficulty truediff m =
     m\<lparr>pm_accepted_total := pm_accepted_total m + 1,
       pm_accepted_difficulty_total := f64_add (pm_accepted_difficulty_total m) difficulty,
       pm_lastupdate := Some now_secs,
       pm_best_share := f64_max (pm_best_share m) truediff,
       pm_best_share_ever := f64_max (pm_best_share_ever m) truediff,
       pm_users := hm_update btcaddress user_default (user_record_share workername difficulty truediff now_secs)
         (pm_users m)\<rparr>"

definition metrics_record_share_rejected :: "pool_metrics \<Rightarrow> pool_metrics" where
  "metrics_record_share_rejected m = m\<lparr>pm_rejected_total := pm_rejected_total m + 1\<rparr>"

definition worker_authorized :: "string \<Rightarrow> string \<Rightarrow> pool_metrics \<Rightarrow> pool_metrics" where
  "worker_authorized btcaddress workername m =
     m\<lparr>pm_users := hm_update btcaddress user_default
         (\<lambda>u. u\<lparr>us_workers := hm_update workername worker_default (\<lambda>w. w\<lparr>wk_active := True\<rparr>) (us_workers u)\<rparr>)
         (pm_users m)\<rparr>"

definition mark_worker_inactive :: "string option \<Rightarrow> string \<Rightarrow> pool_metrics \<Rightarrow> pool_metrics" where
  "mark_worker_inactive btcaddress workername m =
     (case btcaddress of
        None \<Rightarrow> m
      | Some btcaddress \<Rightarrow>
          m\<lparr>pm_users := hm_adjust btcaddress
              (\<lambda>u. u\<lparr>us_workers := hm_adjust workername (\<lambda>w. w\<lparr>wk_active := False\<rparr>) (us_workers u)\<rparr>)
              (pm_users m)\<rparr>)"

definition metrics_set_last_update :: "u64 \<Rightarrow> pool_metrics \<Rightarrow> pool_metrics" where
  "metrics_set_last_update lastupdate m =
     m\<lparr>pm_lastupdate := Some lastupdate,
       pm_users := map (\<lambda>(a, u). (a, u\<lparr>us_last_share_at := lastupdate,
           us_workers := map (\<lambda>(n, w). (n, w\<lparr>wk_last_share_at := lastupdate\<rparr>)) (us_workers u)\<rparr>)) (pm_users m)\<rparr>"

datatype metrics_message =
    RecordShareAccepted string string f64 f64
  | RecordShareRejected
  | IncrementWorkerCount string string
  | DecrementWorkerCount "string option" string
  | CommitMetrics
  | GetMetrics
  | SetLastUpdate u64

datatype metrics_reply = MetricsDone | MetricsJson pool_metrics | MetricsCopy pool_metrics

text \<open>The reply to a commit is the JSON of the metrics, here the metrics it is written from.\<close>

definition metrics_handle_message :: "u64 \<Rightarrow> metrics_message \<Rightarrow> pool_metrics \<Rightarrow> metrics_reply \<times> pool_metrics" where
  "metrics_handle_message now_secs msg m =
     (case msg of
        RecordShareAccepted btcaddress workername difficulty truediff \<Rightarrow>
          (MetricsDone, metrics_record_share_accepted now_secs btcaddress workername difficulty truediff m)
      | RecordShareRejected \<Rightarrow> (MetricsDone, metrics_record_share_rejected m)
      | IncrementWorkerCount btcaddress workername \<Rightarrow> (MetricsDone, worker_authorized btcaddress workername m)
      | DecrementWorkerCount btcaddress workername \<Rightarrow> (MetricsDone, mark_worker_inactive btcaddress workername m)
      | CommitMetrics \<Rightarrow> (MetricsJson m, m)
      | GetMetrics \<Rightarrow> (MetricsCopy m, m)
      | SetLastUpdate lastupdate \<Rightarrow> (MetricsDone, metrics_set_last_update lastupdate m))"

text \<open>The requests of a handle.\<close>

definition record_share_accepted_message :: "simple_pplns_share \<Rightarrow> f64 \<Rightarrow> metrics_message" where
  "record_share_accepted_message share truediff =
     RecordShareAccepted (case pps_btcaddress share of None \<Rightarrow> '''' | Some a \<Rightarrow> a)
       (case pps_workername share of None \<Rightarrow> '''' | Some n \<Rightarrow> n) (pps_difficulty share) truediff"

section \<open>Saving and loading\<close>

definition filtered_user :: "user \<Rightarrow> user" where
  "filtered_user u = u\<lparr>us_workers := filter (\<lambda>(_, w). is_active_worker w) (us_workers u)\<rparr>"

definition filtered_users :: "(string \<times> user) list \<Rightarrow> (string \<times> user) list" where
  "filtered_users users =
     map (\<lambda>(name, u). (name, filtered_user u)) (filter (\<lambda>(_, u). list_ex (\<lambda>(_, w). is_active_worker w) (us_workers u)) users)"

definition saved_metrics :: "pool_metrics \<Rightarrow> pool_metrics" where
  "saved_metrics m = m\<lparr>pm_users := filtered_users (pm_users m)\<rparr>"

text \<open>\<open>None\<close> is a file that does not exist.\<close>

definition load_pool_local_stats :: "u64 \<Rightarrow> pool_metrics option \<Rightarrow> pool_metrics" where
  "load_pool_local_stats now_secs saved = (case saved of None \<Rightarrow> pool_metrics_default now_secs | Some m \<Rightarrow> m)"

definition load_existing :: "u64 \<Rightarrow> pool_metrics option \<Rightarrow> pool_metrics" where
  "load_existing now_secs saved =
     (let pool_stats = load_pool_local_stats now_secs saved
      in (pool_metrics_default now_secs)
           \<lparr>pm_accepted_total := pm_accepted_total pool_stats,
            pm_accepted_difficulty_total := pm_accepted_difficulty_total pool_stats,
            pm_rejected_total := pm_rejected_total pool_stats,
            pm_users := pm_users pool_stats\<rparr>)"

section \<open>Exposition\<close>

definition nl :: string where "nl = [char_of (10 :: nat)]"
definition dquote :: string where "dquote = [char_of (34 :: nat)]"

definition TWO32 :: f64 where "TWO32 = f64_of_nat (2 ^ 32)"

definition metric_head :: "string \<Rightarrow> string \<Rightarrow> string \<Rightarrow> string" where
  "metric_head name help kind = ''# HELP '' @ name @ '' '' @ help @ nl @ ''# TYPE '' @ name @ '' '' @ kind @ nl"

definition simple_metric :: "string \<Rightarrow> string \<Rightarrow> string \<Rightarrow> string \<Rightarrow> string" where
  "simple_metric name help kind val = metric_head name help kind @ name @ '' '' @ val @ nl @ nl"

definition display_name :: "string \<Rightarrow> string" where
  "display_name workername = (if workername = [] then ''unnamed'' else workername)"

definition worker_metric ::
  "string \<Rightarrow> string \<Rightarrow> string \<Rightarrow> (worker \<Rightarrow> string) \<Rightarrow> (string \<times> user) list \<Rightarrow> string" where
  "worker_metric name help kind val active_users =
     metric_head name help kind
     @ concat (map (\<lambda>(btcaddress, u). concat (map (\<lambda>(workername, w).
         name @ ''{btcaddress='' @ dquote @ btcaddress @ dquote @ '',workername='' @ dquote @ display_name workername
         @ dquote @ ''} '' @ val w @ nl) (active_workers u))) active_users)
     @ nl"

definition get_worker_expositions :: "(f64 \<Rightarrow> string) \<Rightarrow> pool_metrics \<Rightarrow> string" where
  "get_worker_expositions show_f64 m =
     (let active_users = filter (\<lambda>(_, u). any_active_workers u) (pm_users m)
      in worker_metric ''worker_shares_valid_total'' ''Total valid shares submitted by worker'' ''counter''
           (\<lambda>w. show_f64 (f64_mul (wk_shares_valid_total w) TWO32)) active_users
         @ worker_metric ''worker_best_share'' ''Best share difficulty for this session'' ''gauge''
             (\<lambda>w. show_f64 (wk_best_share w)) active_users
         @ worker_metric ''worker_best_share_ever'' ''Best share difficulty ever submitted by worker'' ''gauge''
             (\<lambda>w. show_f64 (wk_best_share_ever w)) active_users
         @ worker_metric ''worker_last_share_at'' ''Last share submission time in Unix timestamp'' ''gauge''
             (\<lambda>w. decimal (unat (wk_last_share_at w))) active_users)"

definition get_exposition :: "(f64 \<Rightarrow> string) \<Rightarrow> pool_metrics \<Rightarrow> string" where
  "get_exposition show_f64 m =
     simple_metric ''shares_accepted_total'' ''Total number of accepted shares'' ''counter''
       (decimal (unat (pm_accepted_total m)))
     @ simple_metric ''accepted_difficulty_total'' ''Total difficulty of accepted shares'' ''counter''
         (show_f64 (pm_accepted_difficulty_total m))
     @ simple_metric ''shares_rejected_total'' ''Total number of rejected shares'' ''counter''
         (decimal (unat (pm_rejected_total m)))
     @ simple_metric ''best_share'' ''Highest difficulty share'' ''gauge'' (show_f64 (pm_best_share m))
     @ simple_metric ''best_share_ever'' ''Highest difficulty share across restarts'' ''gauge''
         (show_f64 (pm_best_share_ever m))
     @ simple_metric ''pool_difficulty'' ''Current pool difficulty'' ''gauge'' (show_f64 (pm_pool_difficulty m))
     @ simple_metric ''start_time_seconds'' ''Pool start time in Unix timestamp'' ''gauge''
         (decimal (unat (pm_start_time m)))
     @ simple_metric ''last_update_seconds'' ''Last update time in Unix timestamp'' ''gauge''
         (decimal (unat (case pm_lastupdate m of None \<Rightarrow> 0 | Some t \<Rightarrow> t)))
     @ get_worker_expositions show_f64 m"

section \<open>Lemmas\<close>

text \<open>The shares accepted in a sequence of messages, and those of a user and of a worker.\<close>

type_synonym accepted_share = "string \<times> string \<times> f64 \<times> f64"

fun accepted_shares :: "metrics_message list \<Rightarrow> accepted_share list" where
  "accepted_shares [] = []"
| "accepted_shares (RecordShareAccepted a n d t # msgs) = (a, n, d, t) # accepted_shares msgs"
| "accepted_shares (_ # msgs) = accepted_shares msgs"

fun rejected_shares :: "metrics_message list \<Rightarrow> nat" where
  "rejected_shares [] = 0"
| "rejected_shares (RecordShareRejected # msgs) = Suc (rejected_shares msgs)"
| "rejected_shares (_ # msgs) = rejected_shares msgs"

definition run_messages :: "(u64 \<times> metrics_message) list \<Rightarrow> pool_metrics \<Rightarrow> pool_metrics" where
  "run_messages msgs m = fold (\<lambda>(now, msg) m. snd (metrics_handle_message now msg m)) msgs m"

definition total_after :: "f64 \<Rightarrow> f64 list \<Rightarrow> f64" where
  "total_after start ds = foldl f64_add start ds"

definition best_after :: "f64 \<Rightarrow> f64 list \<Rightarrow> f64" where
  "best_after start ts = foldl f64_max start ts"

definition user_of :: "string \<Rightarrow> pool_metrics \<Rightarrow> user" where
  "user_of a m = (case map_of (pm_users m) a of None \<Rightarrow> user_default | Some u \<Rightarrow> u)"

definition worker_of :: "string \<Rightarrow> user \<Rightarrow> worker" where
  "worker_of n u = (case map_of (us_workers u) n of None \<Rightarrow> worker_default | Some w \<Rightarrow> w)"

fun share_of :: "metrics_message \<Rightarrow> accepted_share list" where
  "share_of (RecordShareAccepted a n d t) = [(a, n, d, t)]"
| "share_of _ = []"

definition difficulties :: "(accepted_share \<Rightarrow> bool) \<Rightarrow> accepted_share list \<Rightarrow> f64 list" where
  "difficulties P shares = map (\<lambda>(a, n, d, t). d) (filter P shares)"

definition truediffs :: "(accepted_share \<Rightarrow> bool) \<Rightarrow> accepted_share list \<Rightarrow> f64 list" where
  "truediffs P shares = map (\<lambda>(a, n, d, t). t) (filter P shares)"

definition of_user :: "string \<Rightarrow> accepted_share \<Rightarrow> bool" where
  "of_user a s \<longleftrightarrow> fst s = a"

definition of_worker :: "string \<Rightarrow> string \<Rightarrow> accepted_share \<Rightarrow> bool" where
  "of_worker a n s \<longleftrightarrow> fst s = a \<and> fst (snd s) = n"

lemma accepted_shares_Cons: "accepted_shares (msg # msgs) = share_of msg @ accepted_shares msgs"
  by (cases msg) auto

lemma after_append:
  "total_after x (difficulties P (xs @ ys)) = total_after (total_after x (difficulties P xs)) (difficulties P ys)"
  "best_after y (truediffs P (xs @ ys)) = best_after (best_after y (truediffs P xs)) (truediffs P ys)"
  by (simp_all add: total_after_def best_after_def difficulties_def truediffs_def)

lemmas message_defs = metrics_handle_message_def metrics_record_share_accepted_def metrics_record_share_rejected_def
  worker_authorized_def mark_worker_inactive_def metrics_set_last_update_def user_record_share_def worker_record_share_def

lemmas after_defs = total_after_def best_after_def difficulties_def truediffs_def of_user_def of_worker_def

lemma user_after_message:
  "us_shares_valid_total (user_of a (snd (metrics_handle_message now msg m)))
     = total_after (us_shares_valid_total (user_of a m)) (difficulties (of_user a) (share_of msg))"
  "us_best_share (user_of a (snd (metrics_handle_message now msg m)))
     = best_after (us_best_share (user_of a m)) (truediffs (of_user a) (share_of msg))"
  by (cases msg; auto simp: message_defs after_defs user_of_def map_of_hm_update map_of_hm_adjust map_of_map
      split: option.split)+

lemma worker_after_message:
  "wk_shares_valid_total (worker_of n (user_of a (snd (metrics_handle_message now msg m))))
     = total_after (wk_shares_valid_total (worker_of n (user_of a m))) (difficulties (of_worker a n) (share_of msg))"
  "wk_best_share (worker_of n (user_of a (snd (metrics_handle_message now msg m))))
     = best_after (wk_best_share (worker_of n (user_of a m))) (truediffs (of_worker a n) (share_of msg))"
  by (cases msg; auto simp: message_defs after_defs user_of_def worker_of_def user_default_def map_of_hm_update
      map_of_hm_adjust map_of_map split: option.split)+

lemma pool_after_message:
  "pm_accepted_total (snd (metrics_handle_message now msg m)) = pm_accepted_total m + word_of_nat (length (share_of msg))"
  "pm_rejected_total (snd (metrics_handle_message now msg m)) = pm_rejected_total m + word_of_nat (rejected_shares [msg])"
  "pm_accepted_difficulty_total (snd (metrics_handle_message now msg m))
     = total_after (pm_accepted_difficulty_total m) (difficulties (\<lambda>_. True) (share_of msg))"
  "pm_best_share (snd (metrics_handle_message now msg m))
     = best_after (pm_best_share m) (truediffs (\<lambda>_. True) (share_of msg))"
  by (cases msg; auto simp: message_defs after_defs split: option.split)+

lemma rejected_shares_Cons: "rejected_shares (msg # msgs) = rejected_shares [msg] + rejected_shares msgs"
  by (cases msg) auto

lemma run_messages_totals:
  defines "shares msgs \<equiv> accepted_shares (map snd msgs)"
  shows "pm_accepted_total (run_messages msgs m) = pm_accepted_total m + word_of_nat (length (shares msgs))
    \<and> pm_rejected_total (run_messages msgs m) = pm_rejected_total m + word_of_nat (rejected_shares (map snd msgs))
    \<and> pm_accepted_difficulty_total (run_messages msgs m)
        = total_after (pm_accepted_difficulty_total m) (difficulties (\<lambda>_. True) (shares msgs))
    \<and> pm_best_share (run_messages msgs m) = best_after (pm_best_share m) (truediffs (\<lambda>_. True) (shares msgs))
    \<and> us_shares_valid_total (user_of a (run_messages msgs m))
        = total_after (us_shares_valid_total (user_of a m)) (difficulties (of_user a) (shares msgs))
    \<and> us_best_share (user_of a (run_messages msgs m))
        = best_after (us_best_share (user_of a m)) (truediffs (of_user a) (shares msgs))
    \<and> wk_shares_valid_total (worker_of n (user_of a (run_messages msgs m)))
        = total_after (wk_shares_valid_total (worker_of n (user_of a m))) (difficulties (of_worker a n) (shares msgs))
    \<and> wk_best_share (worker_of n (user_of a (run_messages msgs m)))
        = best_after (wk_best_share (worker_of n (user_of a m))) (truediffs (of_worker a n) (shares msgs))"
proof (induction msgs arbitrary: m)
  case Nil
  then show ?case by (simp add: run_messages_def shares_def after_defs)
next
  case (Cons e msgs)
  obtain now msg where e: "e = (now, msg)" by force
  have run: "run_messages (e # msgs) m = run_messages msgs (snd (metrics_handle_message now msg m))"
    by (simp add: run_messages_def e)
  have sh: "shares (e # msgs) = share_of msg @ shares msgs" by (simp add: shares_def e accepted_shares_Cons)
  have rj: "rejected_shares (map snd (e # msgs)) = rejected_shares [msg] + rejected_shares (map snd msgs)"
    using rejected_shares_Cons [of msg "map snd msgs"] by (simp add: e)
  show ?case
    unfolding run sh rj after_append
    using Cons.IH [of "snd (metrics_handle_message now msg m)"]
    by (simp only: pool_after_message user_after_message worker_after_message length_append of_nat_add add.assoc)
qed

section \<open>Properties\<close>

text \<open>
  C31: the statistics add up: after any sequence of messages to the actor the counters are the
  numbers of accepted and rejected shares, the pool's, every user's and every worker's total
  are the sums of the difficulties of their accepted shares in order, and their best shares the
  largest of them; authorisations, disconnections and the timer change none of this.
\<close>

theorem metrics_add_up:
  "let m = run_messages msgs (pool_metrics_default now); shares = accepted_shares (map snd msgs) in
     pm_accepted_total m = word_of_nat (length shares)
     \<and> pm_rejected_total m = word_of_nat (rejected_shares (map snd msgs))
     \<and> pm_accepted_difficulty_total m = f64_sum (difficulties (\<lambda>_. True) shares)
     \<and> pm_best_share m = foldl f64_max (Fin 0) (truediffs (\<lambda>_. True) shares)
     \<and> us_shares_valid_total (user_of a m) = f64_sum (difficulties (of_user a) shares)
     \<and> us_best_share (user_of a m) = foldl f64_max (Fin 0) (truediffs (of_user a) shares)
     \<and> wk_shares_valid_total (worker_of n (user_of a m)) = f64_sum (difficulties (of_worker a n) shares)
     \<and> wk_best_share (worker_of n (user_of a m)) = foldl f64_max (Fin 0) (truediffs (of_worker a n) shares)"
  using run_messages_totals [of msgs "pool_metrics_default now" a n]
  by (simp add: Let_def pool_metrics_default_def user_of_def worker_of_def user_default_def worker_default_def
      total_after_def best_after_def f64_sum_def)

text \<open>
  What a restart keeps: the counters and the difficulty total, and for every user with an
  active worker that has shares the totals and those workers; the other users and workers are
  forgotten, and the pool's best share of all times starts again from zero.
\<close>

theorem restart_keeps_active_workers:
  assumes "distinct (map fst (pm_users m))"
  shows "pm_accepted_total (load_existing now (Some (saved_metrics m))) = pm_accepted_total m
    \<and> pm_accepted_difficulty_total (load_existing now (Some (saved_metrics m))) = pm_accepted_difficulty_total m
    \<and> pm_rejected_total (load_existing now (Some (saved_metrics m))) = pm_rejected_total m
    \<and> pm_best_share_ever (load_existing now (Some (saved_metrics m))) = Fin 0
    \<and> (\<forall>a. map_of (pm_users (load_existing now (Some (saved_metrics m)))) a =
         (case map_of (pm_users m) a of
            None \<Rightarrow> None | Some u \<Rightarrow> if any_active_workers u then Some (u\<lparr>us_workers := active_workers u\<rparr>) else None))"
proof -
  have "map_of (filtered_users us) a = (case map_of us a of
      None \<Rightarrow> None | Some u \<Rightarrow> if any_active_workers u then Some (u\<lparr>us_workers := active_workers u\<rparr>) else None)"
    if "distinct (map fst us)" for us a
    using that
  proof (induction us)
    case (Cons e us)
    obtain b u where e: "e = (b, u)" by force
    have "b \<notin> fst ` set us" using Cons.prems e by simp
    then have "map_of us b = None" by (simp add: map_of_eq_None_iff)
    with Cons e show ?case
      by (auto simp: filtered_users_def filtered_user_def any_active_workers_def active_workers_def is_active_worker_def
          map_of_map)
  qed (simp add: filtered_users_def)
  with assms show ?thesis
    by (simp add: load_existing_def load_pool_local_stats_def saved_metrics_def pool_metrics_default_def)
qed

definition sample_metrics :: pool_metrics where
  "sample_metrics = run_messages
     [(1, RecordShareAccepted ''a'' ''w'' (Fin 2) (Fin 3)), (2, IncrementWorkerCount ''b'' ''v'')] (pool_metrics_default 0)"

theorem restart_keeps_active_workers_witness:
  "pm_best_share_ever sample_metrics = Fin 3
   \<and> pm_best_share_ever (load_existing 5 (Some (saved_metrics sample_metrics))) = Fin 0"
proof -
  have "distinct (map fst (pm_users sample_metrics))" "pm_best_share_ever sample_metrics = Fin 3"
    by (auto simp: sample_metrics_def run_messages_def message_defs pool_metrics_default_def user_default_def f64_max_def)
  with restart_keeps_active_workers [of sample_metrics 5] show ?thesis by simp
qed

end
