(* ===== verification/Stratum_Session.thy ===== *)
theory Stratum_Session
  imports Stratum_Messages Difficulty_Adjuster Hex_Text Block_Template
begin

text \<open>
  A miner's session (\<open>stratum/session.rs\<close>), its timeouts (\<open>stratum/session_timeout.rs\<close>), the
  form of user names (\<open>stratum/validate_username.rs\<close>) and the handlers that touch nothing but
  the session: \<open>mining.subscribe\<close>, \<open>mining.configure\<close> and \<open>mining.suggest_difficulty\<close>
  (\<open>stratum/message_handlers\<close>). The session identifier is a random number, an argument.
\<close>

datatype stratum_error =
    InvalidMethod string
  | InvalidParams string
  | AuthorizationFailure string
  | SubmitFailure string
  | SubscriptionFailure string
  | IoError
  | InsufficientWork
  | TimeoutError

section \<open>Sessions\<close>

record session =
  ss_id :: string
  ss_enonce1 :: u32
  ss_enonce1_hex :: string
  ss_subscribed :: bool
  ss_username :: "string option"
  ss_btcaddress :: "string option"
  ss_workername :: "string option"
  ss_password :: "string option"
  ss_user_id :: "u64 option"
  ss_worker_id :: "u64 option"
  ss_difficulty_adjuster :: adjuster
  ss_version_mask :: i32
  ss_suggested_difficulty :: "f64 option"
  ss_connected_at :: system_time
  ss_last_share_time :: "system_time option"
  ss_auth_failed_once :: bool

text \<open>\<open>to_le\<close> is the identity on the machines the pool runs on, which are little-endian.\<close>

definition session_new ::
  "'addr crates \<Rightarrow> u32 \<Rightarrow> system_time \<Rightarrow> f64 \<Rightarrow> f64 \<Rightarrow> f64 option \<Rightarrow> i32 \<Rightarrow> session" where
  "session_new X generated_id now start_difficulty minimum_difficulty maximum_difficulty version_mask =
     \<lparr>ss_id = hex_encode X (be_bytes 4 (unat generated_id)),
      ss_enonce1 = generated_id,
      ss_enonce1_hex = hex_encode X (to_le_bytes generated_id),
      ss_subscribed = False, ss_username = None, ss_btcaddress = None, ss_workername = None, ss_password = None,
      ss_user_id = None, ss_worker_id = None,
      ss_difficulty_adjuster = adjuster_new start_difficulty minimum_difficulty maximum_difficulty,
      ss_version_mask = version_mask, ss_suggested_difficulty = None, ss_connected_at = now,
      ss_last_share_time = None, ss_auth_failed_once = False\<rparr>"

section \<open>Timeouts\<close>

definition FIRST_SHARE_TIMEOUT :: nat where "FIRST_SHARE_TIMEOUT = 900"
definition INACTIVITY_TIMEOUT :: nat where "INACTIVITY_TIMEOUT = 900"
definition MONITOR_INTERVAL :: nat where "MONITOR_INTERVAL = 1"

text \<open>Times are in nanoseconds.\<close>

definition from_secs :: "nat \<Rightarrow> nat" where "from_secs s = s * 10 ^ 9"

definition check_session_timeouts :: "session \<Rightarrow> system_time \<Rightarrow> (stratum_error, unit) outcome" where
  "check_session_timeouts session now =
     (if \<not> ss_subscribed session \<or> ss_username session = None then
        (case duration_since now (ss_connected_at session) of
           None \<Rightarrow> Err TimeoutError
         | Some time_since_connected \<Rightarrow>
             if from_secs FIRST_SHARE_TIMEOUT \<le> time_since_connected then Err TimeoutError else Ok ())
      else
        (case ss_last_share_time session of
           None \<Rightarrow> Ok ()
         | Some last_share_received_at \<Rightarrow>
             (case duration_since now last_share_received_at of
                None \<Rightarrow> Err TimeoutError
              | Some time_since_last_share \<Rightarrow>
                  if from_secs INACTIVITY_TIMEOUT \<le> time_since_last_share then Err TimeoutError else Ok ())))"

section \<open>User names\<close>

definition MAX_USERNAME_LENGTH :: nat where "MAX_USERNAME_LENGTH = 128"

datatype username_error = InvalidUserAddress | UserNameTooLong nat | UserNameMissing

definition is_dot :: "char \<Rightarrow> bool" where
  "is_dot c \<longleftrightarrow> c = CHR ''.''"

text \<open>\<open>splitn(2, '.')\<close>: the part before the first dot, and the part after it when there is one.\<close>

definition split_username :: "string \<Rightarrow> string \<times> string option" where
  "split_username username =
     (takeWhile (\<lambda>c. \<not> is_dot c) username,
      case dropWhile (\<lambda>c. \<not> is_dot c) username of [] \<Rightarrow> None | _ # rest \<Rightarrow> Some rest)"

definition validate_username ::
  "(string \<Rightarrow> 'u option) \<Rightarrow> ('u \<Rightarrow> 'net \<Rightarrow> 'addr option) \<Rightarrow> string \<Rightarrow> bool \<Rightarrow> 'net
     \<Rightarrow> (username_error, string \<times> string option) outcome" where
  "validate_username from_str require_network username validate_address network =
     (if username = [] then Err UserNameMissing
      else if MAX_USERNAME_LENGTH < length username then Err (UserNameTooLong MAX_USERNAME_LENGTH)
      else case split_username username of (address_part, worker) \<Rightarrow>
        if validate_address then
          and_then (ok_or InvalidUserAddress (from_str address_part)) (\<lambda>address.
          and_then (ok_or InvalidUserAddress (require_network address network)) (\<lambda>_.
            Ok (address_part, worker)))
        else Ok (address_part, worker))"

section \<open>Handlers\<close>

definition handle_subscribe ::
  "simple_request \<Rightarrow> f64 \<Rightarrow> session \<Rightarrow> (stratum_error, stratum_message list) outcome \<times> session" where
  "handle_subscribe message start_difficulty session =
     (if ss_subscribed session then (Err (SubscriptionFailure ''Already subscribed''), session)
      else
        (Ok [ResponseMessage (new_ok (sr_id message)
               (JArray
                 [JArray
                   [JArray [JString ''mining.notify'', JString (ss_id session @ ''1'')],
                    JArray [JString ''mining.set_difficulty'', JString (ss_id session @ ''2'')]],
                  JString (ss_enonce1_hex session),
                  JNumber (PosInt (word_of_nat EXTRANONCE2_SIZE))])),
             SetDifficulty (set_difficulty_new start_difficulty)],
         session\<lparr>ss_subscribed := True,
           ss_difficulty_adjuster := set_current_difficulty (ss_difficulty_adjuster session) start_difficulty\<rparr>))"

text \<open>\<open>{:x}\<close> of a number: no leading zeros.\<close>

definition short_hex :: "nat \<Rightarrow> string" where
  "short_hex n =
     (let digits = dropWhile (\<lambda>c. c = CHR ''0'') (lower_hex 8 n) in if digits = [] then ''0'' else digits)"

definition handle_mining_configure ::
  "mining_configure \<Rightarrow> session \<Rightarrow> (stratum_error, stratum_message list) outcome" where
  "handle_mining_configure request session =
     (case version_rolling_mask (snd (mc_params request)) of
        Some _ \<Rightarrow>
          Ok [ResponseMessage (new_ok (Some (mc_id request))
                (JObject [(''version-rolling'', JBool True),
                          (''version-rolling.mask'', JString (short_hex (unat (ss_version_mask session))))]))]
      | None \<Rightarrow> Ok [])"

definition handle_configure ::
  "stratum_request \<Rightarrow> session \<Rightarrow> (stratum_error, stratum_message list) outcome" where
  "handle_configure request session =
     (case request of
        MiningConfigureRequest configure \<Rightarrow> handle_mining_configure configure session
      | _ \<Rightarrow> Err (InvalidParams ''Invalid method for mining.configure''))"

definition handle_suggest_difficulty ::
  "suggest_difficulty \<Rightarrow> session \<Rightarrow> (stratum_error, stratum_message list) outcome \<times> session" where
  "handle_suggest_difficulty message session =
     (case sd_params message of
        param # _ \<Rightarrow>
          let suggested = f64_of_nat (unat param);
              difficulty = apply_difficulty_constraints (ss_difficulty_adjuster session) suggested (Some suggested)
          in (Ok [SetDifficulty (set_difficulty_new difficulty)],
              session\<lparr>ss_suggested_difficulty := Some difficulty,
                ss_difficulty_adjuster := set_current_difficulty (ss_difficulty_adjuster session) difficulty\<rparr>)
      | [] \<Rightarrow> (Err (InvalidParams ''No suggested difficulty provided''), session))"

end
