(* ===== verification/Share_Submit.thy ===== *)
theory Share_Submit
  imports Job_Tracker Stratum_Session Pool_Metrics Peer_Node
begin

text \<open>
  A submitted share: the header rebuilt from the submission and its job
  (\<open>stratum/work/difficulty/validate.rs\<close>), the handler of \<open>mining.submit\<close>
  (\<open>stratum/message_handlers/submit.rs\<close>), and what the worker behind the emissions channel does
  with it (\<open>node/emission_worker.rs\<close>, \<open>shares/handle_stratum_share.rs\<close>). The stratum
  handlers share the world below: the job tracker, the store, the metrics, and what was sent to
  bitcoind, to the emissions channel and to the notifier.
\<close>

unbundle bit_operations_syntax

section \<open>Rebuilding the header\<close>

record validation_result =
  vr_header :: bitcoin_header
  vr_coinbase :: transaction
  vr_meets_bitcoin_difficulty :: bool

definition decode_txids :: "'addr crates \<Rightarrow> block_template \<Rightarrow> (stratum_error, txid list) outcome" where
  "decode_txids X blocktemplate =
     collect (\<lambda>tx. ok_or (InvalidParams ''Bad txid'') (parse_hash X (tt_txid tx))) (bt_transactions blocktemplate)"

text \<open>\<open>params[i].as_ref().unwrap()\<close>: an index out of range and a null both panic.\<close>

definition param :: "string option list \<Rightarrow> nat \<Rightarrow> ('e, string) outcome" where
  "param params i = (if i < length params then unwrap (params ! i) else Panic)"

definition apply_version_mask ::
  "'addr crates \<Rightarrow> i32 \<Rightarrow> i32 \<Rightarrow> string option list \<Rightarrow> (stratum_error, i32) outcome" where
  "apply_version_mask X header_version version_mask params =
     (if 5 < length params then
        and_then (param params 5) (\<lambda>bits_hex.
        and_then (ok_or (InvalidParams ''Failed to decode hex'') (hex_decode X bits_hex)) (\<lambda>bytes.
          if length bytes \<noteq> 4 then Err (InvalidParams ''Failed to decode hex'')
          else Ok ((header_version AND NOT version_mask) OR (word_of_nat (of_be_bytes bytes) AND version_mask))))
      else Ok header_version)"

definition header_hash :: "btc \<Rightarrow> bitcoin_header \<Rightarrow> blockhash" where
  "header_hash B h = hash_blockhash B (enc (c_header B) h)"

definition validate_submission_difficulty ::
  "'addr crates \<Rightarrow> btc \<Rightarrow> job_details \<Rightarrow> simple_request \<Rightarrow> string \<Rightarrow> i32 \<Rightarrow> (stratum_error, validation_result) outcome" where
  "validate_submission_difficulty X B job submission enonce1_hex version_mask =
     (let params = sr_params submission; template = jd_blocktemplate job
      in and_then (ok_or (InvalidParams ''Failed to parse compact target'') (compact_from_hex X (bt_bits template)))
           (\<lambda>compact_target.
         and_then (param params 2) (\<lambda>enonce2.
         and_then (map_err (\<lambda>_. InvalidParams ''Failed to build coinbase transaction'')
             (build_coinbase_from_components X B (jd_coinbase1 job) enonce1_hex enonce2 (jd_coinbase2 job))) (\<lambda>coinbase.
         and_then (map_err (\<lambda>_. InvalidParams ''Failed to decode txids'') (decode_txids X template)) (\<lambda>txids.
         and_then (unwrap (calculate_root B (compute_txid B coinbase # txids))) (\<lambda>merkle_root.
         and_then (param params 3) (\<lambda>n_time_hex.
         and_then (ok_or (InvalidParams ''Bad nTime'') (from_str_radix_16 n_time_hex)) (\<lambda>n_time.
         and_then (apply_version_mask X (bt_version template) version_mask params) (\<lambda>version.
         and_then (unwrap (parse_hash X (bt_previousblockhash template))) (\<lambda>prev_blockhash.
         and_then (param params 4) (\<lambda>nonce_hex.
         and_then (unwrap (from_str_radix_16 nonce_hex)) (\<lambda>nonce.
           let header = \<lparr>bh_version = version, bh_prev_blockhash = prev_blockhash, bh_merkle_root = merkle_root,
                         bh_time = n_time, bh_bits = compact_target, bh_nonce = nonce\<rparr>
           in Ok \<lparr>vr_header = header, vr_coinbase = coinbase,
                  vr_meets_bitcoin_difficulty = validate_pow X header compact_target\<rparr>))))))))))))"

section \<open>The world of the handlers\<close>

record emission =
  em_pplns :: simple_pplns_share
  em_header :: bitcoin_header
  em_coinbase :: transaction
  em_blocktemplate :: block_template
  em_share_commitment :: "share_commitment option"

text \<open>
  What every handler is given: the crates (with the texts of errors, of requests and of messages), the
  settings of the server, and whether the receivers of the emissions and of the store are alive.
\<close>

record ('addr, 'u) stratum_context =
  sx_crates :: "'addr crates"
  sx_btc :: btc
  sx_from_str :: "string \<Rightarrow> 'u option"
  sx_require_network :: "'u \<Rightarrow> network \<Rightarrow> 'addr option"
  sx_exp :: "f64 \<Rightarrow> f64"
  sx_start_difficulty :: f64
  sx_minimum_difficulty :: f64
  sx_maximum_difficulty :: "f64 option"
  sx_ignore_difficulty :: bool
  sx_validate_addresses :: bool
  sx_network :: network
  sx_emissions_open :: bool
  sx_writer_alive :: bool
  sx_error_text :: "username_error \<Rightarrow> string"
  sx_parse_request :: "string \<Rightarrow> stratum_request option"
  sx_message_text :: "stratum_message \<Rightarrow> string option"

type_synonym full_block = "bitcoin_header \<times> transaction list"

record stratum_world =
  sw_tracker :: job_tracker
  sw_store :: share_store
  sw_metrics :: pool_metrics
  sw_last_block_submit :: "nat option"
  sw_blocks :: "full_block list"
  sw_emissions :: "emission list"
  sw_notify :: "notify_cmd list"

text \<open>The readings of the clock while a submission is handled; instants are in nanoseconds.\<close>

record submit_clock =
  uc_instant :: nat
  uc_secs :: u64
  uc_metrics_secs :: u64
  uc_share_time :: system_time
  uc_adjust_time :: system_time

section \<open>Submitting\<close>

definition build_full_block ::
  "'addr crates \<Rightarrow> btc \<Rightarrow> bitcoin_header \<Rightarrow> transaction \<Rightarrow> block_template \<Rightarrow> ('e, full_block) outcome" where
  "build_full_block X B header coinbase blocktemplate =
     and_then (decode_transactions X B blocktemplate) (\<lambda>transactions. Ok (header, coinbase # transactions))"

definition get_true_difficulty :: "'addr crates \<Rightarrow> blockhash \<Rightarrow> f64" where
  "get_true_difficulty X hash = difficulty_of_hash X hash"

text \<open>A block is handed to bitcoind unless one was within the last thirty seconds.\<close>

definition should_submit :: "nat \<Rightarrow> nat option \<Rightarrow> bool" where
  "should_submit now last_submit = (case last_submit of None \<Rightarrow> True | Some last_time \<Rightarrow> \<not> now - last_time < from_secs 30)"

definition submit_found_block ::
  "('addr, 'u) stratum_context \<Rightarrow> nat \<Rightarrow> validation_result \<Rightarrow> job_details \<Rightarrow> stratum_world
     \<Rightarrow> (stratum_error, unit) outcome \<times> stratum_world" where
  "submit_found_block ctx now result job w =
     (if vr_meets_bitcoin_difficulty result \<and> should_submit now (sw_last_block_submit w) then
        (let w1 = w\<lparr>sw_last_block_submit := Some now\<rparr>
         in case build_full_block (sx_crates ctx) (sx_btc ctx) (vr_header result) (vr_coinbase result) (jd_blocktemplate job) of
              Ok block \<Rightarrow> (Ok (), w1\<lparr>sw_blocks := sw_blocks w1 @ [block]\<rparr>)
            | Err e \<Rightarrow> (Err e, w1)
            | Panic \<Rightarrow> (Panic, w1))
      else (Ok (), w))"

definition bool_response :: "simple_request \<Rightarrow> bool \<Rightarrow> stratum_message" where
  "bool_response message b = ResponseMessage (new_ok (sr_id message) (JBool b))"

text \<open>What follows once the share is known to be new: credit it, then judge and adjust its difficulty.\<close>

definition credit_share ::
  "('addr, 'u) stratum_context \<Rightarrow> submit_clock \<Rightarrow> simple_request \<Rightarrow> string \<Rightarrow> job_id \<Rightarrow> job_details \<Rightarrow> validation_result
     \<Rightarrow> session \<Rightarrow> stratum_world \<Rightarrow> (stratum_error, stratum_message list) outcome \<times> session \<times> stratum_world" where
  "credit_share ctx clk message job_id_text job_id job result session w =
     (let truediff = get_true_difficulty (sx_crates ctx) (header_hash (sx_btc ctx) (vr_header result));
          current = get_current_difficulty (ss_difficulty_adjuster session)
      in case and_then (unwrap (ss_user_id session)) (\<lambda>user_id.
              and_then (param (sr_params message) 2) (\<lambda>extranonce2.
              and_then (param (sr_params message) 4) (\<lambda>nonce.
                Ok (simple_pplns_share_new user_id current
                      (case ss_btcaddress session of None \<Rightarrow> '''' | Some a \<Rightarrow> a)
                      (case ss_workername session of None \<Rightarrow> '''' | Some n \<Rightarrow> n)
                      (uc_secs clk) job_id_text extranonce2 nonce)))) of
           Err e \<Rightarrow> (Err e, session, w)
         | Panic \<Rightarrow> (Panic, session, w)
         | Ok stratum_share \<Rightarrow>
             if \<not> sx_emissions_open ctx
             then (Err (SubmitFailure ''Failed to send share to store''), session, w)
             else
               let w1 = w\<lparr>sw_emissions := sw_emissions w @
                     [\<lparr>em_pplns = stratum_share, em_header = vr_header result, em_coinbase = vr_coinbase result,
                       em_blocktemplate = jd_blocktemplate job, em_share_commitment = jd_share_commitment job\<rparr>]\<rparr>;
                   meets_session_difficulty = (sx_ignore_difficulty ctx \<or> f64_le current truediff);
                   w2 = w1\<lparr>sw_metrics := snd (metrics_handle_message (uc_metrics_secs clk)
                     (if meets_session_difficulty then record_share_accepted_message stratum_share truediff
                      else RecordShareRejected) (sw_metrics w1))\<rparr>
               in case record_share_submission (sx_exp ctx) (ss_difficulty_adjuster session) truediff job_id
                         (ss_suggested_difficulty session) (uc_adjust_time clk) of
                    ((new_difficulty, _), adjuster) \<Rightarrow>
                      (Ok (bool_response message meets_session_difficulty
                           # (case new_difficulty of
                                Some difficulty \<Rightarrow> [SetDifficulty (set_difficulty_new difficulty)]
                              | None \<Rightarrow> [])),
                       session\<lparr>ss_last_share_time := Some (uc_share_time clk), ss_difficulty_adjuster := adjuster\<rparr>,
                       w2))"

definition handle_submit ::
  "('addr, 'u) stratum_context \<Rightarrow> submit_clock \<Rightarrow> simple_request \<Rightarrow> session \<Rightarrow> stratum_world
     \<Rightarrow> (stratum_error, stratum_message list) outcome \<times> session \<times> stratum_world" where
  "handle_submit ctx clk message session w =
     (if length (sr_params message) < 4 then (Err (InvalidParams ''Missing parameters''), session, w)
      else case param (sr_params message) 1 of
        Err e \<Rightarrow> (Err e, session, w)
      | Panic \<Rightarrow> (Panic, session, w)
      | Ok id_text \<Rightarrow>
          (case from_str_radix_16 id_text of
             None \<Rightarrow> (Err (InvalidParams ''Invalid job_id''), session, w)
           | Some job_id \<Rightarrow>
               (case get_job (sw_tracker w) job_id of
                  None \<Rightarrow> (Ok [bool_response message False], session, w)
                | Some job \<Rightarrow>
                    (case validate_submission_difficulty (sx_crates ctx) (sx_btc ctx) job message
                            (ss_enonce1_hex session) (ss_version_mask session) of
                       Err _ \<Rightarrow> (Ok [bool_response message False], session, w)
                     | Panic \<Rightarrow> (Panic, session, w)
                     | Ok result \<Rightarrow>
                         (case tracker_add_share job_id (header_hash (sx_btc ctx) (vr_header result)) (sw_tracker w) of
                            (is_new_share, tracker) \<Rightarrow>
                              let w1 = w\<lparr>sw_tracker := tracker\<rparr>
                              in if \<not> is_new_share then (Ok [bool_response message False], session, w1)
                                 else case submit_found_block ctx (uc_instant clk) result job w1 of
                                        (Ok _, w2) \<Rightarrow> credit_share ctx clk message id_text job_id job result session w2
                                      | (Err e, w2) \<Rightarrow> (Err e, session, w2)
                                      | (Panic, w2) \<Rightarrow> (Panic, session, w2))))))"

section \<open>Behind the emissions channel\<close>

definition build_share_coinbase :: "'addr crates \<Rightarrow> pubkey \<Rightarrow> network \<Rightarrow> (string, transaction) outcome" where
  "build_share_coinbase X miner_pubkey network =
     Ok \<lparr>tx_version = 2, tx_lock_time = 0, tx_input = [],
         tx_output = [\<lparr>to_value = 100000000, to_script_pubkey = p2wpkh_script X miner_pubkey network\<rparr>]\<rparr>"

definition handle_stratum_share ::
  "'addr crates \<Rightarrow> btc \<Rightarrow> network \<Rightarrow> clock \<Rightarrow> bool \<Rightarrow> emission \<Rightarrow> share_store
     \<Rightarrow> (string, share_block option) outcome \<times> share_store" where
  "handle_stratum_share X B network clk alive em st =
     (case em_share_commitment em of
        Some commitment \<Rightarrow>
          (case and_then (map_err (\<lambda>_. ''Failed to build coinbase'') (build_share_coinbase X (sc_miner_pubkey commitment) network))
                  (\<lambda>coinbase.
                and_then (ok_or ''No coinbase found'' (calculate_root B [compute_txid B coinbase])) (\<lambda>merkle_root.
                and_then (decode_transactions X B (em_blocktemplate em)) (\<lambda>template_transactions.
                  Ok \<lparr>sb_header = from_commitment_and_header commitment (em_header em) merkle_root,
                      sb_transactions = [coinbase],
                      sb_bitcoin_transactions = em_coinbase em # template_transactions\<rparr>))) of
             Err e \<Rightarrow> (Err e, st)
           | Panic \<Rightarrow> (Panic, st)
           | Ok share_block \<Rightarrow>
               (case chain_add_share B alive share_block True st of
                  (Ok _, st') \<Rightarrow> (Ok (Some share_block), st')
                | (Err _, st') \<Rightarrow> (Err ''Failed to add share to chain'', st')
                | (Panic, st') \<Rightarrow> (Panic, st')))
      | None \<Rightarrow>
          (case handle_add_pplns_share clk alive (em_pplns em) st of
             (Ok _, st') \<Rightarrow> (Ok None, st')
           | (Err _, st') \<Rightarrow> (Err ''Failed to add PPLNS share'', st')
           | (Panic, st') \<Rightarrow> (Panic, st')))"

text \<open>
  One turn of the worker: what it broadcasts, and the store. \<open>None\<close>: the worker's task ended in a panic.
\<close>

definition emission_worker_step ::
  "'addr crates \<Rightarrow> btc \<Rightarrow> network \<Rightarrow> clock \<Rightarrow> bool \<Rightarrow> emission \<Rightarrow> share_store \<Rightarrow> (swarm_send list \<times> share_store) option" where
  "emission_worker_step X B network clk alive em st =
     (case handle_stratum_share X B network clk alive em st of
        (Ok (Some share_block), st') \<Rightarrow> Some ([Broadcast share_block], st')
      | (Ok None, st') \<Rightarrow> Some ([], st')
      | (Err _, st') \<Rightarrow> Some ([], st')
      | (Panic, st') \<Rightarrow> None)"

section \<open>What the miner hashes\<close>

text \<open>
  The header a miner builds from the parameters of a notification, by the rules of the stratum
  protocol: the coinbase is hashed with the branches, the previous hash has the bytes of every
  word swapped, and the rolled version bits replace those of the mask.
\<close>

definition miner_root :: "'addr crates \<Rightarrow> notify_params \<Rightarrow> bytes \<Rightarrow> bytes \<Rightarrow> 256 word option" where
  "miner_root X p enonce1 enonce2 =
     (case hex_decode X (np_coinbase1 p @ hex_encode X enonce1 @ hex_encode X enonce2 @ np_coinbase2 p) of
        None \<Rightarrow> None
      | Some coinbase \<Rightarrow>
          (case those (map (hex_decode X) (np_merkle_branches p)) of
             None \<Rightarrow> None
           | Some branches \<Rightarrow>
               Some (foldl (\<lambda>h branch. sha256d_hash X (hash_bytes X h @ branch)) (sha256d_hash X coinbase) branches)))"

definition miner_prevhash :: "'addr crates \<Rightarrow> notify_params \<Rightarrow> bytes option" where
  "miner_prevhash X p = map_option (\<lambda>bs. concat (map rev (chunks4 bs))) (hex_decode X (np_prevhash p))"

definition rolled_version :: "i32 \<Rightarrow> i32 \<Rightarrow> i32 option \<Rightarrow> i32" where
  "rolled_version version vmask rolled =
     (case rolled of None \<Rightarrow> version | Some bits \<Rightarrow> (version AND NOT vmask) OR (bits AND vmask))"

definition miner_builds ::
  "'addr crates \<Rightarrow> notify_params \<Rightarrow> bytes \<Rightarrow> bytes \<Rightarrow> i32 \<Rightarrow> i32 option \<Rightarrow> u32 \<Rightarrow> u32 \<Rightarrow> bitcoin_header \<Rightarrow> bool" where
  "miner_builds X p enonce1 enonce2 vmask rolled time nonce h \<longleftrightarrow>
     miner_root X p enonce1 enonce2 = Some (bh_merkle_root h)
     \<and> miner_prevhash X p = Some (hash_bytes X (bh_prev_blockhash h))
     \<and> (\<exists>bs. hex_decode X (np_version p) = Some bs
          \<and> bh_version h = rolled_version (word_of_nat (of_be_bytes bs)) vmask rolled)
     \<and> compact_from_hex X (np_nbits p) = Some (bh_bits h) \<and> bh_time h = time \<and> bh_nonce h = nonce"

text \<open>The parameters of a submission.\<close>

definition submission_params :: "'addr crates \<Rightarrow> string \<Rightarrow> string \<Rightarrow> bytes \<Rightarrow> u32 \<Rightarrow> u32 \<Rightarrow> i32 option \<Rightarrow> string option list" where
  "submission_params X username job_id enonce2 time nonce rolled =
     [Some username, Some job_id, Some (hex_encode X enonce2), Some (lower_hex 8 (unat time)), Some (lower_hex 8 (unat nonce))]
     @ (case rolled of None \<Rightarrow> [] | Some bits \<Rightarrow> [Some (hex_encode X (be_bytes 4 (unat bits)))])"

text \<open>The identifier of a transaction without witnesses is the hash of its encoding.\<close>

definition txid_ok :: "'addr crates \<Rightarrow> btc \<Rightarrow> bool" where
  "txid_ok X B \<longleftrightarrow> (\<forall>tx. list_all (\<lambda>i. ti_witness i = []) (tx_input tx) \<longrightarrow>
     compute_txid B tx = sha256d_hash X (enc (c_transaction B) tx))"

lemma be_bytes_word: "word_of_nat (of_be_bytes (be_bytes 4 (unat w))) = (w :: 32 word)"
proof -
  have "unat w < 256 ^ 4" using unsigned_less [of w, where ?'a = nat] by simp
  then show ?thesis by (simp add: of_be_bytes_be_bytes)
qed

lemma swap_words:
  assumes "length bs mod 4 = 0"
  shows "concat (map rev (chunks4 (concat (rev (chunks4 bs))))) = rev bs"
proof -
  have "chunks4 (concat (rev (chunks4 bs))) = rev (chunks4 bs)"
    using chunks4_blocks [OF assms] by (intro chunks4_concat) auto
  then have "concat (map rev (chunks4 (concat (rev (chunks4 bs))))) = rev (concat (chunks4 bs))"
    by (simp add: rev_concat rev_map)
  then show ?thesis by (simp add: concat_chunks4)
qed

lemma those_map_Some: "(\<And>x. x \<in> set xs \<Longrightarrow> f x = Some (g x)) \<Longrightarrow> those (map f xs) = Some (map g xs)"
  by (induction xs) auto

lemma collect_Ok_map:
  assumes "collect f xs = Ok ys" "\<And>x. f x = Ok (g x)"
  shows "ys = map g xs"
  using assms by (induction xs arbitrary: ys) (auto simp: outcome_simps)

lemma display_decodes:
  assumes "hex_ok X" "hashes_ok X"
  shows "hex_decode X (display_hash X h) = Some (rev (hash_bytes X h))" "length (rev (hash_bytes X h)) = 32"
    "parse_hash X (display_hash X h) = Some h"
proof -
  from assms(2) have "display_hash X h = hex_encode X (rev (hash_bytes X h))" unfolding hashes_ok_def by blast
  then show "hex_decode X (display_hash X h) = Some (rev (hash_bytes X h))"
    using assms(1) unfolding hex_ok_def by metis
  show "parse_hash X (display_hash X h) = Some h" using assms(2) unfolding hashes_ok_def by blast
  have "length (hash_bytes X h) = 32" using assms(2) unfolding hashes_ok_def by blast
  then show "length (rev (hash_bytes X h)) = 32" by simp
qed

text \<open>What the notification of a job says.\<close>

lemma notify_fields:
  assumes ok: "hex_ok X" "hashes_ok X"
    and build: "build_notify X B ts template pairs job_id clean sig commitment = Ok ntf"
    and prev: "bt_previousblockhash template = display_hash X prev"
    and txids: "template_txids X template = (Ok txids :: (work_error, txid list) outcome)"
  shows "those (map (hex_decode X) (np_merkle_branches (nt_params ntf)))
      = Some (map (hash_bytes X) (merkle_branches (node_hash X) txids))"
    and "miner_prevhash X (nt_params ntf) = Some (hash_bytes X prev)"
    and "hex_decode X (np_version (nt_params ntf)) = Some (be_bytes 4 (unat (bt_version template)))"
    and "np_nbits (nt_params ntf) = bt_bits template"
proof -
  note disp = display_decodes [OF ok]
  have dec: "hex_decode X (hex_encode X bs) = Some bs" for bs using ok(1) by (simp add: hex_ok_def)
  obtain branches mb ph where parts:
    "build_merkle_branches_for_template X template = (Ok branches :: (work_error, _) outcome)"
    "collect (\<lambda>branch. to_be_hex X (display_hash X branch)) branches = (Ok mb :: (work_error, _) outcome)"
    "map_err (\<lambda>_. WorkError ''Failed to reverse previous block hash'')
       (reverse_four_byte_chunks X (bt_previousblockhash template)) = Ok ph"
    and ntf: "np_merkle_branches (nt_params ntf) = mb" "np_prevhash (nt_params ntf) = ph"
      "np_version (nt_params ntf) = hex_encode X (be_bytes 4 (unat (bt_version template)))"
      "np_nbits (nt_params ntf) = bt_bits template"
    using build by (auto simp: build_notify_def new_notify_def outcome_simps)
  have "branches = merkle_branches (node_hash X) txids"
    using parts(1) txids by (simp add: build_merkle_branches_for_template_def compute_merkle_branches_def)
  moreover have "mb = map (\<lambda>b. hex_encode X (hash_bytes X b)) branches"
    by (rule collect_Ok_map [OF parts(2)]) (simp add: to_be_hex_def disp(1))
  ultimately show "those (map (hex_decode X) (np_merkle_branches (nt_params ntf)))
      = Some (map (hash_bytes X) (merkle_branches (node_hash X) txids))"
    by (simp add: ntf those_map_Some [of _ _ "hash_bytes X"] dec comp_def)
  have "ph = hex_encode X (concat (rev (chunks4 (rev (hash_bytes X prev)))))"
    using parts(3) disp(1) [of prev] by (auto simp: prev reverse_four_byte_chunks_def split: if_splits)
  moreover have "length (rev (hash_bytes X prev)) mod 4 = 0" by (simp only: disp(2)) simp
  ultimately show "miner_prevhash X (nt_params ntf) = Some (hash_bytes X prev)"
    using swap_words [of "rev (hash_bytes X prev)"] by (simp add: miner_prevhash_def ntf dec)
  show "hex_decode X (np_version (nt_params ntf)) = Some (be_bytes 4 (unat (bt_version template)))"
    "np_nbits (nt_params ntf) = bt_bits template" by (simp_all add: ntf dec)
qed

text \<open>The laws of the crates, and a template whose coinbase is in order, as the miner's work needs them.\<close>

definition mining_crates_ok :: "'addr crates \<Rightarrow> btc \<Rightarrow> (i32 \<Rightarrow> txid \<times> u32 \<Rightarrow> nat \<Rightarrow> bytes) \<Rightarrow> bool" where
  "mining_crates_ok X B tx_head \<longleftrightarrow> hex_ok X \<and> hashes_ok X \<and> pushes_ok X \<and> tx_layout X B tx_head \<and> btc_ok B
     \<and> txid_ok X B \<and> calculate_root B = merkle_root (node_hash X)"

definition coinbase_fits ::
  "'addr crates \<Rightarrow> btc \<Rightarrow> (i32 \<Rightarrow> txid \<times> u32 \<Rightarrow> nat \<Rightarrow> bytes) \<Rightarrow> u32 \<times> u32 \<Rightarrow> block_template
     \<Rightarrow> 'addr output_pair list \<Rightarrow> bytes \<Rightarrow> 256 word option \<Rightarrow> bool" where
  "coinbase_fits X B tx_head ts template pairs sig commitment \<longleftrightarrow>
     (\<exists>flags tx. parse_flags X (bt_coinbaseaux template ''flags'') = (Ok flags :: (work_error, bytes) outcome)
        \<and> build_coinbase_transaction X ts 2 pairs (uint (bt_height template)) flags
            (bt_default_witness_commitment template) sig commitment = Ok tx
        \<and> fits B (c_transaction B) tx
        \<and> find_window EXTRANONCE_SEPARATOR
            (tx_head 2 (0, - 1) (length (coinbase_script_head X (uint (bt_height template)) commitment flags (fst ts) (snd ts))
               + (14 + length sig))
             @ coinbase_script_head X (uint (bt_height template)) commitment flags (fst ts) (snd ts) @ [12]) = None)"

lemma hash_bytes_inj:
  assumes "hashes_ok X" "hash_bytes X h = hash_bytes X h'"
  shows "h = h'"
proof -
  from assms(1) have "\<And>h. display_hash X h = hex_encode X (rev (hash_bytes X h))"
    and parse: "\<And>h. parse_hash X (display_hash X h) = Some h"
    unfolding hashes_ok_def by blast+
  then have "display_hash X h = display_hash X h'" using assms(2) by metis
  then show ?thesis using parse by (metis option.inject)
qed

lemma decode_txids_template:
  assumes "template_txids X template = (Ok txids :: (work_error, txid list) outcome)"
  shows "decode_txids X template = Ok txids"
proof -
  have "collect (\<lambda>tx. ok_or e (parse_hash X (tt_txid tx))) txs = Ok ids"
    if "collect (\<lambda>tx. unwrap (parse_hash X (tt_txid tx))) txs = (Ok ids :: (work_error, txid list) outcome)" for txs ids e
    using that by (induction txs arbitrary: ids) (auto simp: outcome_simps split: option.splits)
  then show ?thesis using assms by (simp add: template_txids_def decode_txids_def)
qed

text \<open>The coinbase of a submission is the transaction whose bytes the miner hashes.\<close>

lemma submitted_coinbase:
  assumes ok: "mining_crates_ok X B tx_head"
    and build: "build_notify X B ts template pairs job_id clean sig commitment = Ok ntf"
    and fit: "coinbase_fits X B tx_head ts template pairs sig commitment"
    and len: "length sig \<le> 16" "length enonce1 = 4" "length enonce2 = 8"
  shows "\<exists>tx. hex_decode X (np_coinbase1 (nt_params ntf) @ hex_encode X enonce1 @ hex_encode X enonce2 @ np_coinbase2 (nt_params ntf))
        = Some (enc (c_transaction B) tx)
    \<and> build_coinbase_from_components X B (np_coinbase1 (nt_params ntf)) (hex_encode X enonce1) (hex_encode X enonce2)
        (np_coinbase2 (nt_params ntf)) = Ok tx
    \<and> compute_txid B tx = sha256d_hash X (enc (c_transaction B) tx)
    \<and> (\<Sum>out\<leftarrow>tx_output tx. unat (to_value out)) = total_paid pairs"
proof -
  from ok have laws: "hex_ok X" "pushes_ok X" "tx_layout X B tx_head" "btc_ok B" "txid_ok X B"
    by (simp_all add: mining_crates_ok_def)
  obtain flags tx where flags: "parse_flags X (bt_coinbaseaux template ''flags'') = (Ok flags :: (work_error, bytes) outcome)"
    and tx: "build_coinbase_transaction X ts 2 pairs (uint (bt_height template)) flags
        (bt_default_witness_commitment template) sig commitment = Ok tx"
    and fits: "fits B (c_transaction B) tx"
    and run: "find_window EXTRANONCE_SEPARATOR
        (tx_head 2 (0, - 1) (length (coinbase_script_head X (uint (bt_height template)) commitment flags (fst ts) (snd ts))
           + (14 + length sig))
         @ coinbase_script_head X (uint (bt_height template)) commitment flags (fst ts) (snd ts) @ [12]) = None"
    using fit unfolding coinbase_fits_def by blast
  let ?tx = "\<lambda>nonce. coinbase_tx 2 (coinbase_script_head X (uint (bt_height template)) commitment flags (fst ts) (snd ts)
      @ push_slice X nonce @ push_slice X sig) (tx_output tx)"
  have "length sig \<le> 75" using len(1) by simp
  from coinbase_halves [OF laws(3,1,2) tx this run] obtain pre post where
    split: "split_coinbase X B tx = Ok (hex_encode X pre, hex_encode X post)"
    and whole: "\<And>nonce. length nonce = 12 \<Longrightarrow> pre @ nonce @ post = enc (c_transaction B) (?tx nonce)" by blast
  from build flags tx split have ntf: "np_coinbase1 (nt_params ntf) = hex_encode X pre" "np_coinbase2 (nt_params ntf) = hex_encode X post"
    by (auto simp: build_notify_def new_notify_def outcome_simps)
  have nonce: "length (enonce1 @ enonce2) = 12" using len by simp
  have "tx = ?tx EXTRANONCE_SEPARATOR" using build_coinbase_Ok [OF tx] by (auto simp: coinbase_tx_def)
  then have "length (enc (c_transaction B) (?tx (enonce1 @ enonce2))) = length (enc (c_transaction B) tx)"
    using whole [OF nonce] whole [OF length_separator] nonce by (metis length_append length_separator)
  with fits have "fits B (c_transaction B) (?tx (enonce1 @ enonce2))" by (simp add: fits_def)
  then have dec: "dec (c_transaction B) (enc (c_transaction B) (?tx (enonce1 @ enonce2))) = Some (?tx (enonce1 @ enonce2), [])"
    using laws(4) round_tripsD [of "fits B (c_transaction B)" "enc (c_transaction B)" "dec (c_transaction B)" _ "[]"]
    by (simp add: btc_ok_def)
  have bytes: "hex_decode X (hex_encode X pre @ hex_encode X enonce1 @ hex_encode X enonce2 @ hex_encode X post)
      = Some (enc (c_transaction B) (?tx (enonce1 @ enonce2)))"
    unfolding whole [OF nonce, symmetric] by (simp add: hex_append [OF laws(1)] hex_round_trip [OF laws(1)])
  have "compute_txid B (?tx (enonce1 @ enonce2)) = sha256d_hash X (enc (c_transaction B) (?tx (enonce1 @ enonce2)))"
    using laws(5) by (simp add: txid_ok_def coinbase_tx_def)
  moreover have "(\<Sum>out\<leftarrow>tx_output (?tx (enonce1 @ enonce2)). unat (to_value out)) = total_paid pairs"
    using build_coinbase_Ok [OF tx] coinbase_values by (fastforce simp: coinbase_tx_def)
  ultimately show ?thesis
    using bytes dec by (intro exI [of _ "?tx (enonce1 @ enonce2)"]) (simp add: ntf build_coinbase_from_components_def)
qed

lemma submission_version:
  assumes "hex_ok X" "sr_params submission = submission_params X username job_text enonce2 time nonce rolled"
  shows "apply_version_mask X version vmask (sr_params submission) = Ok (rolled_version version vmask rolled)"
proof -
  have "length (be_bytes 4 n) = 4" for n by (simp add: length_be_bytes)
  then show ?thesis
    using assms
    by (auto simp: submission_params_def apply_version_mask_def rolled_version_def param_def hex_round_trip be_bytes_word
        split: option.splits)
qed

section \<open>Runs\<close>

text \<open>
  What may happen to the world of the handlers: a job enters the tracker, old jobs leave it, a
  submission of any session is handled, or another handler or task changes something else.
\<close>

inductive stratum_run :: "('addr, 'u) stratum_context \<Rightarrow> u64 \<Rightarrow> nat \<Rightarrow> stratum_world \<Rightarrow> bool" for ctx s where
  start: "sw_tracker w = tracker_new s \<Longrightarrow> sw_emissions w = [] \<Longrightarrow> stratum_run ctx s 0 w"
| new_job: "stratum_run ctx s n w \<Longrightarrow> Suc n < 2 ^ 64 \<Longrightarrow> get_next_job_id (sw_tracker w) = (job_id, t)
    \<Longrightarrow> stratum_run ctx s (Suc n) (w\<lparr>sw_tracker := insert_job now template c1 c2 commitment job_id t\<rparr>)"
| cleanup: "stratum_run ctx s n w
    \<Longrightarrow> stratum_run ctx s n (w\<lparr>sw_tracker := snd (cleanup_old_jobs age now (sw_tracker w))\<rparr>)"
| submit: "stratum_run ctx s n w \<Longrightarrow> handle_submit ctx clk message session w = (r, session', w') \<Longrightarrow> stratum_run ctx s n w'"
| other: "stratum_run ctx s n w \<Longrightarrow> sw_tracker w' = sw_tracker w \<Longrightarrow> sw_emissions w' = sw_emissions w
    \<Longrightarrow> stratum_run ctx s n w'"

text \<open>The job and the hash an emission credits.\<close>

definition credit_of :: "btc \<Rightarrow> emission \<Rightarrow> job_id option \<times> blockhash" where
  "credit_of B em = (from_str_radix_16 (pps_job_id (em_pplns em)), header_hash B (em_header em))"

lemma submit_found_block_keeps:
  "submit_found_block ctx now result job w = (r, w') \<Longrightarrow> sw_tracker w' = sw_tracker w \<and> sw_emissions w' = sw_emissions w
     \<and> sw_store w' = sw_store w \<and> sw_metrics w' = sw_metrics w \<and> sw_notify w' = sw_notify w"
  by (auto simp: submit_found_block_def Let_def split: if_splits outcome.splits)

lemma credit_share_effect:
  assumes "credit_share ctx clk message id_text job_id job result session w = (r, session', w')"
  shows "sw_tracker w' = sw_tracker w
    \<and> (sw_emissions w' = sw_emissions w
       \<or> (\<exists>em. sw_emissions w' = sw_emissions w @ [em] \<and> pps_job_id (em_pplns em) = id_text \<and> em_header em = vr_header result))"
  using assms
  by (auto simp: credit_share_def Let_def simple_pplns_share_new_def outcome_simps split: if_splits outcome.splits prod.splits)

lemma handle_submit_effect:
  assumes "handle_submit ctx clk message session w = (r, session', w')"
  shows "(sw_tracker w' = sw_tracker w \<and> sw_emissions w' = sw_emissions w)
    \<or> (\<exists>job_id hash. sw_tracker w' = snd (tracker_add_share job_id hash (sw_tracker w))
        \<and> (sw_emissions w' = sw_emissions w
           \<or> fst (tracker_add_share job_id hash (sw_tracker w))
             \<and> (\<exists>em. sw_emissions w' = sw_emissions w @ [em] \<and> credit_of (sx_btc ctx) em = (Some job_id, hash))))"
proof (cases "w' = w")
  case False
  with assms obtain id_text job_id job result where
    reach: "from_str_radix_16 id_text = Some job_id"
      "(if \<not> fst (tracker_add_share job_id (header_hash (sx_btc ctx) (vr_header result)) (sw_tracker w))
        then (Ok [bool_response message False], session, w\<lparr>sw_tracker := snd (tracker_add_share job_id (header_hash (sx_btc ctx) (vr_header result)) (sw_tracker w))\<rparr>)
        else case submit_found_block ctx (uc_instant clk) result job
                    (w\<lparr>sw_tracker := snd (tracker_add_share job_id (header_hash (sx_btc ctx) (vr_header result)) (sw_tracker w))\<rparr>) of
               (Ok _, w2) \<Rightarrow> credit_share ctx clk message id_text job_id job result session w2
             | (Err e, w2) \<Rightarrow> (Err e, session, w2)
             | (Panic, w2) \<Rightarrow> (Panic, session, w2)) = (r, session', w')"
    by (auto simp: handle_submit_def Let_def split_def split: if_split_asm outcome.split_asm option.split_asm)
  let ?hash = "header_hash (sx_btc ctx) (vr_header result)"
  let ?t = "snd (tracker_add_share job_id ?hash (sw_tracker w))"
  show ?thesis
  proof (cases "fst (tracker_add_share job_id ?hash (sw_tracker w))")
    case True
    obtain r2 w2 where found: "submit_found_block ctx (uc_instant clk) result job (w\<lparr>sw_tracker := ?t\<rparr>) = (r2, w2)" by force
    note keeps = submit_found_block_keeps [OF found]
    show ?thesis
    proof (cases r2)
      case (Ok _)
      then have "credit_share ctx clk message id_text job_id job result session w2 = (r, session', w')"
        using reach(2) True found by simp
      from credit_share_effect [OF this] keeps True reach(1) show ?thesis
        by (auto simp: credit_of_def intro!: exI [of _ job_id] exI [of _ ?hash])
    qed (use reach(2) True found keeps in auto)
  next
    case False
    then show ?thesis using reach(2) by (intro disjI2 exI [of _ job_id] exI [of _ ?hash]) auto
  qed
qed simp

lemma stratum_run_credits:
  assumes "stratum_run ctx s n w"
  shows "\<exists>accepted. tracked s n accepted (sw_tracker w) \<and> distinct (map (credit_of (sx_btc ctx)) (sw_emissions w))
    \<and> set (map (credit_of (sx_btc ctx)) (sw_emissions w)) \<subseteq> (\<lambda>(j, h). (Some j, h)) ` set accepted"
  using assms
proof (induction rule: stratum_run.induct)
  case (start w)
  then show ?case using tracked_start by (intro exI [of _ "[]"]) simp
next
  case (new_job n w job_id t now template c1 c2 commitment)
  then obtain accepted where acc: "tracked s n accepted (sw_tracker w)"
    "distinct (map (credit_of (sx_btc ctx)) (sw_emissions w))"
    "set (map (credit_of (sx_btc ctx)) (sw_emissions w)) \<subseteq> (\<lambda>(j, h). (Some j, h)) ` set accepted" by blast
  from tracked_new_job [OF acc(1) new_job.hyps(2), of now template c1 c2 commitment] new_job.hyps(3) acc(2,3)
  show ?case by (intro exI [of _ accepted]) simp
next
  case (cleanup n w age now)
  then show ?case using tracked_cleanup by fastforce
next
  case (submit n w clk message session r session' w')
  then obtain accepted where acc: "tracked s n accepted (sw_tracker w)"
    "distinct (map (credit_of (sx_btc ctx)) (sw_emissions w))"
    "set (map (credit_of (sx_btc ctx)) (sw_emissions w)) \<subseteq> (\<lambda>(j, h). (Some j, h)) ` set accepted" by blast
  from handle_submit_effect [OF submit.hyps(2)] show ?case
  proof (elim disjE exE conjE)
    fix job_id hash
    assume t: "sw_tracker w' = snd (tracker_add_share job_id hash (sw_tracker w))" and same: "sw_emissions w' = sw_emissions w"
    obtain accepted' where "tracked s n accepted' (sw_tracker w')" "set accepted \<subseteq> set accepted'"
      using tracked_add_share [OF acc(1), of job_id hash] t by (fastforce split: prod.splits if_splits)
    with acc(2,3) same show ?thesis by (intro exI [of _ accepted']) auto
  next
    fix job_id hash em
    assume t: "sw_tracker w' = snd (tracker_add_share job_id hash (sw_tracker w))"
      and new: "fst (tracker_add_share job_id hash (sw_tracker w))"
      and em: "sw_emissions w' = sw_emissions w @ [em]" "credit_of (sx_btc ctx) em = (Some job_id, hash)"
    have "(job_id, hash) \<notin> set accepted" using new add_share_result [OF acc(1)] by blast
    then have "(Some job_id, hash) \<notin> set (map (credit_of (sx_btc ctx)) (sw_emissions w))" using acc(3) by auto
    moreover have "tracked s n (accepted @ [(job_id, hash)]) (sw_tracker w')"
      using tracked_add_share [OF acc(1), of job_id hash] t new by (auto split: prod.splits if_splits)
    ultimately show ?thesis
      using acc(2,3) em by (intro exI [of _ "accepted @ [(job_id, hash)]"]) auto
  qed (use acc in auto)
next
  case (other n w w')
  then show ?case by simp
qed

text \<open>Crediting a share: the emission, the counters and the answer.\<close>

lemma judged_share_counts:
  "pm_accepted_total (snd (metrics_handle_message now
      (if reached then record_share_accepted_message share truediff else RecordShareRejected) m))
    = pm_accepted_total m + (if reached then 1 else 0)"
  "pm_rejected_total (snd (metrics_handle_message now
      (if reached then record_share_accepted_message share truediff else RecordShareRejected) m))
    = pm_rejected_total m + (if reached then 0 else 1)"
  by (simp_all add: message_defs record_share_accepted_message_def)

lemma credit_share_Ok:
  assumes "param (sr_params message) 2 = (Ok enonce2 :: (stratum_error, string) outcome)"
    and "param (sr_params message) 4 = (Ok nonce :: (stratum_error, string) outcome)"
    and "ss_user_id session = Some user_id" "sx_emissions_open ctx"
  shows "\<exists>msgs session' w' em. credit_share ctx clk message id_text job_id job result session w
        = (Ok (bool_response message
            (sx_ignore_difficulty ctx \<or> f64_le (get_current_difficulty (ss_difficulty_adjuster session))
               (get_true_difficulty (sx_crates ctx) (header_hash (sx_btc ctx) (vr_header result)))) # msgs), session', w')
    \<and> sw_emissions w' = sw_emissions w @ [em]
    \<and> em_header em = vr_header result \<and> em_coinbase em = vr_coinbase result
    \<and> em_share_commitment em = jd_share_commitment job
    \<and> pps_difficulty (em_pplns em) = get_current_difficulty (ss_difficulty_adjuster session)
    \<and> pps_user_id (em_pplns em) = user_id \<and> pps_n_time (em_pplns em) = uc_secs clk
    \<and> pm_accepted_total (sw_metrics w') = pm_accepted_total (sw_metrics w) +
        (if sx_ignore_difficulty ctx \<or> f64_le (get_current_difficulty (ss_difficulty_adjuster session))
               (get_true_difficulty (sx_crates ctx) (header_hash (sx_btc ctx) (vr_header result))) then 1 else 0)
    \<and> pm_rejected_total (sw_metrics w') = pm_rejected_total (sw_metrics w) +
        (if sx_ignore_difficulty ctx \<or> f64_le (get_current_difficulty (ss_difficulty_adjuster session))
               (get_true_difficulty (sx_crates ctx) (header_hash (sx_btc ctx) (vr_header result))) then 0 else 1)
    \<and> sw_blocks w' = sw_blocks w"
proof -
  obtain nd first_share adj where rec:
    "record_share_submission (sx_exp ctx) (ss_difficulty_adjuster session)
       (get_true_difficulty (sx_crates ctx) (header_hash (sx_btc ctx) (vr_header result))) job_id
       (ss_suggested_difficulty session) (uc_adjust_time clk) = ((nd, first_share), adj)" by (metis prod.collapse)
  show ?thesis
    unfolding credit_share_def Let_def assms(1,2,3)
    by (simp add: assms(4) rec judged_share_counts simple_pplns_share_new_def)
qed

text \<open>The header of a submission.\<close>

lemma submission_rebuilt:
  assumes "mining_crates_ok X B tx_head"
    and "build_notify X B ts template pairs job_id clean sig commitment = Ok ntf"
    and "coinbase_fits X B tx_head ts template pairs sig commitment"
    and "length sig \<le> 16" "length enonce1 = 4" "length enonce2 = 8"
    and "bt_previousblockhash template = display_hash X prev"
    and "template_txids X template = (Ok txids :: (work_error, txid list) outcome)"
    and "compact_from_hex X (bt_bits template) = Some bits"
    and "jd_blocktemplate job = template" "jd_coinbase1 job = np_coinbase1 (nt_params ntf)"
      "jd_coinbase2 job = np_coinbase2 (nt_params ntf)"
    and "sr_params submission = submission_params X username job_text enonce2 time nonce rolled"
  shows "\<exists>r. validate_submission_difficulty X B job submission (hex_encode X enonce1) vmask = Ok r
    \<and> (\<forall>h. miner_builds X (nt_params ntf) enonce1 enonce2 vmask rolled time nonce h \<longleftrightarrow> h = vr_header r)
    \<and> (vr_meets_bitcoin_difficulty r \<longleftrightarrow> validate_pow X (vr_header r) bits)
    \<and> (\<Sum>out\<leftarrow>tx_output (vr_coinbase r). unat (to_value out)) = total_paid pairs"
proof -
  from assms(1) have hex: "hex_ok X" and hashes: "hashes_ok X" and calc: "calculate_root B = merkle_root (node_hash X)"
    by (simp_all add: mining_crates_ok_def)
  from submitted_coinbase [OF assms(1-6)] obtain tx where tx:
    "hex_decode X (np_coinbase1 (nt_params ntf) @ hex_encode X enonce1 @ hex_encode X enonce2 @ np_coinbase2 (nt_params ntf))
      = Some (enc (c_transaction B) tx)"
    "build_coinbase_from_components X B (jd_coinbase1 job) (hex_encode X enonce1) (hex_encode X enonce2) (jd_coinbase2 job) = Ok tx"
    "compute_txid B tx = sha256d_hash X (enc (c_transaction B) tx)"
    "(\<Sum>out\<leftarrow>tx_output tx. unat (to_value out)) = total_paid pairs"
    unfolding assms(11,12) by blast
  let ?root = "foldl (node_hash X) (compute_txid B tx) (merkle_branches (node_hash X) txids)"
  let ?version = "rolled_version (bt_version template) vmask rolled"
  let ?h = "\<lparr>bh_version = ?version, bh_prev_blockhash = prev, bh_merkle_root = ?root, bh_time = time, bh_bits = bits, bh_nonce = nonce\<rparr>"
  let ?r = "\<lparr>vr_header = ?h, vr_coinbase = tx, vr_meets_bitcoin_difficulty = validate_pow X ?h bits\<rparr>"
  have params: "param (sr_params submission) 2 = (Ok (hex_encode X enonce2) :: (stratum_error, string) outcome)"
    "param (sr_params submission) 3 = (Ok (lower_hex 8 (unat time)) :: (stratum_error, string) outcome)"
    "param (sr_params submission) 4 = (Ok (lower_hex 8 (unat nonce)) :: (stratum_error, string) outcome)"
    by (simp_all add: assms(13) submission_params_def param_def nth_append)
  have read: "from_str_radix_16 (lower_hex 8 (unat (w :: u32))) = Some w" for w
    by (rule from_str_radix_lower_hex) simp_all
  have "validate_submission_difficulty X B job submission (hex_encode X enonce1) vmask = Ok ?r"
    unfolding validate_submission_difficulty_def Let_def assms(10) assms(9) params
      submission_version [OF hex assms(13)] assms(7) display_decodes(3) [OF hex hashes] decode_txids_template [OF assms(8)]
    by (simp add: tx(2) calc merkle_branches_root [symmetric] read)
  moreover note notify = notify_fields [OF hex hashes assms(2,7,8)]
  have "miner_root X (nt_params ntf) enonce1 enonce2 = Some ?root"
    by (simp add: miner_root_def tx(1,3) notify(1) foldl_map node_hash_def [abs_def])
  then have "miner_builds X (nt_params ntf) enonce1 enonce2 vmask rolled time nonce h \<longleftrightarrow> h = ?h" for h
    using hash_bytes_inj [OF hashes, of "bh_prev_blockhash h" prev]
    by (auto simp: miner_builds_def notify(2,3,4) assms(9) be_bytes_word)
  ultimately show ?thesis using tx(4) by (intro exI [of _ ?r]) simp
qed

lemma valid_share_credited:
  assumes "sr_params message = [user, Some id_text, Some enonce2, ntime, Some nonce] @ rest"
    and "from_str_radix_16 id_text = Some job_id" "get_job (sw_tracker w) job_id = Some job"
    and "validate_submission_difficulty (sx_crates ctx) (sx_btc ctx) job message
      (ss_enonce1_hex session) (ss_version_mask session) = Ok result"
    and "fst (tracker_add_share job_id (header_hash (sx_btc ctx) (vr_header result)) (sw_tracker w))"
    and "ss_user_id session = Some user_id" "sx_emissions_open ctx"
    and "decode_transactions (sx_crates ctx) (sx_btc ctx) (jd_blocktemplate job) = (Ok txs :: (stratum_error, transaction list) outcome)"
  shows "let hash = header_hash (sx_btc ctx) (vr_header result);
             difficulty = get_current_difficulty (ss_difficulty_adjuster session);
             reached = (sx_ignore_difficulty ctx \<or> f64_le difficulty (get_true_difficulty (sx_crates ctx) hash));
             block_due = (vr_meets_bitcoin_difficulty result \<and> should_submit (uc_instant clk) (sw_last_block_submit w))
    in \<exists>msgs session' w' em. handle_submit ctx clk message session w = (Ok (bool_response message reached # msgs), session', w')
      \<and> sw_emissions w' = sw_emissions w @ [em]
      \<and> em_header em = vr_header result \<and> em_coinbase em = vr_coinbase result
      \<and> em_share_commitment em = jd_share_commitment job
      \<and> pps_difficulty (em_pplns em) = difficulty \<and> pps_user_id (em_pplns em) = user_id
      \<and> pps_n_time (em_pplns em) = uc_secs clk
      \<and> pm_accepted_total (sw_metrics w') = pm_accepted_total (sw_metrics w) + (if reached then 1 else 0)
      \<and> pm_rejected_total (sw_metrics w') = pm_rejected_total (sw_metrics w) + (if reached then 0 else 1)
      \<and> sw_blocks w' = sw_blocks w @ (if block_due then [(vr_header result, vr_coinbase result # txs)] else [])"
proof -
  let ?hash = "header_hash (sx_btc ctx) (vr_header result)"
  obtain t where add: "tracker_add_share job_id ?hash (sw_tracker w) = (True, t)"
    using assms(5) by (metis prod.collapse)
  let ?w1 = "w\<lparr>sw_tracker := t\<rparr>"
  let ?due = "vr_meets_bitcoin_difficulty result \<and> should_submit (uc_instant clk) (sw_last_block_submit w)"
  obtain w2 where found: "submit_found_block ctx (uc_instant clk) result job ?w1 = (Ok (), w2)"
    and blocks: "sw_blocks w2 = sw_blocks w @ (if ?due then [(vr_header result, vr_coinbase result # txs)] else [])"
    using assms(8) by (cases ?due) (simp_all add: submit_found_block_def build_full_block_def)
  note keeps = submit_found_block_keeps [OF found]
  have submit: "handle_submit ctx clk message session w = credit_share ctx clk message id_text job_id job result session w2"
    using assms(1-4) found by (simp add: handle_submit_def param_def add)
  have params: "param (sr_params message) 2 = (Ok enonce2 :: (stratum_error, string) outcome)"
    "param (sr_params message) 4 = (Ok nonce :: (stratum_error, string) outcome)"
    by (simp_all add: assms(1) param_def)
  have same: "sw_emissions w2 = sw_emissions w" "sw_metrics w2 = sw_metrics w" using keeps by simp_all
  show ?thesis
    unfolding Let_def submit
    using credit_share_Ok [OF params assms(6,7), where w = w2 and clk = clk and result = result and job = job
        and id_text = id_text and job_id = job_id]
    unfolding blocks [symmetric] same by blast
qed

section \<open>Properties\<close>

text \<open>
  C3: pool and miner agree on every share: for a job the notifier announced, whatever extranonce,
  time, nonce and version bits the miner submits, the header the pool rebuilds is the one header
  the miner hashed by the rules of the protocol from the notification's fields; it is checked
  against the target of the template, and the coinbase it commits to pays what the payout of the
  job said.
\<close>

theorem submitted_header_is_miners:
  assumes "mining_crates_ok X B tx_head"
    and "build_notify X B ts template pairs job_id clean sig commitment = Ok ntf"
    and "coinbase_fits X B tx_head ts template pairs sig commitment"
    and "length sig \<le> 16" "length enonce1 = 4" "length enonce2 = 8"
    and "bt_previousblockhash template = display_hash X prev"
    and "template_txids X template = (Ok txids :: (work_error, txid list) outcome)"
    and "compact_from_hex X (bt_bits template) = Some bits"
    and "jd_blocktemplate job = template" "jd_coinbase1 job = np_coinbase1 (nt_params ntf)"
      "jd_coinbase2 job = np_coinbase2 (nt_params ntf)"
    and "sr_params submission = submission_params X username job_text enonce2 time nonce rolled"
  shows "\<exists>r. validate_submission_difficulty X B job submission (hex_encode X enonce1) vmask = Ok r
    \<and> (\<forall>h. miner_builds X (nt_params ntf) enonce1 enonce2 vmask rolled time nonce h \<longleftrightarrow> h = vr_header r)
    \<and> (vr_meets_bitcoin_difficulty r \<longleftrightarrow> validate_pow X (vr_header r) bits)
    \<and> (\<Sum>out\<leftarrow>tx_output (vr_coinbase r). unat (to_value out)) = total_paid pairs"
  using assms by (rule submission_rebuilt)

text \<open>
  C5: no share is credited twice: in whatever order jobs come and go and sessions submit (with
  fewer than \<open>2 ^ 64\<close> jobs), the pairs of job and header hash of the shares handed to the
  emissions channel are all different, and no later submission is credited for one of them.
\<close>

theorem shares_credited_once:
  assumes "stratum_run ctx s n w"
  shows "distinct (map (credit_of (sx_btc ctx)) (sw_emissions w))
    \<and> (\<forall>clk message session r session' w'. handle_submit ctx clk message session w = (r, session', w') \<longrightarrow>
         (\<exists>new. sw_emissions w' = sw_emissions w @ new \<and> length new \<le> 1
            \<and> set (map (credit_of (sx_btc ctx)) new) \<inter> set (map (credit_of (sx_btc ctx)) (sw_emissions w)) = {}))"
proof (intro conjI allI impI)
  show "distinct (map (credit_of (sx_btc ctx)) (sw_emissions w))" using stratum_run_credits [OF assms] by blast
next
  fix clk message session r session' w'
  assume sub: "handle_submit ctx clk message session w = (r, session', w')"
  from handle_submit_effect [OF this] obtain new where new: "sw_emissions w' = sw_emissions w @ new" "length new \<le> 1" by force
  have "distinct (map (credit_of (sx_btc ctx)) (sw_emissions w'))"
    using stratum_run_credits [OF stratum_run.submit [OF assms sub]] by blast
  with new show "\<exists>new. sw_emissions w' = sw_emissions w @ new \<and> length new \<le> 1
      \<and> set (map (credit_of (sx_btc ctx)) new) \<inter> set (map (credit_of (sx_btc ctx)) (sw_emissions w)) = {}"
    by (intro exI [of _ new]) auto
qed

text \<open>
  C14: what a valid new share does: it is handed to the emissions channel, with the address and
  worker of the session and the difficulty the session has, before its own difficulty is looked
  at. The answer and the statistics say whether the hash reaches the difficulty of the session; a
  share that is answered with \<open>false\<close> and counted as rejected was credited all the same.
\<close>

theorem new_share_credited:
  assumes "sr_params message = [user, Some id_text, Some enonce2, ntime, Some nonce] @ rest"
    and "from_str_radix_16 id_text = Some job_id" "get_job (sw_tracker w) job_id = Some job"
    and "validate_submission_difficulty (sx_crates ctx) (sx_btc ctx) job message
      (ss_enonce1_hex session) (ss_version_mask session) = Ok result"
    and "fst (tracker_add_share job_id (header_hash (sx_btc ctx) (vr_header result)) (sw_tracker w))"
    and "ss_user_id session = Some user_id" "sx_emissions_open ctx"
    and "decode_transactions (sx_crates ctx) (sx_btc ctx) (jd_blocktemplate job) = (Ok txs :: (stratum_error, transaction list) outcome)"
  shows "let hash = header_hash (sx_btc ctx) (vr_header result);
             difficulty = get_current_difficulty (ss_difficulty_adjuster session);
             reached = (sx_ignore_difficulty ctx \<or> f64_le difficulty (get_true_difficulty (sx_crates ctx) hash));
             block_due = (vr_meets_bitcoin_difficulty result \<and> should_submit (uc_instant clk) (sw_last_block_submit w))
    in \<exists>msgs session' w' em. handle_submit ctx clk message session w = (Ok (bool_response message reached # msgs), session', w')
      \<and> sw_emissions w' = sw_emissions w @ [em]
      \<and> em_header em = vr_header result \<and> em_coinbase em = vr_coinbase result
      \<and> em_share_commitment em = jd_share_commitment job
      \<and> pps_difficulty (em_pplns em) = difficulty \<and> pps_user_id (em_pplns em) = user_id
      \<and> pps_n_time (em_pplns em) = uc_secs clk
      \<and> pm_accepted_total (sw_metrics w') = pm_accepted_total (sw_metrics w) + (if reached then 1 else 0)
      \<and> pm_rejected_total (sw_metrics w') = pm_rejected_total (sw_metrics w) + (if reached then 0 else 1)
      \<and> sw_blocks w' = sw_blocks w @ (if block_due then [(vr_header result, vr_coinbase result # txs)] else [])"
  using assms by (rule valid_share_credited)

section \<open>Instances\<close>

definition miner_btc :: btc where
  "miner_btc = work_btc\<lparr>compute_txid := \<lambda>tx. sha256d_hash sample_crates (enc (c_transaction work_btc) tx)\<rparr>"

lemma miner_btc_ok: "mining_crates_ok sample_crates miner_btc work_tx_head"
proof -
  have "btc_ok miner_btc" using work_btc_ok(1) by (simp add: btc_ok_def miner_btc_def fits_def [abs_def])
  moreover have "tx_layout sample_crates miner_btc work_tx_head" using work_btc_ok(2) by (simp add: tx_layout_def miner_btc_def)
  moreover have "calculate_root miner_btc = merkle_root (node_hash sample_crates)" by (simp add: miner_btc_def work_btc_def)
  ultimately show ?thesis by (simp add: mining_crates_ok_def sample_crates_ok txid_ok_def) (simp add: miner_btc_def)
qed

lemma sample_coinbase_fits: "coinbase_fits sample_crates miner_btc work_tx_head (1, 2) sample_template sample_pairs [7] None"
proof -
  obtain tx where tx: "build_coinbase_transaction sample_crates (1, 2) 2 sample_pairs 5 [0] None [7] None = Ok tx"
    by (simp add: build_coinbase_transaction_def sample_pairs_def append_default_witness_commitment_def)
  then have "fits miner_btc (c_transaction miner_btc) tx"
    by (auto simp: fits_def miner_btc_def work_btc_def build_coinbase_transaction_def sample_pairs_def append_default_witness_commitment_def
        build_outputs_def wire_transaction_codec_def counted_codec_def plain_input_codec_def concat_byte_codec coinbase_script_head_def
        sample_crates_def u32_codec_def u64_codec_def word256_codec_def pair_codec_def word_codec_def txout_codec_def
        iso_codec_def bytes_codec_def list_codec_def byte_codec_def length_to_le_bytes separator_bytes sample_btc_def)
  with tx sample_separator show ?thesis
    by (simp add: coinbase_fits_def parse_flags_def sample_template_def)
qed

lemma miner_notify:
  "\<exists>ntf. build_notify sample_crates miner_btc (1, 2) sample_template sample_pairs 1 True [7] None = Ok ntf"
proof -
  have "build_notify sample_crates miner_btc (1, 2) sample_template sample_pairs 1 True [7] None
      = build_notify sample_crates work_btc (1, 2) sample_template sample_pairs 1 True [7] None"
    by (simp add: build_notify_def split_coinbase_def miner_btc_def)
  with sample_notify show ?thesis by simp
qed

definition sample_submission :: simple_request where
  "sample_submission = \<lparr>sr_id = Some (IdNumber 4), sr_method = ''mining.submit'',
     sr_params = submission_params sample_crates ''user'' ''1'' [1, 2, 3, 4, 5, 6, 7, 8] 20 30 (Some 7)\<rparr>"

theorem submitted_header_is_miners_witness:
  "\<exists>ntf r. build_notify sample_crates miner_btc (1, 2) sample_template sample_pairs 1 True [7] None = Ok ntf
     \<and> validate_submission_difficulty sample_crates miner_btc
         \<lparr>jd_blocktemplate = sample_template, jd_coinbase1 = np_coinbase1 (nt_params ntf),
          jd_coinbase2 = np_coinbase2 (nt_params ntf), jd_generation_timestamp = 0, jd_share_commitment = None\<rparr>
         sample_submission (hex_encode sample_crates [9, 9, 9, 9]) 5 = Ok r
     \<and> miner_builds sample_crates (nt_params ntf) [9, 9, 9, 9] [1, 2, 3, 4, 5, 6, 7, 8] 5 (Some 7) 20 30 (vr_header r)"
proof -
  obtain ntf where ntf: "build_notify sample_crates miner_btc (1, 2) sample_template sample_pairs 1 True [7] None = Ok ntf"
    using miner_notify by blast
  let ?job = "\<lparr>jd_blocktemplate = sample_template, jd_coinbase1 = np_coinbase1 (nt_params ntf),
    jd_coinbase2 = np_coinbase2 (nt_params ntf), jd_generation_timestamp = 0, jd_share_commitment = None\<rparr>"
  have "bt_previousblockhash sample_template = display_hash sample_crates 9" by (simp add: sample_template_def)
  moreover have "compact_from_hex sample_crates (bt_bits sample_template) = Some 0"
    by (simp add: sample_template_def sample_crates_def of_be_bytes_def)
  ultimately show ?thesis
    using submitted_header_is_miners [OF miner_btc_ok ntf sample_coinbase_fits, of "[9, 9, 9, 9]" "[1, 2, 3, 4, 5, 6, 7, 8]" 9
        "[11, 12, 13]" 0 ?job sample_submission "''user''" "''1''" 20 30 "Some 7" 5] ntf
    by (auto simp: sample_template_txids sample_submission_def)
qed

definition miner_template :: block_template where
  "miner_template = sample_template\<lparr>bt_transactions := []\<rparr>"

lemma miner_template_submission:
  "\<exists>c1 c2 r. validate_submission_difficulty sample_crates miner_btc
       \<lparr>jd_blocktemplate = miner_template, jd_coinbase1 = c1, jd_coinbase2 = c2, jd_generation_timestamp = 0, jd_share_commitment = None\<rparr>
       sample_submission (hex_encode sample_crates (to_le_bytes 9)) 5 = Ok r"
proof -
  have prev: "bt_previousblockhash miner_template = display_hash sample_crates 9"
    by (simp add: miner_template_def sample_template_def)
  note disp = display_decodes [OF sample_crates_ok(1,2)]
  have "length (display_hash sample_crates 9) = 64"
    using sample_crates_ok(1,2) disp(2) [of 9] unfolding hashes_ok_def hex_ok_def by (metis mult_2 numeral_Bit0)
  then have "reverse_four_byte_chunks sample_crates (bt_previousblockhash miner_template)
      = Ok (hex_encode sample_crates (concat (rev (chunks4 (rev (hash_bytes sample_crates 9))))))"
    by (simp add: prev reverse_four_byte_chunks_def disp(1))
  moreover obtain tx c1 c2 where "build_coinbase_transaction sample_crates (1, 2) 2 sample_pairs 5 [0] None [7] None = Ok tx"
    "split_coinbase sample_crates miner_btc tx = Ok (c1, c2)"
    using sample_coinbase by (auto simp: split_coinbase_def miner_btc_def)
  ultimately obtain ntf where ntf: "build_notify sample_crates miner_btc (1, 2) miner_template sample_pairs 1 True [7] None = Ok ntf"
    by (auto simp: build_notify_def parse_flags_def miner_template_def sample_template_def build_merkle_branches_for_template_def
        template_txids_def compute_merkle_branches_def)
  have fit: "coinbase_fits sample_crates miner_btc work_tx_head (1, 2) miner_template sample_pairs [7] None"
    using sample_coinbase_fits by (simp add: coinbase_fits_def miner_template_def)
  have "compact_from_hex sample_crates (bt_bits miner_template) = Some 0"
    by (simp add: miner_template_def sample_template_def sample_crates_def of_be_bytes_def)
  then show ?thesis
    using submission_rebuilt [OF miner_btc_ok ntf fit, of "to_le_bytes 9" "[1, 2, 3, 4, 5, 6, 7, 8]" 9 "[]" 0
        "\<lparr>jd_blocktemplate = miner_template, jd_coinbase1 = np_coinbase1 (nt_params ntf), jd_coinbase2 = np_coinbase2 (nt_params ntf),
          jd_generation_timestamp = 0, jd_share_commitment = None\<rparr>" sample_submission "''user''" "''1''" 20 30 "Some 7" 5] prev
    by (auto simp: sample_submission_def template_txids_def miner_template_def length_to_le_bytes)
qed

definition stratum_ctx :: "(string, string) stratum_context" where
  "stratum_ctx = \<lparr>sx_crates = sample_crates, sx_btc = miner_btc, sx_from_str = Some, sx_require_network = (\<lambda>u _. Some u),
     sx_exp = (\<lambda>x. x), sx_start_difficulty = Fin 4, sx_minimum_difficulty = Fin 1, sx_maximum_difficulty = None,
     sx_ignore_difficulty = False, sx_validate_addresses = False, sx_network = Signet, sx_emissions_open = True,
     sx_writer_alive = True, sx_error_text = (\<lambda>_. []), sx_parse_request = (\<lambda>_. None), sx_message_text = (\<lambda>_. Some [])\<rparr>"

definition sample_session :: session where
  "sample_session = (session_new sample_crates 9 0 (Fin 4) (Fin 1) None 5)\<lparr>ss_user_id := Some 1, ss_btcaddress := Some ''user''\<rparr>"

definition sample_world :: "string \<Rightarrow> string \<Rightarrow> stratum_world" where
  "sample_world c1 c2 =
     \<lparr>sw_tracker = insert_job 0 miner_template c1 c2 None 1 ((tracker_new 0)\<lparr>jt_latest_job_id := 1\<rparr>), sw_store = job_store,
      sw_metrics = pool_metrics_default 0, sw_last_block_submit = None, sw_blocks = [], sw_emissions = [], sw_notify = []\<rparr>"

definition sample_submit_clock :: submit_clock where
  "sample_submit_clock = \<lparr>uc_instant = 0, uc_secs = 100, uc_metrics_secs = 100, uc_share_time = 0, uc_adjust_time = 0\<rparr>"

text \<open>The sample submission is valid for a job of the sample world.\<close>

lemma sample_submission_valid:
  obtains c1 c2 job r rest where
    "sr_params sample_submission = [Some ''user'', Some ''1'', Some (hex_encode sample_crates [1, 2, 3, 4, 5, 6, 7, 8]),
      Some (lower_hex 8 20), Some (lower_hex 8 30)] @ rest"
    "from_str_radix_16 ''1'' = Some (1 :: job_id)" "get_job (sw_tracker (sample_world c1 c2)) 1 = Some job"
    "validate_submission_difficulty (sx_crates stratum_ctx) (sx_btc stratum_ctx) job sample_submission
      (ss_enonce1_hex sample_session) (ss_version_mask sample_session) = Ok r"
    "fst (tracker_add_share 1 (header_hash (sx_btc stratum_ctx) (vr_header r)) (sw_tracker (sample_world c1 c2)))"
    "ss_user_id sample_session = Some 1" "sx_emissions_open stratum_ctx"
    "decode_transactions (sx_crates stratum_ctx) (sx_btc stratum_ctx) (jd_blocktemplate job)
      = (Ok [] :: (stratum_error, transaction list) outcome)"
proof -
  obtain c1 c2 r where r: "validate_submission_difficulty sample_crates miner_btc
       \<lparr>jd_blocktemplate = miner_template, jd_coinbase1 = c1, jd_coinbase2 = c2, jd_generation_timestamp = 0, jd_share_commitment = None\<rparr>
       sample_submission (hex_encode sample_crates (to_le_bytes 9)) 5 = Ok r" using miner_template_submission by blast
  let ?job = "\<lparr>jd_blocktemplate = miner_template, jd_coinbase1 = c1, jd_coinbase2 = c2, jd_generation_timestamp = 0, jd_share_commitment = None\<rparr>"
  have params: "sr_params sample_submission = [Some ''user'', Some ''1'', Some (hex_encode sample_crates [1, 2, 3, 4, 5, 6, 7, 8]),
      Some (lower_hex 8 20), Some (lower_hex 8 30)] @ [Some (hex_encode sample_crates (be_bytes 4 7))]"
    by (simp add: sample_submission_def submission_params_def)
  have id: "from_str_radix_16 ''1'' = Some (1 :: job_id)" by (simp add: from_str_radix_16_def hex_value_def)
  have job: "get_job (sw_tracker (sample_world c1 c2)) 1 = Some ?job" by (simp add: sample_world_def get_job_def insert_job_def)
  have new: "fst (tracker_add_share 1 h (sw_tracker (sample_world c1 c2)))" for h
    by (simp add: sample_world_def tracker_add_share_def insert_job_def tracker_new_def)
  have val: "validate_submission_difficulty (sx_crates stratum_ctx) (sx_btc stratum_ctx) ?job sample_submission
      (ss_enonce1_hex sample_session) (ss_version_mask sample_session) = Ok r"
    using r by (simp add: stratum_ctx_def sample_session_def session_new_def)
  show thesis
    by (rule that [OF params id job val new])
      (simp_all add: stratum_ctx_def sample_session_def decode_transactions_def miner_template_def)
qed

theorem new_share_credited_witness:
  "\<exists>c1 c2 msgs session' w' em. handle_submit stratum_ctx sample_submit_clock sample_submission sample_session (sample_world c1 c2)
     = (Ok (bool_response sample_submission False # msgs), session', w')
     \<and> sw_emissions w' = [em] \<and> pps_difficulty (em_pplns em) = Fin 4 \<and> pm_rejected_total (sw_metrics w') = 1"
proof (rule sample_submission_valid)
  fix c1 c2 job r rest
  note valid = new_share_credited [of sample_submission "Some ''user''" "''1''" "hex_encode sample_crates [1, 2, 3, 4, 5, 6, 7, 8]"
      "Some (lower_hex 8 20)" "lower_hex 8 30" rest 1 "sample_world c1 c2" job stratum_ctx sample_session r 1 "[]" sample_submit_clock]
  have low: "get_current_difficulty (ss_difficulty_adjuster sample_session) = Fin 4"
    "\<not> f64_le (Fin 4) (get_true_difficulty sample_crates h)" for h
    by (simp_all add: sample_session_def session_new_def get_current_difficulty_def adjuster_new_def get_true_difficulty_def
        sample_crates_def f64_le_def f64_eq_def)
  have ctx: "sx_crates stratum_ctx = sample_crates" "\<not> sx_ignore_difficulty stratum_ctx" by (simp_all add: stratum_ctx_def)
  have empty: "sw_emissions (sample_world c1 c2) = []" "pm_rejected_total (sw_metrics (sample_world c1 c2)) = 0"
    by (simp_all add: sample_world_def pool_metrics_default_def)
  assume "sr_params sample_submission = [Some ''user'', Some ''1'', Some (hex_encode sample_crates [1, 2, 3, 4, 5, 6, 7, 8]),
      Some (lower_hex 8 20), Some (lower_hex 8 30)] @ rest"
    "from_str_radix_16 ''1'' = Some (1 :: job_id)" "get_job (sw_tracker (sample_world c1 c2)) 1 = Some job"
    "validate_submission_difficulty (sx_crates stratum_ctx) (sx_btc stratum_ctx) job sample_submission
      (ss_enonce1_hex sample_session) (ss_version_mask sample_session) = Ok r"
    "fst (tracker_add_share 1 (header_hash (sx_btc stratum_ctx) (vr_header r)) (sw_tracker (sample_world c1 c2)))"
    "ss_user_id sample_session = Some 1" "sx_emissions_open stratum_ctx"
    "decode_transactions (sx_crates stratum_ctx) (sx_btc stratum_ctx) (jd_blocktemplate job)
      = (Ok [] :: (stratum_error, transaction list) outcome)"
  from valid [OF this] show ?thesis by (simp add: Let_def ctx low empty) blast
qed

theorem shares_credited_once_witness:
  "\<exists>c1 c2 r session' w' em. stratum_run stratum_ctx 0 1 (sample_world c1 c2)
     \<and> handle_submit stratum_ctx sample_submit_clock sample_submission sample_session (sample_world c1 c2) = (r, session', w')
     \<and> stratum_run stratum_ctx 0 1 w' \<and> sw_emissions w' = [em]
     \<and> (\<forall>clk message session r2 s2 w2. handle_submit stratum_ctx clk message session w' = (r2, s2, w2) \<longrightarrow>
          (\<exists>new. sw_emissions w2 = [em] @ new \<and> length new \<le> 1
             \<and> credit_of miner_btc em \<notin> set (map (credit_of miner_btc) new)))"
proof (rule sample_submission_valid)
  fix c1 c2 job r rest
  let ?w0 = "\<lparr>sw_tracker = tracker_new 0, sw_store = job_store, sw_metrics = pool_metrics_default 0, sw_last_block_submit = None,
    sw_blocks = [], sw_emissions = [], sw_notify = []\<rparr> :: stratum_world"
  have "stratum_run stratum_ctx 0 0 ?w0" by (rule stratum_run.start) simp_all
  from stratum_run.new_job [OF this, of 1 "(tracker_new 0)\<lparr>jt_latest_job_id := 1\<rparr>" 0 miner_template c1 c2 None]
  have run: "stratum_run stratum_ctx 0 1 (sample_world c1 c2)"
    by (simp add: get_next_job_id_def tracker_new_def sample_world_def)
  note valid = valid_share_credited [of sample_submission "Some ''user''" "''1''" "hex_encode sample_crates [1, 2, 3, 4, 5, 6, 7, 8]"
      "Some (lower_hex 8 20)" "lower_hex 8 30" rest 1 "sample_world c1 c2" job stratum_ctx sample_session r 1 "[]" sample_submit_clock]
  have empty: "sw_emissions (sample_world c1 c2) = []" by (simp add: sample_world_def)
  assume "sr_params sample_submission = [Some ''user'', Some ''1'', Some (hex_encode sample_crates [1, 2, 3, 4, 5, 6, 7, 8]),
      Some (lower_hex 8 20), Some (lower_hex 8 30)] @ rest"
    "from_str_radix_16 ''1'' = Some (1 :: job_id)" "get_job (sw_tracker (sample_world c1 c2)) 1 = Some job"
    "validate_submission_difficulty (sx_crates stratum_ctx) (sx_btc stratum_ctx) job sample_submission
      (ss_enonce1_hex sample_session) (ss_version_mask sample_session) = Ok r"
    "fst (tracker_add_share 1 (header_hash (sx_btc stratum_ctx) (vr_header r)) (sw_tracker (sample_world c1 c2)))"
    "ss_user_id sample_session = Some 1" "sx_emissions_open stratum_ctx"
    "decode_transactions (sx_crates stratum_ctx) (sx_btc stratum_ctx) (jd_blocktemplate job)
      = (Ok [] :: (stratum_error, transaction list) outcome)"
  from valid [OF this] empty obtain res session' w' em where sub: "handle_submit stratum_ctx sample_submit_clock
      sample_submission sample_session (sample_world c1 c2) = (res, session', w')" "sw_emissions w' = [em]"
    unfolding Let_def by force
  from stratum_run.submit [OF run sub(1)] have run': "stratum_run stratum_ctx 0 1 w'" .
  have later: "\<exists>new. sw_emissions w2 = [em] @ new \<and> length new \<le> 1 \<and> credit_of miner_btc em \<notin> set (map (credit_of miner_btc) new)"
    if "handle_submit stratum_ctx clk message session w' = (r2, s2, w2)" for clk message session r2 s2 w2
    using shares_credited_once [OF run', THEN conjunct2, rule_format, OF that] sub(2) by (auto simp: stratum_ctx_def)
  with run run' sub show ?thesis by blast
qed

end
