(* ===== verification/Stratum_Server.thy ===== *)
theory Stratum_Server
  imports Share_Submit
begin

text \<open>
  The stratum server: authorisation (\<open>stratum/message_handlers/authorize_response.rs\<close>), the
  dispatch of requests (\<open>stratum/message_handlers/mod.rs\<close>), and the life of a connection
  (\<open>stratum/server.rs\<close>) as steps over the events its loop waits for: the shutdown signal, a
  message on its channel, a line of the client, a failed read, the end of the stream and the
  tick of the monitor. Between two events of a connection the other tasks may change the world.
\<close>

section \<open>Authorisation\<close>

definition register_user ::
  "('addr, 'u) stratum_context \<Rightarrow> clock \<Rightarrow> string \<Rightarrow> session \<Rightarrow> stratum_world
     \<Rightarrow> (stratum_error, unit) outcome \<times> session \<times> stratum_world" where
  "register_user ctx clk btcaddress session w =
     (case handle_add_user clk (sx_writer_alive ctx) btcaddress (sw_store w) of
        (Ok user_id, st) \<Rightarrow> (Ok (), session\<lparr>ss_user_id := Some user_id\<rparr>, w\<lparr>sw_store := st\<rparr>)
      | (Err _, st) \<Rightarrow> (Err (AuthorizationFailure ''Failed to store user''), session, w\<lparr>sw_store := st\<rparr>)
      | (Panic, st) \<Rightarrow> (Panic, session, w\<lparr>sw_store := st\<rparr>))"

text \<open>The readings of the clock while a line is handled.\<close>

record line_clock =
  lc_store :: clock
  lc_metrics_secs :: u64
  lc_submit :: submit_clock

definition error_response :: "simple_request \<Rightarrow> string \<Rightarrow> stratum_message" where
  "error_response message text = ResponseMessage (new_error (sr_id message) (- 401) text)"

definition handle_authorize ::
  "('addr, 'u) stratum_context \<Rightarrow> line_clock \<Rightarrow> socket_addr \<Rightarrow> simple_request \<Rightarrow> session \<Rightarrow> stratum_world
     \<Rightarrow> (stratum_error, stratum_message list) outcome \<times> session \<times> stratum_world" where
  "handle_authorize ctx clk addr message session w =
     (if ss_username session \<noteq> None then (Err (AuthorizationFailure ''Already authorized''), session, w)
      else case sr_params message of
        [] \<Rightarrow> (Panic, session, w)
      | None # _ \<Rightarrow> (Ok [error_response message ''Empty username''], session, w)
      | Some username # rest \<Rightarrow>
          (case validate_username (sx_from_str ctx) (sx_require_network ctx) username (sx_validate_addresses ctx) (sx_network ctx) of
             Panic \<Rightarrow> (Panic, session, w)
           | Err e \<Rightarrow>
               if \<not> ss_auth_failed_once session
               then (Ok [error_response message (''Invalid username '' @ sx_error_text ctx e)],
                     session\<lparr>ss_auth_failed_once := True\<rparr>, w)
               else (Err (AuthorizationFailure ''Second invalid username. Disconnecting.''), session, w)
           | Ok (address, worker) \<Rightarrow>
               let session1 = session\<lparr>ss_username := Some username, ss_btcaddress := Some address, ss_workername := worker\<rparr>
               in case rest of
                    [] \<Rightarrow> (Panic, session1, w)
                  | password # _ \<Rightarrow>
                      (case register_user ctx (lc_store clk) address (session1\<lparr>ss_password := password\<rparr>) w of
                         (Err e, session2, w2) \<Rightarrow> (Err e, session2, w2)
                       | (Panic, session2, w2) \<Rightarrow> (Panic, session2, w2)
                       | (Ok _, session2, w2) \<Rightarrow>
                           (Ok [ResponseMessage (new_ok (sr_id message) (JBool True)),
                                SetDifficulty (set_difficulty_new (sx_start_difficulty ctx))],
                            session2\<lparr>ss_difficulty_adjuster :=
                              set_current_difficulty (ss_difficulty_adjuster session2) (sx_start_difficulty ctx)\<rparr>,
                            w2\<lparr>sw_metrics := snd (metrics_handle_message (lc_metrics_secs clk)
                                 (IncrementWorkerCount address (unwrap_or [] worker)) (sw_metrics w2)),
                               sw_notify := sw_notify w2 @ [NotifyClient addr True]\<rparr>))))"

section \<open>Requests\<close>

definition handle_simple_request ::
  "('addr, 'u) stratum_context \<Rightarrow> line_clock \<Rightarrow> socket_addr \<Rightarrow> simple_request \<Rightarrow> session \<Rightarrow> stratum_world
     \<Rightarrow> (stratum_error, stratum_message list) outcome \<times> session \<times> stratum_world" where
  "handle_simple_request ctx clk addr message session w =
     (if sr_method message = ''mining.subscribe'' then
        (case handle_subscribe message (sx_start_difficulty ctx) session of (r, session') \<Rightarrow> (r, session', w))
      else if sr_method message = ''mining.authorize'' then handle_authorize ctx clk addr message session w
      else if sr_method message = ''mining.submit'' then handle_submit ctx (lc_submit clk) message session w
      else (Err (InvalidMethod (sr_method message)), session, w))"

definition handle_stratum_request ::
  "('addr, 'u) stratum_context \<Rightarrow> line_clock \<Rightarrow> socket_addr \<Rightarrow> stratum_request \<Rightarrow> session \<Rightarrow> stratum_world
     \<Rightarrow> (stratum_error, stratum_message list) outcome \<times> session \<times> stratum_world" where
  "handle_stratum_request ctx clk addr message session w =
     (case message of
        MiningConfigureRequest _ \<Rightarrow> (handle_configure message session, session, w)
      | SuggestDifficultyRequest suggest \<Rightarrow>
          (case handle_suggest_difficulty suggest session of (r, session') \<Rightarrow> (r, session', w))
      | SimpleRequest simple \<Rightarrow> handle_simple_request ctx clk addr simple session w)"

section \<open>Connections\<close>

text \<open>
  A connection has its session and the lines written to the client; the socket takes \<open>co_writable\<close>
  more writes before it fails, or any number.
\<close>

record connection =
  co_session :: session
  co_sent :: "string list"
  co_writable :: "nat option"

definition write_line :: "string \<Rightarrow> connection \<Rightarrow> connection option" where
  "write_line text c =
     (if co_writable c = Some 0 then None
      else Some (c\<lparr>co_sent := co_sent c @ [text], co_writable := map_option (\<lambda>k. k - 1) (co_writable c)\<rparr>))"

fun write_responses ::
  "('addr, 'u) stratum_context \<Rightarrow> stratum_message list \<Rightarrow> connection \<Rightarrow> bool \<times> connection" where
  "write_responses ctx [] c = (True, c)"
| "write_responses ctx (response # responses) c =
     (case sx_message_text ctx response of
        None \<Rightarrow> (False, c)
      | Some text \<Rightarrow>
          (case write_line text c of None \<Rightarrow> (False, c) | Some c' \<Rightarrow> write_responses ctx responses c'))"

text \<open>How a connection stands after an event: still open, closed, ended by an error, or its task panicked.\<close>

datatype connection_status = Open | Closed | Failed | Crashed

definition process_incoming_message ::
  "('addr, 'u) stratum_context \<Rightarrow> line_clock \<Rightarrow> socket_addr \<Rightarrow> string \<Rightarrow> connection \<Rightarrow> stratum_world
     \<Rightarrow> connection_status \<times> connection \<times> stratum_world" where
  "process_incoming_message ctx clk addr line c w =
     (case sx_parse_request ctx line of
        None \<Rightarrow> (Open, c, w)
      | Some message \<Rightarrow>
          (case handle_stratum_request ctx clk addr message (co_session c) w of
             (Ok responses, session, w') \<Rightarrow>
               (case write_responses ctx responses (c\<lparr>co_session := session\<rparr>) of
                  (True, c') \<Rightarrow> (Open, c', w')
                | (False, c') \<Rightarrow> (Failed, c', w'))
           | (Err _, session, w') \<Rightarrow> (Failed, c\<lparr>co_session := session\<rparr>, w')
           | (Panic, session, w') \<Rightarrow> (Crashed, c\<lparr>co_session := session\<rparr>, w')))"

datatype connection_event =
    ShutdownSignal
  | ChannelMessage string
  | LineRead line_clock string
  | ReadError
  | EndOfStream
  | MonitorTick system_time

text \<open>The end of the loop: the worker of the session is no longer counted as active.\<close>

definition decrement_worker_count :: "u64 \<Rightarrow> session \<Rightarrow> stratum_world \<Rightarrow> stratum_world" where
  "decrement_worker_count now session w =
     w\<lparr>sw_metrics := snd (metrics_handle_message now
         (DecrementWorkerCount (ss_btcaddress session) (unwrap_or [] (ss_workername session))) (sw_metrics w))\<rparr>"

definition close_connection :: "u64 \<Rightarrow> connection \<Rightarrow> stratum_world \<Rightarrow> connection_status \<times> connection \<times> stratum_world" where
  "close_connection now c w = (Closed, c, decrement_worker_count now (co_session c) w)"

definition connection_step ::
  "('addr, 'u) stratum_context \<Rightarrow> socket_addr \<Rightarrow> u64 \<Rightarrow> connection_event \<Rightarrow> connection \<Rightarrow> stratum_world
     \<Rightarrow> connection_status \<times> connection \<times> stratum_world" where
  "connection_step ctx addr now event c w =
     (case event of
        ShutdownSignal \<Rightarrow> close_connection now c w
      | ChannelMessage message \<Rightarrow>
          if ss_username (co_session c) = None then (Open, c, w)
          else (case write_line message c of None \<Rightarrow> close_connection now c w | Some c' \<Rightarrow> (Open, c', w))
      | LineRead clk line \<Rightarrow>
          if line = [] then (Open, c, w) else process_incoming_message ctx clk addr line c w
      | ReadError \<Rightarrow> (Failed, c, w)
      | EndOfStream \<Rightarrow> close_connection now c w
      | MonitorTick t \<Rightarrow>
          (case check_session_timeouts (co_session c) t of
             Ok _ \<Rightarrow> (Open, c, w)
           | _ \<Rightarrow> close_connection now c w))"

text \<open>\<open>handle_connection\<close>: the session is new, and the loop ends with the connection.\<close>

definition connection_new :: "('addr, 'u) stratum_context \<Rightarrow> i32 \<Rightarrow> u32 \<Rightarrow> system_time \<Rightarrow> nat option \<Rightarrow> connection" where
  "connection_new ctx version_mask generated_id now writable =
     \<lparr>co_session = session_new (sx_crates ctx) generated_id now (sx_start_difficulty ctx) (sx_minimum_difficulty ctx)
        (sx_maximum_difficulty ctx) version_mask,
      co_sent = [], co_writable = writable\<rparr>"

inductive connection_run ::
  "('addr, 'u) stratum_context \<Rightarrow> socket_addr \<Rightarrow> i32 \<Rightarrow> u32 \<Rightarrow> system_time \<Rightarrow> connection_status \<Rightarrow> connection
     \<Rightarrow> stratum_world \<Rightarrow> bool"
  for ctx addr version_mask generated_id connected_at where
  accepted: "connection_run ctx addr version_mask generated_id connected_at Open
    (connection_new ctx version_mask generated_id connected_at writable) w"
| event: "connection_run ctx addr version_mask generated_id connected_at Open c w \<Longrightarrow>
    connection_step ctx addr now event c w = (status, c', w')
    \<Longrightarrow> connection_run ctx addr version_mask generated_id connected_at status c' w'"
| others: "connection_run ctx addr version_mask generated_id connected_at status c w \<Longrightarrow>
    connection_run ctx addr version_mask generated_id connected_at status c w'"

section \<open>The server\<close>

text \<open>The builder: what must be set, and the defaults of the two optional flags.\<close>

record stratum_server_builder =
  sb_hostname :: "string option"
  sb_port :: "16 word option"
  sb_start_difficulty :: "f64 option"
  sb_minimum_difficulty :: "f64 option"
  sb_maximum_difficulty :: "f64 option option"
  sb_ignore_difficulty :: "bool option"
  sb_validate_addresses :: "bool option"
  sb_network :: "network option"
  sb_version_mask :: "i32 option"
  sb_shutdown_rx :: "unit option"
  sb_connections_handle :: "unit option"
  sb_emissions_tx :: "unit option"
  sb_zmqpubhashblock :: "string option"
  sb_chain_store_handle :: "unit option"

record stratum_server =
  sv_hostname :: string
  sv_port :: "16 word"
  sv_start_difficulty :: f64
  sv_minimum_difficulty :: f64
  sv_maximum_difficulty :: "f64 option"
  sv_ignore_difficulty :: bool
  sv_validate_addresses :: bool
  sv_network :: network
  sv_version_mask :: i32

definition server_build :: "stratum_server_builder \<Rightarrow> (string, stratum_server) outcome" where
  "server_build b =
     and_then (ok_or ''hostname is required'' (sb_hostname b)) (\<lambda>hostname.
     and_then (ok_or ''port is required'' (sb_port b)) (\<lambda>port.
     and_then (ok_or ''start_difficulty is required'' (sb_start_difficulty b)) (\<lambda>start_difficulty.
     and_then (ok_or ''minimum_difficulty is required'' (sb_minimum_difficulty b)) (\<lambda>minimum_difficulty.
     and_then (ok_or ''maximum_difficulty is required'' (sb_maximum_difficulty b)) (\<lambda>maximum_difficulty.
     and_then (ok_or ''network is required'' (sb_network b)) (\<lambda>network.
     and_then (ok_or ''version_mask is required'' (sb_version_mask b)) (\<lambda>version_mask.
     and_then (ok_or ''shutdown_rx is required'' (sb_shutdown_rx b)) (\<lambda>_.
     and_then (ok_or ''connections_handle is required'' (sb_connections_handle b)) (\<lambda>_.
     and_then (ok_or ''shares_tx is required'' (sb_emissions_tx b)) (\<lambda>_.
     and_then (ok_or ''chain store handle is required'' (sb_chain_store_handle b)) (\<lambda>_.
       Ok \<lparr>sv_hostname = hostname, sv_port = port, sv_start_difficulty = start_difficulty,
           sv_minimum_difficulty = minimum_difficulty, sv_maximum_difficulty = maximum_difficulty,
           sv_ignore_difficulty = unwrap_or False (sb_ignore_difficulty b),
           sv_validate_addresses = unwrap_or True (sb_validate_addresses b),
           sv_network = network, sv_version_mask = version_mask\<rparr>)))))))))))"

text \<open>A new client: its channel is registered and its connection gets the settings of the server.\<close>

definition server_context :: "stratum_server \<Rightarrow> ('addr, 'u) stratum_context \<Rightarrow> ('addr, 'u) stratum_context" where
  "server_context server ctx =
     ctx\<lparr>sx_start_difficulty := sv_start_difficulty server, sx_minimum_difficulty := sv_minimum_difficulty server,
       sx_maximum_difficulty := sv_maximum_difficulty server, sx_ignore_difficulty := sv_ignore_difficulty server,
       sx_validate_addresses := sv_validate_addresses server, sx_network := sv_network server\<rparr>"

definition accept_client ::
  "stratum_server \<Rightarrow> ('addr, 'u) stratum_context \<Rightarrow> socket_addr \<Rightarrow> u32 \<Rightarrow> system_time \<Rightarrow> nat option \<Rightarrow> client_connections
     \<Rightarrow> connection \<times> nat \<times> client_connections" where
  "accept_client server ctx addr generated_id now writable clients =
     (case connections_add addr clients of
        (channel, clients') \<Rightarrow>
          (connection_new (server_context server ctx) (sv_version_mask server) generated_id now writable, channel, clients'))"

section \<open>Lemmas\<close>

text \<open>
  What holds of the session of an open connection: its identifier, extranonce, version mask and start
  are those the connection was accepted with; it has an address, worker and user exactly when it was authorised, namely those of the valid user name;
  and the difficulty is one the pool allows.
\<close>

definition session_ok :: "('addr, 'u) stratum_context \<Rightarrow> i32 \<Rightarrow> u32 \<Rightarrow> system_time \<Rightarrow> session \<Rightarrow> bool" where
  "session_ok ctx version_mask generated_id connected_at s \<longleftrightarrow>
     ss_id s = hex_encode (sx_crates ctx) (be_bytes 4 (unat generated_id))
     \<and> ss_enonce1 s = generated_id \<and> ss_enonce1_hex s = hex_encode (sx_crates ctx) (to_le_bytes generated_id)
     \<and> ss_version_mask s = version_mask \<and> ss_connected_at s = connected_at
     \<and> (case ss_username s of
          None \<Rightarrow> ss_btcaddress s = None \<and> ss_workername s = None \<and> ss_user_id s = None \<and> ss_last_share_time s = None
        | Some username \<Rightarrow>
            (\<exists>address. validate_username (sx_from_str ctx) (sx_require_network ctx) username (sx_validate_addresses ctx)
                (sx_network ctx) = Ok (address, ss_workername s) \<and> ss_btcaddress s = Some address) \<and> ss_user_id s \<noteq> None)
     \<and> adjuster_inv (ss_difficulty_adjuster s)
     \<and> pool_minimum_difficulty (ss_difficulty_adjuster s) = sx_minimum_difficulty ctx
     \<and> pool_maximum_difficulty (ss_difficulty_adjuster s) = sx_maximum_difficulty ctx
     \<and> (\<forall>d. ss_suggested_difficulty s = Some d \<longrightarrow> within_pool_bounds (ss_difficulty_adjuster s) d)"

definition settings_ok :: "('addr, 'u) stratum_context \<Rightarrow> bool" where
  "settings_ok ctx \<longleftrightarrow> exp_law (sx_exp ctx) \<and> f64_le (Fin 0) (sx_minimum_difficulty ctx)
     \<and> f64_le (sx_minimum_difficulty ctx) (sx_start_difficulty ctx)
     \<and> below_maximum (sx_maximum_difficulty ctx) (sx_start_difficulty ctx)"

lemma record_share_submission_bounds:
  "pool_minimum_difficulty (snd (record_share_submission exp_fn a sd job sugg now)) = pool_minimum_difficulty a"
  "pool_maximum_difficulty (snd (record_share_submission exp_fn a sd job sugg now)) = pool_maximum_difficulty a"
  by (simp_all add: record_share_submission_def Let_def record_decay_frame)

lemma set_current_inv:
  assumes "adjuster_inv a" "within_pool_bounds a d"
  shows "adjuster_inv (set_current_difficulty a d)"
  using assms by (simp add: set_current_difficulty_def adjuster_inv_def within_pool_bounds_def)

lemma start_in_bounds:
  assumes "settings_ok ctx" "session_ok ctx version_mask generated_id connected_at s"
  shows "within_pool_bounds (ss_difficulty_adjuster s) (sx_start_difficulty ctx)"
  using assms by (simp add: settings_ok_def session_ok_def within_pool_bounds_def)

lemma session_ok_difficulty:
  assumes "session_ok ctx version_mask generated_id connected_at s" "within_pool_bounds (ss_difficulty_adjuster s) d"
  shows "session_ok ctx version_mask generated_id connected_at (s\<lparr>ss_difficulty_adjuster := set_current_difficulty (ss_difficulty_adjuster s) d\<rparr>)"
  using assms set_current_inv
  by (auto simp: session_ok_def set_current_difficulty_def within_pool_bounds_def split: option.splits)

lemma session_new_ok:
  assumes "settings_ok ctx"
  shows "session_ok ctx version_mask generated_id connected_at (co_session (connection_new ctx version_mask generated_id connected_at writable))"
  using assms adjuster_new_inv
  by (auto simp: session_ok_def connection_new_def session_new_def settings_ok_def) (simp_all add: adjuster_new_def)

lemma handle_submit_session:
  assumes "handle_submit ctx clk message s w = (r, s', w')"
  shows "s' = s \<or> ss_user_id s \<noteq> None \<and> (\<exists>t sd job now. s' = s\<lparr>ss_last_share_time := Some t,
      ss_difficulty_adjuster := snd (record_share_submission (sx_exp ctx) (ss_difficulty_adjuster s) sd job
        (ss_suggested_difficulty s) now)\<rparr>)"
proof -
  have credit: "s2 = s \<or> ss_user_id s \<noteq> None \<and> (\<exists>t sd job now. s2 = s\<lparr>ss_last_share_time := Some t,
      ss_difficulty_adjuster := snd (record_share_submission (sx_exp ctx) (ss_difficulty_adjuster s) sd job
        (ss_suggested_difficulty s) now)\<rparr>)"
    if "credit_share ctx clk message id_text job_id job result s w1 = (r2, s2, w2)" for id_text job_id job result w1 r2 s2 w2
    using that
    by (force simp: credit_share_def Let_def outcome_simps split_def split: if_split_asm outcome.split_asm option.split_asm)
  show ?thesis
    using assms credit
    by (auto simp: handle_submit_def Let_def split: if_split_asm outcome.split_asm option.split_asm prod.split_asm)
qed

lemma handle_submit_session_ok:
  assumes "settings_ok ctx" "session_ok ctx version_mask generated_id connected_at s" "handle_submit ctx clk message s w = (r, s', w')"
  shows "session_ok ctx version_mask generated_id connected_at s'"
  using handle_submit_session [OF assms(3)]
proof (elim disjE conjE exE)
  fix t sd job now
  assume user: "ss_user_id s \<noteq> None" and s': "s' = s\<lparr>ss_last_share_time := Some t,
      ss_difficulty_adjuster := snd (record_share_submission (sx_exp ctx) (ss_difficulty_adjuster s) sd job
        (ss_suggested_difficulty s) now)\<rparr>"
  have "adjuster_inv (snd (record_share_submission (sx_exp ctx) (ss_difficulty_adjuster s) sd job (ss_suggested_difficulty s) now))"
    using assms(1,2) by (intro record_share_submission_inv) (simp_all add: settings_ok_def session_ok_def)
  then show ?thesis
    using assms(2) user by (auto simp: s' session_ok_def within_pool_bounds_def record_share_submission_bounds split: option.splits)
qed (use assms(2) in simp)

lemma handle_authorize_session_ok:
  assumes "settings_ok ctx" "session_ok ctx version_mask generated_id connected_at s" "handle_authorize ctx clk addr message s w = (Ok msgs, s', w')"
  shows "session_ok ctx version_mask generated_id connected_at s'"
proof (cases "ss_username s' = ss_username s")
  case True
  with assms show ?thesis
    by (auto simp: handle_authorize_def register_user_def session_ok_def Let_def split: if_split_asm outcome.split_asm option.split_asm list.split_asm prod.split_asm)
next
  case False
  with assms(3) obtain username address worker password user_id where
    "validate_username (sx_from_str ctx) (sx_require_network ctx) username (sx_validate_addresses ctx) (sx_network ctx) = Ok (address, worker)"
    and s': "s' = s\<lparr>ss_username := Some username, ss_btcaddress := Some address, ss_workername := worker, ss_password := password,
      ss_user_id := Some user_id,
      ss_difficulty_adjuster := set_current_difficulty (ss_difficulty_adjuster s) (sx_start_difficulty ctx)\<rparr>"
    by (auto simp: handle_authorize_def register_user_def Let_def
        split: if_split_asm outcome.split_asm option.split_asm list.split_asm prod.split_asm)
  moreover note session_ok_difficulty [OF assms(2) start_in_bounds [OF assms(1,2)]]
  ultimately show ?thesis by (auto simp: session_ok_def split: option.splits)
qed

lemma handle_suggest_session_ok:
  assumes "session_ok ctx version_mask generated_id connected_at s" "handle_suggest_difficulty message s = (r, s')"
  shows "session_ok ctx version_mask generated_id connected_at s'"
proof (cases "sd_params message")
  case (Cons param rest)
  let ?d = "apply_difficulty_constraints (ss_difficulty_adjuster s) (f64_of_nat (unat param)) (Some (f64_of_nat (unat param)))"
  have "adjuster_inv (ss_difficulty_adjuster s)" using assms(1) by (simp add: session_ok_def)
  then have d: "within_pool_bounds (ss_difficulty_adjuster s) ?d"
    by (intro constraints_within_bounds) (simp_all add: adjuster_inv_def)
  from Cons assms(2) have s': "s' = s\<lparr>ss_suggested_difficulty := Some ?d,
      ss_difficulty_adjuster := set_current_difficulty (ss_difficulty_adjuster s) ?d\<rparr>"
    by (simp add: handle_suggest_difficulty_def Let_def)
  from session_ok_difficulty [OF assms(1) d] d show ?thesis
    by (auto simp: s' session_ok_def set_current_difficulty_def within_pool_bounds_def split: option.splits)
qed (use assms in \<open>simp add: handle_suggest_difficulty_def\<close>)

lemma handle_request_session_ok:
  assumes "settings_ok ctx" "session_ok ctx version_mask generated_id connected_at s" "handle_stratum_request ctx clk addr message s w = (Ok msgs, s', w')"
  shows "session_ok ctx version_mask generated_id connected_at s'"
proof (cases message)
  case (SimpleRequest simple)
  have "session_ok ctx version_mask generated_id connected_at s1" if "handle_subscribe simple (sx_start_difficulty ctx) s = (Ok msgs, s1)" for s1
    using that session_ok_difficulty [OF assms(2) start_in_bounds [OF assms(1,2)]]
    by (auto simp: handle_subscribe_def session_ok_def split: if_split_asm option.splits)
  then show ?thesis
    using assms SimpleRequest handle_authorize_session_ok handle_submit_session_ok
    by (auto simp: handle_stratum_request_def handle_simple_request_def split: if_split_asm prod.split_asm)
qed (use assms handle_suggest_session_ok in \<open>auto simp: handle_stratum_request_def split: prod.split_asm\<close>)

lemma write_responses_session: "write_responses ctx responses c = (b, c') \<Longrightarrow> co_session c' = co_session c"
  by (induction ctx responses c rule: write_responses.induct) (auto simp: write_line_def split: option.split_asm if_split_asm)

lemma connection_step_session_ok:
  assumes "settings_ok ctx" "session_ok ctx version_mask generated_id connected_at (co_session c)" "connection_step ctx addr now event c w = (Open, c', w')"
  shows "session_ok ctx version_mask generated_id connected_at (co_session c')"
  using assms handle_request_session_ok [OF assms(1,2)]
  by (auto simp: connection_step_def process_incoming_message_def close_connection_def write_line_def dest!: write_responses_session
      split: connection_event.split_asm if_split_asm option.split_asm outcome.split_asm prod.split_asm bool.split_asm)

lemma connection_run_ok:
  assumes "connection_run ctx addr version_mask generated_id connected_at status c w" "settings_ok ctx" "status = Open"
  shows "session_ok ctx version_mask generated_id connected_at (co_session c)"
  using assms
proof (induction rule: connection_run.induct)
  case (accepted writable w)
  then show ?case using session_new_ok by blast
next
  case (event c w now ev status c' w')
  then show ?case using connection_step_session_ok by blast
qed simp

text \<open>Whether the statistics count a worker as active.\<close>

definition worker_active :: "pool_metrics \<Rightarrow> string \<Rightarrow> string \<Rightarrow> bool" where
  "worker_active m a n \<longleftrightarrow>
     (\<exists>u wk. map_of (pm_users m) a = Some u \<and> map_of (us_workers u) n = Some wk \<and> wk_active wk)"

lemma worker_active_messages:
  "worker_active m a n \<Longrightarrow> worker_active (snd (metrics_handle_message now (RecordShareAccepted a' n' d t) m)) a n"
  "worker_active m a n \<Longrightarrow> worker_active (snd (metrics_handle_message now RecordShareRejected m)) a n"
  "worker_active m a n \<Longrightarrow> worker_active (snd (metrics_handle_message now (IncrementWorkerCount a' n') m)) a n"
  "worker_active (snd (metrics_handle_message now (IncrementWorkerCount a n) m)) a n"
  "\<not> worker_active (snd (metrics_handle_message now (DecrementWorkerCount (Some a) n) m)) a n"
  by (auto simp: worker_active_def message_defs map_of_hm_update map_of_hm_adjust split: option.splits)

lemma handle_submit_keeps_active:
  assumes "handle_submit ctx clk message s w = (r, s', w')" "worker_active (sw_metrics w) a n"
  shows "worker_active (sw_metrics w') a n"
proof -
  have credit: "worker_active (sw_metrics w2) a n"
    if "credit_share ctx clk message id_text job_id job result s w1 = (r2, s2, w2)" "sw_metrics w1 = sw_metrics w"
    for id_text job_id job result w1 r2 s2 w2
    using that assms(2)
    by (auto simp: credit_share_def Let_def record_share_accepted_message_def worker_active_messages(1,2) outcome_simps
        split: if_split_asm outcome.split_asm option.split_asm prod.split_asm)
  show ?thesis
    using assms credit submit_found_block_keeps
    by (fastforce simp: handle_submit_def Let_def split: if_split_asm outcome.split_asm option.split_asm prod.split_asm)
qed

lemma handle_authorize_keeps_active:
  assumes "handle_authorize ctx clk addr message s w = (r, s', w')" "worker_active (sw_metrics w) a n"
  shows "worker_active (sw_metrics w') a n"
  using assms
  by (auto simp: handle_authorize_def register_user_def Let_def worker_active_messages(3)
      split: if_split_asm outcome.split_asm option.split_asm list.split_asm prod.split_asm)

lemma handle_request_keeps_active:
  assumes "handle_stratum_request ctx clk addr message s w = (r, s', w')" "worker_active (sw_metrics w) a n"
  shows "worker_active (sw_metrics w') a n"
  using assms handle_submit_keeps_active handle_authorize_keeps_active
  by (auto simp: handle_stratum_request_def handle_simple_request_def split: stratum_request.split_asm if_split_asm prod.split_asm)

section \<open>Properties\<close>

text \<open>
  C11: sessions are well formed: whatever lines, messages and ticks a connection has seen, and
  whatever the other tasks did meanwhile, while it is open its extranonce, in both its forms,
  its version mask and the moment it connected are those it was accepted with. It has a user, an address and
  a worker name exactly when the client was authorised, and they are those of a user name that
  passed validation; only then was a share counted. Its difficulty and the difficulty it
  suggested are within the pool's limits, provided the start difficulty is and \<open>exp\<close> is at least
  one on the arguments it is given.
\<close>

theorem session_well_formed:
  assumes "settings_ok ctx" "connection_run ctx addr version_mask generated_id connected_at Open c w"
  shows "ss_enonce1 (co_session c) = generated_id
    \<and> ss_enonce1_hex (co_session c) = hex_encode (sx_crates ctx) (to_le_bytes generated_id)
    \<and> ss_version_mask (co_session c) = version_mask \<and> ss_connected_at (co_session c) = connected_at
    \<and> session_ok ctx version_mask generated_id connected_at (co_session c)"
  using connection_run_ok [OF assms(2,1)] by (simp add: session_ok_def)

text \<open>
  C17: authorising a miner: when the request is answered with success the user name was valid, the
  store has a user with its address under the identifier of the session, the statistics count the
  worker as active, a job for this client is requested from the notifier and the difficulty is the
  one the pool starts with; a second request of the session ends the connection.
\<close>

theorem authorized_miner_registered:
  assumes "accounting_inv (sw_store w)"
    and "user_cf (sw_store w) (fst (get_next_id (clock_millis (lc_store clk)) (id_sequence (sw_store w)))) = Absent"
    and "handle_authorize ctx clk addr message s w = (Ok msgs, s', w')" "ss_username s' \<noteq> None"
  shows "\<exists>username address worker user_id u rest.
      sr_params message = Some username # rest \<and> ss_username s' = Some username
      \<and> validate_username (sx_from_str ctx) (sx_require_network ctx) username (sx_validate_addresses ctx) (sx_network ctx)
          = Ok (address, worker)
      \<and> ss_btcaddress s' = Some address \<and> ss_workername s' = worker \<and> ss_user_id s' = Some user_id
      \<and> user_cf (sw_store w') user_id = Stored u \<and> su_btcaddress u = address
      \<and> worker_active (sw_metrics w') address (unwrap_or [] worker)
      \<and> sw_notify w' = sw_notify w @ [NotifyClient addr True]
      \<and> get_current_difficulty (ss_difficulty_adjuster s') = sx_start_difficulty ctx
      \<and> (\<forall>message'. \<exists>e. fst (handle_authorize ctx clk addr message' s' w') = Err (AuthorizationFailure e))"
proof -
  obtain username address worker password rest user_id st where parts:
    "sr_params message = Some username # password # rest"
    "validate_username (sx_from_str ctx) (sx_require_network ctx) username (sx_validate_addresses ctx) (sx_network ctx)
       = Ok (address, worker)"
    and add: "handle_add_user (lc_store clk) (sx_writer_alive ctx) address (sw_store w) = (Ok user_id, st)"
    and s': "ss_username s' = Some username" "ss_btcaddress s' = Some address" "ss_workername s' = worker"
      "ss_user_id s' = Some user_id" "get_current_difficulty (ss_difficulty_adjuster s') = sx_start_difficulty ctx"
    and w': "sw_store w' = st" "sw_notify w' = sw_notify w @ [NotifyClient addr True]"
      "sw_metrics w' = snd (metrics_handle_message (lc_metrics_secs clk) (IncrementWorkerCount address (unwrap_or [] worker)) (sw_metrics w))"
    using assms(3,4)
    by (auto simp: handle_authorize_def register_user_def Let_def get_current_difficulty_def set_current_difficulty_def
        split: if_split_asm outcome.split_asm option.split_asm list.split_asm prod.split_asm)
  have "add_user (clock_millis (lc_store clk)) (clock_secs (lc_store clk)) address (sw_store w) = (Ok user_id, st)"
    using add by (auto simp: handle_add_user_def request_def outcome_simps split: if_split_asm prod.split_asm)
  from add_user_stored [OF assms(1) this assms(2)] obtain u where "user_cf st user_id = Stored u" "su_btcaddress u = address" by blast
  moreover have "fst (handle_authorize ctx clk addr message' s' w') = Err (AuthorizationFailure ''Already authorized'')" for message'
    by (simp add: handle_authorize_def s')
  ultimately show ?thesis using parts s' w' worker_active_messages(4) by fastforce
qed

text \<open>
  C18: how the end of a connection shows in the statistics: a connection that is closed (by a
  signal, the client, a timeout or a job that cannot be written) leaves its worker inactive, also
  when the same worker has another connection; a connection that ends in an error (an unreadable
  line, a request that is refused, an answer that cannot be written) or in a panic leaves a worker
  that was active counted as active for ever.
\<close>

theorem failed_connection_stays_active:
  assumes "connection_step ctx addr now event c w = (status, c', w')"
    and "ss_btcaddress (co_session c) = Some a" "unwrap_or [] (ss_workername (co_session c)) = n"
  shows "(status = Closed \<longrightarrow> \<not> worker_active (sw_metrics w') a n)
    \<and> (status \<noteq> Closed \<longrightarrow> worker_active (sw_metrics w) a n \<longrightarrow> worker_active (sw_metrics w') a n)"
  using assms worker_active_messages(5) handle_request_keeps_active
  by (fastforce simp: connection_step_def close_connection_def decrement_worker_count_def process_incoming_message_def
      split: connection_event.split_asm if_split_asm option.split_asm outcome.split_asm prod.split_asm bool.split_asm)

text \<open>
  C39: which connections the monitor closes: one that is not yet subscribed and authorised, 900
  seconds after it was made or when the clock went back behind that moment; and one that is, 900
  seconds after its last share. A subscribed and authorised client that never submits a share is
  never closed, however long it is connected.
\<close>

theorem monitor_closes_idle:
  "fst (connection_step ctx addr now (MonitorTick t) c w) =
     (let s = co_session c; since = (if ss_subscribed s \<and> ss_username s \<noteq> None then ss_last_share_time s else Some (ss_connected_at s))
      in case since of None \<Rightarrow> Open | Some t0 \<Rightarrow> if t < t0 \<or> 900 * 10 ^ 9 \<le> t - t0 then Closed else Open)"
  by (auto simp: connection_step_def check_session_timeouts_def close_connection_def duration_since_def from_secs_def
      FIRST_SHARE_TIMEOUT_def INACTIVITY_TIMEOUT_def Let_def split: option.splits)

section \<open>Instances\<close>

definition authorize_request :: "string \<Rightarrow> simple_request" where
  "authorize_request username =
     \<lparr>sr_id = Some (IdNumber 2), sr_method = ''mining.authorize'', sr_params = [Some username, Some ''x'']\<rparr>"

text \<open>A server whose clients send bare user names to be authorised.\<close>

definition server_ctx :: "(string, string) stratum_context" where
  "server_ctx = stratum_ctx\<lparr>sx_exp := (\<lambda>_. Fin 2), sx_parse_request := (\<lambda>line. Some (SimpleRequest (authorize_request line)))\<rparr>"

definition server_world :: stratum_world where
  "server_world = (sample_world [] [])\<lparr>sw_store := empty_store\<rparr>"

definition server_clock :: line_clock where
  "server_clock = \<lparr>lc_store = \<lparr>clock_millis = CUSTOM_EPOCH + 1, clock_secs = 9\<rparr>, lc_metrics_secs = 9, lc_submit = sample_submit_clock\<rparr>"

lemma empty_store_accounting:
  "accounting_inv empty_store" "user_cf empty_store 4194304 = Absent" "id_sequence empty_store = 0"
  "user_index_cf empty_store ''bob'' = Absent"
  using sample_accounting_inv
  by (simp_all add: accounting_inv_def empty_store_def accounting_store.defs) (simp_all add: sample_accounting_def)

lemma bob_authorized:
  "\<exists>msgs s' w'. handle_authorize server_ctx server_clock 1 (authorize_request ''bob.rig'')
      (co_session (connection_new server_ctx 5 9 0 None)) server_world = (Ok msgs, s', w')
    \<and> ss_username s' = Some ''bob.rig'' \<and> ss_btcaddress s' = Some ''bob'' \<and> ss_workername s' = Some ''rig''"
proof -
  obtain st where "handle_add_user (lc_store server_clock) True ''bob'' empty_store = (Ok 4194304, st)"
    by (simp add: handle_add_user_def request_def add_user_def server_clock_def empty_store_accounting sample_next_id)
  moreover have "sx_writer_alive server_ctx" "sw_store server_world = empty_store" by (simp_all add: server_ctx_def stratum_ctx_def server_world_def)
  ultimately have reg: "register_user server_ctx (lc_store server_clock) ''bob'' s server_world
      = (Ok (), s\<lparr>ss_user_id := Some 4194304\<rparr>, server_world\<lparr>sw_store := st\<rparr>)" for s
    by (simp add: register_user_def)
  have "validate_username (sx_from_str server_ctx) (sx_require_network server_ctx) ''bob.rig'' (sx_validate_addresses server_ctx)
      (sx_network server_ctx) = Ok (''bob'', Some ''rig'')"
    by (simp add: validate_username_def split_username_def is_dot_def MAX_USERNAME_LENGTH_def server_ctx_def stratum_ctx_def)
  with reg show ?thesis
    by (simp add: handle_authorize_def authorize_request_def connection_new_def session_new_def)
qed

theorem session_well_formed_witness:
  "\<exists>c w. connection_run server_ctx 1 5 9 0 Open c w \<and> ss_username (co_session c) = Some ''bob.rig''
     \<and> ss_enonce1 (co_session c) = 9 \<and> session_ok server_ctx 5 9 0 (co_session c)"
proof -
  let ?c = "connection_new server_ctx 5 9 0 None"
  obtain msgs s' w' where auth: "handle_authorize server_ctx server_clock 1 (authorize_request ''bob.rig'')
      (co_session ?c) server_world = (Ok msgs, s', w')" "ss_username s' = Some ''bob.rig''" using bob_authorized by blast
  have texts: "sx_message_text server_ctx m = Some []" for m by (simp add: server_ctx_def stratum_ctx_def)
  have all: "\<exists>c'. write_responses server_ctx ms c = (True, c')" if "co_writable c = None" for ms c
    using that by (induction ms arbitrary: c) (simp_all add: texts write_line_def)
  have "co_writable (?c\<lparr>co_session := s'\<rparr>) = None" by (simp add: connection_new_def)
  from all [OF this] obtain c' where written: "write_responses server_ctx msgs (?c\<lparr>co_session := s'\<rparr>) = (True, c')" by blast
  have name: "sr_method (authorize_request line) = ''mining.authorize''" for line by (simp add: authorize_request_def)
  have parse: "sx_parse_request server_ctx line = Some (SimpleRequest (authorize_request line))" for line by (simp add: server_ctx_def)
  have "connection_step server_ctx 1 0 (LineRead server_clock ''bob.rig'') ?c server_world = (Open, c', w')"
    using auth(1) written
    by (simp add: connection_step_def process_incoming_message_def handle_stratum_request_def handle_simple_request_def name parse)
  with connection_run.accepted have run: "connection_run server_ctx 1 5 9 0 Open c' w'" by (rule connection_run.event)
  have "settings_ok server_ctx" by (simp add: settings_ok_def exp_law_def server_ctx_def stratum_ctx_def f64_le_def f64_eq_def)
  from session_well_formed [OF this run] run write_responses_session [OF written] auth(2) show ?thesis by auto
qed

theorem authorized_miner_registered_witness:
  "\<exists>msgs s' w' user_id u. handle_authorize server_ctx server_clock 1 (authorize_request ''bob.rig'')
      (co_session (connection_new server_ctx 5 9 0 None)) server_world = (Ok msgs, s', w')
    \<and> ss_user_id s' = Some user_id \<and> user_cf (sw_store w') user_id = Stored u \<and> su_btcaddress u = ''bob''"
proof -
  obtain msgs s' w' where auth: "handle_authorize server_ctx server_clock 1 (authorize_request ''bob.rig'')
      (co_session (connection_new server_ctx 5 9 0 None)) server_world = (Ok msgs, s', w')"
    "ss_username s' = Some ''bob.rig''" "ss_btcaddress s' = Some ''bob''" using bob_authorized by blast
  have "accounting_inv (sw_store server_world)"
    "user_cf (sw_store server_world) (fst (get_next_id (clock_millis (lc_store server_clock)) (id_sequence (sw_store server_world)))) = Absent"
    by (simp_all add: server_world_def server_clock_def empty_store_accounting sample_next_id)
  from authorized_miner_registered [OF this auth(1)] auth show ?thesis by auto
qed

theorem failed_connection_stays_active_witness:
  "let c = (connection_new server_ctx 5 9 0 None)\<lparr>co_session := sample_session\<rparr>;
       w = server_world\<lparr>sw_metrics := worker_authorized ''user'' [] (pool_metrics_default 0)\<rparr>
   in worker_active (sw_metrics (snd (snd (connection_step server_ctx 1 0 ReadError c w)))) ''user'' []
     \<and> \<not> worker_active (sw_metrics (snd (snd (connection_step server_ctx 1 0 EndOfStream c w)))) ''user'' []"
proof -
  let ?c = "(connection_new server_ctx 5 9 0 None)\<lparr>co_session := sample_session\<rparr>"
  let ?w = "server_world\<lparr>sw_metrics := worker_authorized ''user'' [] (pool_metrics_default 0)\<rparr>"
  have s: "ss_btcaddress (co_session ?c) = Some ''user''" "unwrap_or [] (ss_workername (co_session ?c)) = []"
    by (simp_all add: sample_session_def session_new_def)
  have act: "worker_active (sw_metrics ?w) ''user'' []"
    by (simp add: worker_active_def worker_authorized_def pool_metrics_default_def user_default_def)
  have err: "connection_step server_ctx 1 0 ReadError ?c ?w = (Failed, ?c, ?w)"
    and eof: "connection_step server_ctx 1 0 EndOfStream ?c ?w = close_connection 0 ?c ?w"
    by (simp_all add: connection_step_def)
  show ?thesis
    using failed_connection_stays_active [OF err s] act
      failed_connection_stays_active [OF eof [unfolded close_connection_def] s] err eof
    by (simp add: close_connection_def)
qed

end
