(* ===== verification/Utf8_Text.thy ===== *)
theory Utf8_Text
  imports P2Pool_Prelude
begin

text \<open>
  Text as the standard library reads it from bytes: \<open>String::from_utf8\<close> with the well-formed byte
  sequences of the Unicode standard, and \<open>split\<close> and \<open>splitn\<close>.
  A string is the list of its bytes.
\<close>

definition as_bytes :: "string \<Rightarrow> bytes" where
  "as_bytes s = map (\<lambda>c. word_of_nat (of_char c)) s"

definition of_bytes :: "bytes \<Rightarrow> string" where
  "of_bytes bs = map (\<lambda>b. char_of (unat b)) bs"

definition utf8_width :: "nat \<Rightarrow> nat" where
  "utf8_width b =
     (if b < 128 then 1 else if 194 \<le> b \<and> b \<le> 223 then 2 else if 224 \<le> b \<and> b \<le> 239 then 3
      else if 240 \<le> b \<and> b \<le> 244 then 4 else 0)"

definition is_continuation :: "nat \<Rightarrow> bool" where
  "is_continuation b \<longleftrightarrow> 128 \<le> b \<and> b \<le> 191"

definition second_ok :: "nat \<Rightarrow> nat \<Rightarrow> bool" where
  "second_ok a b \<longleftrightarrow> is_continuation b \<and> (a = 224 \<longrightarrow> 160 \<le> b) \<and> (a = 237 \<longrightarrow> b \<le> 159) \<and> (a = 240 \<longrightarrow> 144 \<le> b)
     \<and> (a = 244 \<longrightarrow> b \<le> 143)"

definition byte_at :: "bytes \<Rightarrow> nat \<Rightarrow> nat" where
  "byte_at bs i = (if i < length bs then unat (bs ! i) else 0)"

text \<open>The first character, or the first part that is none: whether it is well formed, and its length.\<close>

definition utf8_first :: "bytes \<Rightarrow> bool \<times> nat" where
  "utf8_first bs =
     (let a = byte_at bs 0; w = utf8_width a
      in if w = 1 then (True, 1)
         else if w = 0 \<or> \<not> second_ok a (byte_at bs 1) then (False, 1)
         else if w = 2 then (True, 2)
         else if \<not> is_continuation (byte_at bs 2) then (False, 2)
         else if w = 3 then (True, 3)
         else if \<not> is_continuation (byte_at bs 3) then (False, 3)
         else (True, 4))"

lemma utf8_first_pos: "0 < snd (utf8_first bs)"
  by (simp add: utf8_first_def Let_def)

lemma utf8_first_shrinks: "(ok, n) = utf8_first bs \<Longrightarrow> bs \<noteq> [] \<Longrightarrow> 0 < n"
  using utf8_first_pos [of bs] by (cases "utf8_first bs") simp

function utf8_valid :: "bytes \<Rightarrow> bool" where
  "utf8_valid bs =
     (if bs = [] then True else case utf8_first bs of (ok, n) \<Rightarrow> ok \<and> utf8_valid (drop n bs))"
  by pat_completeness auto
termination
  by (relation "measure length") (auto dest: utf8_first_shrinks)

declare utf8_valid.simps [simp del]

definition from_utf8 :: "bytes \<Rightarrow> string option" where
  "from_utf8 bs = (if utf8_valid bs then Some (of_bytes bs) else None)"

text \<open>\<open>split(c)\<close>, and \<open>splitn(2, c)\<close> when the character occurs.\<close>

fun split_char :: "char \<Rightarrow> string \<Rightarrow> string list" where
  "split_char c [] = [[]]"
| "split_char c (x # xs) =
     (if x = c then [] # split_char c xs
      else case split_char c xs of [] \<Rightarrow> [[x]] | part # parts \<Rightarrow> (x # part) # parts)"

fun split_once :: "char \<Rightarrow> string \<Rightarrow> (string \<times> string) option" where
  "split_once c [] = None"
| "split_once c (x # xs) = (if x = c then Some ([], xs) else map_option (\<lambda>(a, b). (x # a, b)) (split_once c xs))"

section \<open>Lemmas\<close>

lemma of_bytes_as_bytes [simp]: "of_bytes (as_bytes s) = s"
proof -
  have "of_char c < (256 :: nat)" for c :: char by simp
  then have "char_of (unat (word_of_nat (of_char c) :: u8)) = c" for c by (simp add: unat_of_nat)
  then show ?thesis by (simp add: of_bytes_def as_bytes_def comp_def)
qed

lemma as_bytes_of_bytes [simp]: "as_bytes (of_bytes bs) = bs"
proof -
  have "unat b < 256" for b :: u8 using unsigned_less [of b, where 'a = nat] by simp
  then have "word_of_nat (of_char (char_of (unat b) :: char)) = b" for b :: u8 by simp
  then show ?thesis by (simp add: of_bytes_def as_bytes_def comp_def)
qed

lemma as_bytes_inj [simp]: "as_bytes s = as_bytes t \<longleftrightarrow> s = t"
  by (metis of_bytes_as_bytes)

lemma from_utf8_Some: "from_utf8 bs = Some s \<longleftrightarrow> bs = as_bytes s \<and> utf8_valid bs"
  by (auto simp: from_utf8_def)

lemma split_once_Some: "split_once c s = Some (a, b) \<longleftrightarrow> s = a @ c # b \<and> c \<notin> set a"
proof (induction s arbitrary: a)
  case (Cons x s)
  show ?case
  proof (cases a)
    case (Cons y ys)
    have "split_once c (x # s) = Some (a, b) \<longleftrightarrow> x \<noteq> c \<and> y = x \<and> split_once c s = Some (ys, b)"
      by (auto simp: Cons)
    with Cons.IH Cons show ?thesis by auto
  qed auto
qed simp

lemma split_char_none: "c \<notin> set s \<Longrightarrow> split_char c s = [s]"
  by (induction s) auto

lemma split_char_two: "c \<notin> set a \<Longrightarrow> c \<notin> set b \<Longrightarrow> split_char c (a @ c # b) = [a, b]"
  by (induction a) (auto simp: split_char_none)

text \<open>Plain text is well formed.\<close>

lemma utf8_valid_ascii: "\<forall>c \<in> set s. of_char c < (128 :: nat) \<Longrightarrow> utf8_valid (as_bytes s)"
proof (induction s)
  case (Cons c s)
  have "unat (word_of_nat (of_char c) :: u8) < 128" using Cons.prems by (simp add: unat_of_nat)
  then have "utf8_first (as_bytes (c # s)) = (True, 1)"
    by (simp add: utf8_first_def as_bytes_def byte_at_def utf8_width_def)
  with Cons show ?case by (subst utf8_valid.simps) (simp add: as_bytes_def)
qed (simp add: as_bytes_def utf8_valid.simps)

end
