(* ===== verification/Api_Server.thy ===== *)
theory Api_Server
  imports Utf8_Text Share_Submit
begin

text \<open>
  The HTTP interface (\<open>p2poolv2_api/src/api/server.rs\<close>, \<open>auth.rs\<close>, \<open>error.rs\<close>): the
  credentials a request must carry and the command that generates them
  (\<open>p2poolv2_cli/src/commands/gen_auth.rs\<close>), and the handlers that show the chain, the share DAG, the
  metrics and the shares of the accounting. Routing, JSON and the HTTP server are the crates axum
  and serde; the base64 and HMAC crates are the fields of \<open>auth_crates\<close>.
\<close>

section \<open>Credentials\<close>

record auth_crates =
  ac_hmac :: "bytes \<Rightarrow> bytes \<Rightarrow> bytes option"
  ac_base64_decode :: "string \<Rightarrow> bytes option"
  ac_base64_url_encode :: "bytes \<Rightarrow> string"

definition validate_password :: "auth_crates \<Rightarrow> 'addr crates \<Rightarrow> string \<Rightarrow> string \<Rightarrow> bool" where
  "validate_password A X password stored_token =
     (case split_char CHR 0x24 stored_token of
        [salt, expected_hmac] \<Rightarrow>
          (case ac_hmac A (as_bytes salt) (as_bytes password) of
             None \<Rightarrow> False
           | Some mac \<Rightarrow> hex_encode X mac = expected_hmac)
      | _ \<Rightarrow> False)"

definition UNAUTHORIZED :: u16 where "UNAUTHORIZED = 401"

definition basic_prefix :: string where "basic_prefix = ''Basic ''"

definition starts_with :: "string \<Rightarrow> string \<Rightarrow> bool" where
  "starts_with p s \<longleftrightarrow> take (length p) s = p"

definition auth_middleware ::
  "auth_crates \<Rightarrow> 'addr crates \<Rightarrow> string option \<Rightarrow> string option \<Rightarrow> string option \<Rightarrow> 'response
     \<Rightarrow> (u16, 'response) outcome" where
  "auth_middleware A X auth_user auth_token auth_header next_run =
     (case (auth_user, auth_token) of
        (Some expected_user, Some expected_token) \<Rightarrow>
          (case auth_header of
             None \<Rightarrow> Err UNAUTHORIZED
           | Some header \<Rightarrow>
               if \<not> starts_with basic_prefix header then Err UNAUTHORIZED
               else case ac_base64_decode A (drop 6 header) of
                      None \<Rightarrow> Err UNAUTHORIZED
                    | Some decoded \<Rightarrow>
                        (case from_utf8 decoded of
                           None \<Rightarrow> Err UNAUTHORIZED
                         | Some decoded_str \<Rightarrow>
                             (case split_once CHR 0x3A decoded_str of
                                None \<Rightarrow> Err UNAUTHORIZED
                              | Some (username, password) \<Rightarrow>
                                  if username = expected_user \<and> validate_password A X password expected_token
                                  then Ok next_run else Err UNAUTHORIZED)))
      | _ \<Rightarrow> Ok next_run)"

text \<open>
  The command \<open>gen-auth\<close>, with the random bytes and the answer of the password prompt as
  arguments. What it prints is the record \<open>credentials\<close>.
\<close>

definition generate_salt :: "'addr crates \<Rightarrow> bytes \<Rightarrow> string" where
  "generate_salt X salt_bytes = hex_encode X salt_bytes"

definition generate_password :: "auth_crates \<Rightarrow> bytes \<Rightarrow> string" where
  "generate_password A password_bytes = ac_base64_url_encode A password_bytes"

definition password_to_hmac ::
  "auth_crates \<Rightarrow> 'addr crates \<Rightarrow> string \<Rightarrow> string \<Rightarrow> (string, string) outcome" where
  "password_to_hmac A X salt password =
     (case ac_hmac A (as_bytes salt) (as_bytes password) of
        None \<Rightarrow> Err ''Invalid Length''
      | Some mac \<Rightarrow> Ok (hex_encode X mac))"

record credentials =
  cr_username :: string
  cr_password :: string
  cr_salt :: string
  cr_hmac :: string
  cr_auth_user :: string
  cr_auth_token :: string

definition gen_auth ::
  "auth_crates \<Rightarrow> 'addr crates \<Rightarrow> bytes \<Rightarrow> bytes \<Rightarrow> (string, string) outcome \<Rightarrow> string \<Rightarrow> string option
     \<Rightarrow> (string, credentials) outcome" where
  "gen_auth A X salt_bytes password_bytes prompt username password_arg =
     and_then (case password_arg of
                 None \<Rightarrow> Ok (generate_password A password_bytes)
               | Some p \<Rightarrow> if p = ''-'' then prompt else Ok p) (\<lambda>password.
     let salt = generate_salt X salt_bytes in
     and_then (password_to_hmac A X salt password) (\<lambda>mac.
       Ok \<lparr>cr_username = username, cr_password = password, cr_salt = salt, cr_hmac = mac,
           cr_auth_user = username, cr_auth_token = salt @ CHR 0x24 # mac\<rparr>))"

section \<open>Errors\<close>

datatype api_error = ServerError string | NotFound string

definition api_error_text :: "api_error \<Rightarrow> string" where
  "api_error_text e = (case e of ServerError msg \<Rightarrow> ''axum server error: '' @ msg | NotFound msg \<Rightarrow> ''not found: '' @ msg)"

definition into_response :: "api_error \<Rightarrow> u16 \<times> string" where
  "into_response e = (case e of ServerError msg \<Rightarrow> (500, msg) | NotFound msg \<Rightarrow> (404, msg))"

section \<open>The chain\<close>

text \<open>Texts of the crates: the display of errors, public keys, work and networks, and the parser of RFC 3339 times.\<close>

record api_texts =
  at_store_error :: "store_error \<Rightarrow> string"
  at_pubkey :: "pubkey \<Rightarrow> string"
  at_work_hex :: "work \<Rightarrow> string"
  at_network :: "network \<Rightarrow> string"
  at_f64 :: "f64 \<Rightarrow> string"
  at_parse_rfc3339 :: "string \<Rightarrow> 64 word option"

record app_config =
  ac_pool_signature_length :: nat
  ac_network :: network

definition server_error :: "api_texts \<Rightarrow> (store_error, 'a) outcome \<Rightarrow> (api_error, 'a) outcome" where
  "server_error T r = map_err (\<lambda>e. ServerError (at_store_error T e)) r"

definition chain_tip_handler :: "'addr crates \<Rightarrow> share_store \<Rightarrow> string" where
  "chain_tip_handler X st = display_hash X (chain_tip st)"

definition chain_height :: "api_texts \<Rightarrow> share_store \<Rightarrow> (api_error, u32 option) outcome" where
  "chain_height T st = server_error T (get_tip_height st)"

record tip_with_uncles_response =
  tu_tip :: string
  tu_uncles :: "string list"

definition chain_tip_with_uncles :: "'addr crates \<Rightarrow> share_store \<Rightarrow> tip_with_uncles_response" where
  "chain_tip_with_uncles X st =
     (case get_chain_tip_and_uncles st of (tip, uncles) \<Rightarrow>
        \<lparr>tu_tip = display_hash X tip, tu_uncles = map (display_hash X) uncles\<rparr>)"

record share_info =
  si_blockhash :: string
  si_prev_share_blockhash :: string

record shares_at_height_response =
  sr_height :: u32
  sr_shares :: "share_info list"

text \<open>The shares of a height come in the order of a hash map, the argument \<open>order\<close>.\<close>

definition shares_at_height ::
  "'addr crates \<Rightarrow> api_texts \<Rightarrow> ((blockhash \<times> share_block) list \<Rightarrow> (blockhash \<times> share_block) list) \<Rightarrow> share_store
     \<Rightarrow> u32 \<Rightarrow> (api_error, shares_at_height_response) outcome" where
  "shares_at_height X T order st height =
     and_then (server_error T (get_shares_at_height st height)) (\<lambda>shares.
       Ok \<lparr>sr_height = height,
           sr_shares = map (\<lambda>(hash, share).
             \<lparr>si_blockhash = display_hash X hash,
              si_prev_share_blockhash = display_hash X (sh_prev_share_blockhash (sb_header share))\<rparr>) (order shares)\<rparr>)"

definition total_work_handler :: "api_texts \<Rightarrow> share_store \<Rightarrow> (api_error, string) outcome" where
  "total_work_handler T st =
     and_then (server_error T (get_total_work st)) (\<lambda>work. Ok (at_work_hex T work))"

definition chain_locator ::
  "'addr crates \<Rightarrow> api_texts \<Rightarrow> share_store \<Rightarrow> (api_error, string list) outcome option" where
  "chain_locator X T st =
     map_option (\<lambda>r. and_then (server_error T r) (\<lambda>locator. Ok (map (display_hash X) locator))) (build_locator st)"

record chain_info_response =
  ci_tip :: string
  ci_height :: "u32 option"
  ci_total_work :: string
  ci_uncles :: "string list"
  ci_network :: string

definition chain_info ::
  "'addr crates \<Rightarrow> api_texts \<Rightarrow> app_config \<Rightarrow> share_store \<Rightarrow> (api_error, chain_info_response) outcome" where
  "chain_info X T cfg st =
     and_then (server_error T (get_tip_height st)) (\<lambda>height.
     and_then (server_error T (get_total_work st)) (\<lambda>total_work.
       Ok \<lparr>ci_tip = display_hash X (chain_tip st), ci_height = height, ci_total_work = at_work_hex T total_work,
           ci_uncles = map (display_hash X) (snd (get_chain_tip_and_uncles st)), ci_network = at_network T (ac_network cfg)\<rparr>))"

section \<open>The share DAG\<close>

record dag_node =
  dn_hash :: string
  dn_prev_hash :: string
  dn_uncles :: "string list"
  dn_height :: u32
  dn_miner_pubkey :: string
  dn_timestamp :: u32
  dn_is_main_chain :: bool
  dn_is_uncle :: bool

record dag_edge =
  de_from :: string
  de_to :: string
  de_edge_type :: string

record dag_response =
  dr_nodes :: "dag_node list"
  dr_edges :: "dag_edge list"
  dr_tip_hash :: string
  dr_from_height :: u32
  dr_to_height :: u32

record dag_query =
  dq_from_height :: "u32 option"
  dq_to_height :: "u32 option"
  dq_limit :: "u32 option"

fun main_chain_loop :: "nat \<Rightarrow> share_store \<Rightarrow> blockhash \<Rightarrow> blockhash \<Rightarrow> (store_error, bool) outcome" where
  "main_chain_loop 0 st hash current = Ok False"
| "main_chain_loop (Suc n) st hash current =
     (if current = hash then Ok True
      else and_then (get_share st current) (\<lambda>found.
        case found of
          None \<Rightarrow> Ok False
        | Some share \<Rightarrow>
            if sh_prev_share_blockhash (sb_header share) = 0 then Ok False
            else main_chain_loop n st hash (sh_prev_share_blockhash (sb_header share))))"

definition is_on_main_chain :: "share_store \<Rightarrow> blockhash \<Rightarrow> blockhash \<Rightarrow> (store_error, bool) outcome" where
  "is_on_main_chain st hash tip = (if hash = tip then Ok True else main_chain_loop 1000 st hash tip)"

type_synonym dag_view = "dag_node list \<times> dag_edge list \<times> string list"

definition share_edges :: "'addr crates \<Rightarrow> blockhash \<Rightarrow> share_header \<Rightarrow> dag_edge list" where
  "share_edges X hash header =
     (if sh_prev_share_blockhash header \<noteq> 0
      then [\<lparr>de_from = display_hash X hash, de_to = display_hash X (sh_prev_share_blockhash header),
             de_edge_type = ''parent''\<rparr>] else [])
     @ map (\<lambda>uncle. \<lparr>de_from = display_hash X hash, de_to = display_hash X uncle, de_edge_type = ''uncle''\<rparr>)
         (sh_uncles header)"

definition share_node :: "'addr crates \<Rightarrow> api_texts \<Rightarrow> share_store \<Rightarrow> u32 \<Rightarrow> blockhash \<Rightarrow> share_header \<Rightarrow> bool \<Rightarrow> dag_node" where
  "share_node X T st height hash header is_main_chain =
     \<lparr>dn_hash = display_hash X hash, dn_prev_hash = display_hash X (sh_prev_share_blockhash header),
      dn_uncles = map (display_hash X) (sh_uncles header), dn_height = height,
      dn_miner_pubkey = at_pubkey T (sh_miner_pubkey header), dn_timestamp = sh_time header,
      dn_is_main_chain = is_main_chain, dn_is_uncle = hash \<in> set (snd (get_chain_tip_and_uncles st))\<rparr>"

fun dag_shares ::
  "'addr crates \<Rightarrow> api_texts \<Rightarrow> share_store \<Rightarrow> u32 \<Rightarrow> (blockhash \<times> share_block) list \<Rightarrow> dag_view
     \<Rightarrow> (store_error, dag_view) outcome" where
  "dag_shares X T st height [] view = Ok view"
| "dag_shares X T st height ((hash, share) # shares) (nodes, edges, seen_hashes) =
     (let hash_str = display_hash X hash; header = sb_header share
      in if hash_str \<in> set seen_hashes then dag_shares X T st height shares (nodes, edges, seen_hashes)
         else and_then (is_on_main_chain st hash (chain_tip st)) (\<lambda>is_main_chain.
           dag_shares X T st height shares
             (nodes @ [share_node X T st height hash header is_main_chain],
              edges @ share_edges X hash header,
              hash_str # seen_hashes)))"

fun dag_heights ::
  "'addr crates \<Rightarrow> api_texts \<Rightarrow> ((blockhash \<times> share_block) list \<Rightarrow> (blockhash \<times> share_block) list) \<Rightarrow> share_store
     \<Rightarrow> u32 list \<Rightarrow> dag_view \<Rightarrow> (store_error, dag_view) outcome" where
  "dag_heights X T order st [] view = Ok view"
| "dag_heights X T order st (height # heights) view =
     (case get_shares_at_height st height of
        Ok shares \<Rightarrow>
          and_then (dag_shares X T st height (order shares) view) (dag_heights X T order st heights)
      | Err _ \<Rightarrow> dag_heights X T order st heights view
      | Panic \<Rightarrow> Panic)"

definition heights_between :: "u32 \<Rightarrow> u32 \<Rightarrow> u32 list" where
  "heights_between a b = map word_of_nat [unat a..<Suc (unat b)]"

definition saturating_sub_u32 :: "u32 \<Rightarrow> u32 \<Rightarrow> u32" where
  "saturating_sub_u32 a b = (if a < b then 0 else a - b)"

definition dag_range :: "u32 \<Rightarrow> dag_query \<Rightarrow> u32 \<times> u32" where
  "dag_range tip_height params =
     (let limit = min (unwrap_or 50 (dq_limit params)) 100;
          to_height = unwrap_or tip_height (dq_to_height params)
      in (unwrap_or (saturating_sub_u32 to_height limit) (dq_from_height params), to_height))"

definition chain_dag ::
  "'addr crates \<Rightarrow> api_texts \<Rightarrow> ((blockhash \<times> share_block) list \<Rightarrow> (blockhash \<times> share_block) list) \<Rightarrow> share_store
     \<Rightarrow> dag_query \<Rightarrow> (api_error, dag_response) outcome" where
  "chain_dag X T order st params =
     and_then (server_error T (get_tip_height st)) (\<lambda>tip.
       case dag_range (unwrap_or 0 tip) params of (from_height, to_height) \<Rightarrow>
       and_then (server_error T (dag_heights X T order st (heights_between from_height to_height) ([], [], [])))
         (\<lambda>(nodes, edges, _).
           Ok \<lparr>dr_nodes = nodes, dr_edges = edges, dr_tip_hash = display_hash X (chain_tip st),
               dr_from_height = from_height, dr_to_height = to_height\<rparr>))"

section \<open>Health, metrics and accounting\<close>

definition health_check :: string where "health_check = ''OK''"

definition metrics_handler ::
  "'addr crates \<Rightarrow> api_texts \<Rightarrow> app_config \<Rightarrow> pool_metrics \<Rightarrow> job_tracker \<Rightarrow> string" where
  "metrics_handler X T cfg pool_metrics tracker =
     get_exposition (at_f64 T) pool_metrics
     @ (case get_distribution X tracker (ac_pool_signature_length cfg) of
          None \<Rightarrow> []
        | Some coinbase_distribution \<Rightarrow>
            ''# HELP coinbase_rewards_distribution Current coinbase rewards distribution between users''
            @ [CHR 0x0A] @ coinbase_distribution)"

record pplns_shares_query =
  pq_limit :: "nat option"
  pq_start_time :: "string option"
  pq_end_time :: "string option"

definition query_time :: "api_texts \<Rightarrow> u64 \<Rightarrow> string option \<Rightarrow> (api_error, u64) outcome" where
  "query_time T otherwise arg =
     (case arg of
        None \<Rightarrow> Ok otherwise
      | Some s \<Rightarrow> (case at_parse_rfc3339 T s of
                     None \<Rightarrow> Err (ServerError ''Invalid time format'')
                   | Some timestamp \<Rightarrow> Ok timestamp))"

definition pplns_shares_handler ::
  "api_texts \<Rightarrow> u64 \<Rightarrow> u64 \<Rightarrow> 'a accounting_store_scheme \<Rightarrow> pplns_shares_query
     \<Rightarrow> (api_error, simple_pplns_share list) outcome" where
  "pplns_shares_handler T now_secs now_micros st query =
     and_then (query_time T 0 (pq_start_time query)) (\<lambda>start_time.
     and_then (query_time T now_secs (pq_end_time query)) (\<lambda>end_time.
       if end_time < start_time then Err (ServerError ''Invalid date range'')
       else Ok (get_pplns_shares_filtered now_micros st (pq_limit query) (Some start_time) (Some end_time))))"

section \<open>Lemmas\<close>

lemma server_error_Ok [simp]: "server_error T r = Ok x \<longleftrightarrow> r = Ok x"
  by (cases r) (simp_all add: server_error_def)

lemma server_error_of_Ok [simp]: "server_error T (Ok x) = Ok x"
  by simp

lemma flat_map_ok_no_error: "flat_map_ok f xs \<noteq> Err e"
  by (induction xs) (auto simp: outcome_simps split: outcome.splits)

lemma load_share_header: "load_share st hash stored = Ok share \<Longrightarrow> sb_header share = ssb_header stored"
  by (auto simp: load_share_def outcome_simps split: outcome.splits)

lemma load_share_no_error: "load_share st hash stored \<noteq> Err e"
  by (auto simp: load_share_def get_txs_for_blockhash_def outcome_simps flat_map_ok_no_error split: outcome.splits)

lemma get_shares_no_error: "get_shares st hashes \<noteq> Err e"
  by (induction hashes) (auto simp: outcome_simps load_share_no_error split: outcome.splits cell.splits)

text \<open>The shares that are found: each hash with a stored block, under its header.\<close>

lemma get_shares_found:
  "get_shares st hashes = Ok found \<Longrightarrow>
     (\<lambda>(hash, share). (hash, sb_header share)) ` set found
       = {(hash, ssb_header b) | hash b. hash \<in> set hashes \<and> block_cf st hash = Stored b}"
proof (induction hashes arbitrary: found)
  case (Cons hash hashes)
  show ?case
  proof (cases "block_cf st hash")
    case (Stored b)
    with Cons.prems obtain share rest where l: "load_share st hash b = Ok share" and r: "get_shares st hashes = Ok rest"
      and f: "found = (if hash \<in> fst ` set rest then rest else (hash, share) # rest)"
      by (auto simp: outcome_simps split: outcome.splits)
    note ih = Cons.IH [OF r]
    have "(hash, ssb_header b) \<in> (\<lambda>(hash, share). (hash, sb_header share)) ` set rest" if "hash \<in> fst ` set rest"
    proof -
      from that obtain s where "(hash, s) \<in> set rest" by auto
      then have "(hash, sb_header s) \<in> (\<lambda>(hash, share). (hash, sb_header share)) ` set rest" by force
      with ih Stored show ?thesis by auto
    qed
    then have "(\<lambda>(hash, share). (hash, sb_header share)) ` set found
        = insert (hash, ssb_header b) ((\<lambda>(hash, share). (hash, sb_header share)) ` set rest)"
      using f load_share_header [OF l] by auto
    with ih Stored show ?thesis by auto
  qed (use Cons in auto)
qed simp

lemma main_chain_loop_ancestors:
  assumes "main_chain_loop n st hash current = Ok found" "block_cf st hash = Stored b" "block_cf st 0 = Absent"
  shows "found \<longleftrightarrow> hash \<in> set (ancestors st n current)"
  using assms
proof (induction n arbitrary: current)
  case (Suc n)
  have zero: "ancestors st n 0 = []" using Suc.prems(3) by (cases n) (simp_all add: get_share_header_def)
  show ?case
  proof (cases "block_cf st current")
    case (Stored c)
    with Suc zero show ?thesis
      by (auto simp: get_share_def get_share_header_def outcome_simps split: if_splits outcome.splits
          dest: load_share_header)
  qed (use Suc.prems in \<open>auto simp: get_share_def get_share_header_def split: if_splits\<close>)
qed simp

lemma is_on_main_chain_ancestors:
  assumes "is_on_main_chain st hash tip = Ok found" "block_cf st hash = Stored b" "block_cf st 0 = Absent"
  shows "found \<longleftrightarrow> hash \<in> set (ancestors st 1000 tip)"
proof (cases "hash = tip")
  case True
  with assms show ?thesis
    using ancestors.simps(2) [of st 999 tip] by (simp add: is_on_main_chain_def get_share_header_def)
next
  case False
  with assms show ?thesis by (simp add: is_on_main_chain_def main_chain_loop_ancestors)
qed

text \<open>The edges a node of the answer calls for: one to its parent unless it is the first, one to each uncle.\<close>

definition node_edges :: "'addr crates \<Rightarrow> dag_node \<Rightarrow> dag_edge list" where
  "node_edges X n =
     (if dn_prev_hash n = display_hash X 0 then []
      else [\<lparr>de_from = dn_hash n, de_to = dn_prev_hash n, de_edge_type = ''parent''\<rparr>])
     @ map (\<lambda>uncle. \<lparr>de_from = dn_hash n, de_to = uncle, de_edge_type = ''uncle''\<rparr>) (dn_uncles n)"

definition main_node :: "'addr crates \<Rightarrow> api_texts \<Rightarrow> share_store \<Rightarrow> u32 \<Rightarrow> blockhash \<Rightarrow> share_header \<Rightarrow> dag_node" where
  "main_node X T st height hash header =
     share_node X T st height hash header (hash \<in> set (ancestors st 1000 (chain_tip st)))"

definition dag_shown :: "'addr crates \<Rightarrow> api_texts \<Rightarrow> share_store \<Rightarrow> (u32 \<times> blockhash \<times> share_header) set \<Rightarrow> dag_view \<Rightarrow> bool" where
  "dag_shown X T st S view \<longleftrightarrow>
     (case view of (nodes, edges, seen) \<Rightarrow>
        set seen = dn_hash ` set nodes \<and> distinct (map dn_hash nodes)
        \<and> dn_hash ` set nodes = display_hash X ` (fst \<circ> snd) ` S
        \<and> (\<forall>n \<in> set nodes. \<exists>(height, hash, header) \<in> S. n = main_node X T st height hash header)
        \<and> edges = concat (map (node_edges X) nodes))"

lemma display_hash_inj: "hashes_ok X \<Longrightarrow> display_hash X a = display_hash X b \<longleftrightarrow> a = b"
  unfolding hashes_ok_def by (metis option.inject)

lemma node_edges_share: "hashes_ok X \<Longrightarrow> node_edges X (share_node X T st height hash header m) = share_edges X hash header"
  by (simp add: node_edges_def share_node_def share_edges_def display_hash_inj)

lemma dag_shown_add:
  assumes "dag_shown X T st S (nodes, edges, seen)" "hashes_ok X" "display_hash X hash \<notin> set seen"
  shows "dag_shown X T st (insert (height, hash, header) S)
    (nodes @ [main_node X T st height hash header], edges @ share_edges X hash header, display_hash X hash # seen)"
  using assms node_edges_share [OF assms(2)] by (auto simp: dag_shown_def main_node_def share_node_def)

lemma dag_shown_seen:
  assumes "dag_shown X T st S (nodes, edges, seen)" "display_hash X hash \<in> set seen"
  shows "dag_shown X T st (insert (height, hash, header) S) (nodes, edges, seen)"
proof -
  from assms have "display_hash X hash \<in> display_hash X ` (fst \<circ> snd) ` S" by (simp add: dag_shown_def)
  then have "insert (display_hash X hash) (display_hash X ` (fst \<circ> snd) ` S) = display_hash X ` (fst \<circ> snd) ` S"
    by (rule insert_absorb)
  with assms(1) show ?thesis by (simp add: dag_shown_def)
qed

lemma dag_shares_shown:
  assumes "dag_shares X T st height shares view = Ok view'" "dag_shown X T st S view" "hashes_ok X"
    "block_cf st 0 = Absent" "\<forall>(hash, share) \<in> set shares. \<exists>b. block_cf st hash = Stored b"
  shows "dag_shown X T st (S \<union> (\<lambda>(hash, share). (height, hash, sb_header share)) ` set shares) view'"
  using assms(1,2,5)
proof (induction shares arbitrary: view S)
  case (Cons pair shares)
  obtain hash share where pair: "pair = (hash, share)" by (cases pair)
  obtain nodes edges seen where view: "view = (nodes, edges, seen)" by (cases view)
  let ?S = "insert (height, hash, sb_header share) S"
  have "\<exists>next. dag_shown X T st ?S next \<and> dag_shares X T st height shares next = Ok view'"
  proof (cases "display_hash X hash \<in> set seen")
    case True
    with Cons.prems show ?thesis unfolding pair view by (auto simp: Let_def intro: dag_shown_seen)
  next
    case False
    with Cons.prems(1) obtain main where m: "is_on_main_chain st hash (chain_tip st) = Ok main"
      and r: "dag_shares X T st height shares
        (nodes @ [share_node X T st height hash (sb_header share) main], edges @ share_edges X hash (sb_header share),
         display_hash X hash # seen) = Ok view'"
      unfolding pair view by (auto simp: Let_def outcome_simps)
    from Cons.prems(3) obtain b where "block_cf st hash = Stored b" unfolding pair by auto
    from is_on_main_chain_ancestors [OF m this assms(4)] r
      dag_shown_add [OF Cons.prems(2) [unfolded view] assms(3) False, of height "sb_header share"]
    show ?thesis unfolding main_node_def by auto
  qed
  then obtain "next" where n: "dag_shown X T st ?S next" "dag_shares X T st height shares next = Ok view'" by blast
  from Cons.IH [OF n(2,1)] Cons.prems(3) show ?case unfolding pair by (simp add: Un_commute)
qed simp

definition stored_at :: "share_store \<Rightarrow> u32 set \<Rightarrow> (u32 \<times> blockhash \<times> share_header) set" where
  "stored_at st H = {(height, hash, ssb_header b) | height hash b.
     height \<in> H \<and> hash \<in> set (get_blockhashes_for_height st height) \<and> block_cf st hash = Stored b}"

lemma dag_heights_shown:
  assumes "dag_heights X T order st heights view = Ok view'" "dag_shown X T st S view" "hashes_ok X"
    "block_cf st 0 = Absent" "\<forall>xs. set (order xs) = set xs"
  shows "dag_shown X T st (S \<union> stored_at st (set heights)) view'"
  using assms(1,2)
proof (induction heights arbitrary: view S)
  case Nil
  then show ?case by (simp add: stored_at_def)
next
  case (Cons height heights)
  then obtain shares "next" where sh: "get_shares st (get_blockhashes_for_height st height) = Ok shares"
    and d: "dag_shares X T st height (order shares) view = Ok next" "dag_heights X T order st heights next = Ok view'"
    by (auto simp: get_shares_at_height_def outcome_simps get_shares_no_error split: outcome.splits)
  note found = get_shares_found [OF sh]
  have stored: "\<forall>(hash, share) \<in> set (order shares). \<exists>b. block_cf st hash = Stored b"
  proof clarify
    fix hash share assume "(hash, share) \<in> set (order shares)"
    then have "(hash, sb_header share) \<in> (\<lambda>(hash, share). (hash, sb_header share)) ` set shares"
      using assms(5) by force
    with found show "\<exists>b. block_cf st hash = Stored b" by auto
  qed
  have "(\<lambda>(hash, share). (height, hash, sb_header share)) ` set (order shares)
      = Pair height ` (\<lambda>(hash, share). (hash, sb_header share)) ` set shares"
    using assms(5) by (auto simp: image_image split_def)
  also have "\<dots> = stored_at st {height}" unfolding found stored_at_def by auto
  finally have "dag_shown X T st (S \<union> stored_at st {height}) next"
    using dag_shares_shown [OF d(1) Cons.prems(2) assms(3,4) stored] by simp
  from Cons.IH [OF d(2) this]
  have "dag_shown X T st (S \<union> stored_at st {height} \<union> stored_at st (set heights)) view'" .
  moreover have "S \<union> stored_at st {height} \<union> stored_at st (set heights) = S \<union> stored_at st (set (height # heights))"
    by (auto simp: stored_at_def)
  ultimately show ?case by simp
qed

lemma set_heights_between: "set (heights_between a b) = {a..b}"
proof -
  have "x \<in> word_of_nat ` {unat a..unat b}" if "a \<le> x" "x \<le> b" for x
    using that by (intro image_eqI [of _ _ "unat x"]) (simp_all add: word_le_nat_alt)
  moreover have "word_of_nat n \<in> {a..b}" if "unat a \<le> n" "n \<le> unat b" for n
  proof -
    have "unat b < 2 ^ 32" using unsigned_less [of b, where 'a = nat] by simp
    with that(2) have "n < 2 ^ 32" by simp
    then have "unat (word_of_nat n :: u32) = n" by (simp add: unat_of_nat)
    with that show ?thesis by (simp add: word_le_nat_alt)
  qed
  ultimately have "word_of_nat ` {unat a..unat b} = {a..b}" by auto
  then show ?thesis unfolding heights_between_def by (simp only: set_map set_upt atLeastLessThanSuc_atLeastAtMost)
qed

lemma dag_range_limit:
  assumes "dag_range tip params = (a, b)" "dq_from_height params = None"
  shows "unat b - unat a \<le> 100"
proof -
  obtain limit where "limit \<le> 100" "a = saturating_sub_u32 b limit"
    using assms by (auto simp: dag_range_def Let_def unwrap_or_def min_def split: if_splits)
  then show ?thesis by (auto simp: saturating_sub_u32_def word_le_nat_alt word_less_nat_alt unat_sub)
qed

text \<open>
  C34: the graph \<open>/chain/dag\<close> answers with: its nodes are exactly the shares stored at the heights
  shown, each once and with its own data, a node is marked as main chain exactly when it is among
  the thousand newest ancestors of the tip, and the edges are exactly those to the parents and
  uncles of the nodes. Without a first height in the query at most 100 heights below the last are shown.
\<close>

theorem dag_view_correct:
  assumes "chain_dag X T order st params = Ok r" "hashes_ok X" "\<forall>xs. set (order xs) = set xs" "block_cf st 0 = Absent"
  shows "distinct (map dn_hash (dr_nodes r))
    \<and> dn_hash ` set (dr_nodes r) = display_hash X ` {hash. \<exists>height b. dr_from_height r \<le> height \<and> height \<le> dr_to_height r
        \<and> hash \<in> set (get_blockhashes_for_height st height) \<and> block_cf st hash = Stored b}
    \<and> (\<forall>n \<in> set (dr_nodes r). \<exists>height hash b. hash \<in> set (get_blockhashes_for_height st height)
        \<and> block_cf st hash = Stored b
        \<and> n = share_node X T st height hash (ssb_header b) (hash \<in> set (ancestors st 1000 (chain_tip st))))
    \<and> dr_edges r = concat (map (node_edges X) (dr_nodes r))
    \<and> (dq_from_height params = None \<longrightarrow> unat (dr_to_height r) - unat (dr_from_height r) \<le> 100)"
proof -
  from assms(1) obtain tip where tip: "get_tip_height st = Ok tip"
    by (auto simp: chain_dag_def outcome_simps)
  obtain a b where ab: "dag_range (unwrap_or 0 tip) params = (a, b)" by (cases "dag_range (unwrap_or 0 tip) params")
  with assms(1) tip obtain nodes edges seen where
    d: "dag_heights X T order st (heights_between (dr_from_height r) (dr_to_height r)) ([], [], []) = Ok (nodes, edges, seen)"
    and r: "dr_nodes r = nodes" "dr_edges r = edges"
    and range: "dag_range (unwrap_or 0 tip) params = (dr_from_height r, dr_to_height r)"
    by (auto simp: chain_dag_def outcome_simps)
  have "dag_shown X T st {} ([], [], [])" by (simp add: dag_shown_def)
  from dag_heights_shown [OF d this assms(2,4,3)]
  have shown: "dag_shown X T st (stored_at st {dr_from_height r..dr_to_height r}) (nodes, edges, seen)"
    by (simp add: set_heights_between)
  have "(fst \<circ> snd) ` stored_at st {dr_from_height r..dr_to_height r}
      = {hash. \<exists>height b. dr_from_height r \<le> height \<and> height \<le> dr_to_height r
          \<and> hash \<in> set (get_blockhashes_for_height st height) \<and> block_cf st hash = Stored b}"
    by (force simp: stored_at_def)
  moreover have "\<exists>height hash b. hash \<in> set (get_blockhashes_for_height st height) \<and> block_cf st hash = Stored b
      \<and> n = share_node X T st height hash (ssb_header b) (hash \<in> set (ancestors st 1000 (chain_tip st)))"
    if "n \<in> set nodes" for n
    using shown that unfolding dag_shown_def main_node_def stored_at_def by fastforce
  moreover have "unat (dr_to_height r) - unat (dr_from_height r) \<le> 100" if "dq_from_height params = None"
    using dag_range_limit [OF range that] .
  ultimately show ?thesis using shown r unfolding dag_shown_def by simp
qed

definition plain_texts :: api_texts where
  "plain_texts =
     \<lparr>at_store_error = (\<lambda>_. ''error''), at_pubkey = (\<lambda>k. map (\<lambda>b. char_of (unat b)) k), at_work_hex = (\<lambda>w. lower_hex 64 (unat w)),
      at_network = (\<lambda>_. ''signet''), at_f64 = (\<lambda>_. ''0''), at_parse_rfc3339 = (\<lambda>_. Some 0)\<rparr>"

definition two_heights :: dag_query where
  "two_heights = \<lparr>dq_from_height = None, dq_to_height = None, dq_limit = Some 2\<rparr>"

definition height_dag :: share_store where
  "height_dag = sample_dag\<lparr>height_cf := (\<lambda>_. Absent)(0 := Stored [1], 1 := Stored [2], 2 := Stored [3, 5], 3 := Stored [4])\<rparr>"

lemma height_dag_simps [simp]:
  "block_cf height_dag = block_cf sample_dag" "block_md_cf height_dag = block_md_cf sample_dag"
  "chain_tip height_dag = 4" "tips height_dag = [4, 5]" "block_txids_cf height_dag = (\<lambda>_. Absent)"
  "bitcoin_txids_cf height_dag = (\<lambda>_. Absent)"
  "height_cf height_dag = (\<lambda>_. Absent)(0 := Stored [1], 1 := Stored [2], 2 := Stored [3, 5], 3 := Stored [4])"
  by (simp_all add: height_dag_def sample_dag_def empty_store_def accounting_store.defs)

lemma height_dag_load [simp]:
  "load_share height_dag h b = Ok \<lparr>sb_header = ssb_header b, sb_transactions = [], sb_bitcoin_transactions = []\<rparr>"
  by (simp add: load_share_def get_txs_for_blockhash_def get_txids_for_blockhash_def)

lemma main_chain_loop_numeral:
  "main_chain_loop (numeral k) st hash current =
     (if current = hash then Ok True
      else and_then (get_share st current) (\<lambda>found.
        case found of
          None \<Rightarrow> Ok False
        | Some share \<Rightarrow>
            if sh_prev_share_blockhash (sb_header share) = 0 then Ok False
            else main_chain_loop (pred_numeral k) st hash (sh_prev_share_blockhash (sb_header share))))"
  by (simp only: numeral_eq_Suc main_chain_loop.simps)

lemma height_dag_main [simp]:
  "is_on_main_chain height_dag 2 4 = Ok True" "is_on_main_chain height_dag 3 4 = Ok True"
  "is_on_main_chain height_dag 4 4 = Ok True" "is_on_main_chain height_dag 5 4 = Ok False"
  by (simp_all add: is_on_main_chain_def main_chain_loop_numeral get_share_def chain_cell_def chain_header_def)

text \<open>The last three heights of a chain of four shares with a fork at the second.\<close>

theorem dag_view_correct_witness:
  "\<exists>r. chain_dag sample_crates plain_texts (\<lambda>xs. xs) height_dag two_heights = Ok r
     \<and> map (\<lambda>n. (dn_height n, dn_is_main_chain n)) (dr_nodes r) = [(1, True), (2, True), (2, False), (3, True)]
     \<and> distinct (map dn_hash (dr_nodes r)) \<and> dr_edges r = concat (map (node_edges sample_crates) (dr_nodes r))"
proof -
  have X: "hashes_ok sample_crates" by (simp add: sample_crates_ok)
  have hs: "heights_between 1 3 = [1, 2, 3]" by (simp add: heights_between_def upt_rec)
  have "\<exists>r. chain_dag sample_crates plain_texts (\<lambda>xs. xs) height_dag two_heights = Ok r
     \<and> map (\<lambda>n. (dn_height n, dn_is_main_chain n)) (dr_nodes r) = [(1, True), (2, True), (2, False), (3, True)]"
    by (simp add: chain_dag_def two_heights_def get_tip_height_def get_block_metadata_def md_cell_def dag_range_def
        unwrap_or_def saturating_sub_u32_def hs get_shares_at_height_def get_blockhashes_for_height_def chain_cell_def
        share_node_def display_hash_inj [OF X] server_error_def Let_def)
  then obtain r where r: "chain_dag sample_crates plain_texts (\<lambda>xs. xs) height_dag two_heights = Ok r"
    "map (\<lambda>n. (dn_height n, dn_is_main_chain n)) (dr_nodes r) = [(1, True), (2, True), (2, False), (3, True)]"
    by (elim exE conjE)
  with dag_view_correct [OF r(1) X] show ?thesis by simp
qed

text \<open>Accepting a password: the salt and the digest of a generated token are the parts of it.\<close>

lemma validate_generated:
  assumes "hex_ok X" "\<forall>bs. CHR 0x24 \<notin> set (hex_encode X bs)" "gen_auth A X salt_bytes rnd prompt user arg = Ok c"
  shows "validate_password A X p (cr_auth_token c) \<longleftrightarrow>
    ac_hmac A (as_bytes (cr_salt c)) (as_bytes p) = ac_hmac A (as_bytes (cr_salt c)) (as_bytes (cr_password c))"
proof -
  from assms(3) obtain mac where m: "ac_hmac A (as_bytes (cr_salt c)) (as_bytes (cr_password c)) = Some mac"
    and t: "cr_auth_token c = cr_salt c @ CHR 0x24 # hex_encode X mac" and s: "cr_salt c = hex_encode X salt_bytes"
    by (auto simp: gen_auth_def generate_salt_def password_to_hmac_def Let_def outcome_simps split: option.splits)
  have "hex_encode X m = hex_encode X mac \<longleftrightarrow> m = mac" for m
    using assms(1) unfolding hex_ok_def by (metis option.inject)
  moreover have "split_char CHR 0x24 (cr_auth_token c) = [cr_salt c, hex_encode X mac]"
    using assms(2) by (simp add: t split_char_two s)
  ultimately show ?thesis by (simp add: validate_password_def m split: option.split)
qed

text \<open>
  C33: the credentials \<open>gen-auth\<close> prints are the ones the API accepts. With the printed user and
  token configured, a request is let through exactly when it carries Basic credentials of well-formed
  text whose user name is the printed one and whose password has the digest of the printed password
  under the printed salt; every other request is answered with 401 and the handler does not run. A user name
  with a colon is never let in, and with either setting missing everyone is.
\<close>

theorem generated_credentials_accepted:
  assumes "hex_ok X" "\<forall>bs. CHR 0x24 \<notin> set (hex_encode X bs)" "gen_auth A X salt_bytes rnd prompt user arg = Ok c"
  shows "(auth_middleware A X (Some (cr_auth_user c)) (Some (cr_auth_token c)) header response = Ok response \<longleftrightarrow>
      (\<exists>code p. header = Some (basic_prefix @ code) \<and> CHR 0x3A \<notin> set user
         \<and> ac_base64_decode A code = Some (as_bytes (user @ CHR 0x3A # p)) \<and> utf8_valid (as_bytes (user @ CHR 0x3A # p))
         \<and> ac_hmac A (as_bytes (cr_salt c)) (as_bytes p) = ac_hmac A (as_bytes (cr_salt c)) (as_bytes (cr_password c))))
    \<and> auth_middleware A X (Some (cr_auth_user c)) (Some (cr_auth_token c)) header response \<in> {Ok response, Err 401}
    \<and> auth_middleware A X None token header response = Ok response
    \<and> auth_middleware A X (Some (cr_auth_user c)) None header response = Ok response"
proof -
  have user: "cr_auth_user c = user"
    using assms(3) by (auto simp: gen_auth_def Let_def outcome_simps)
  let ?run = "auth_middleware A X (Some user) (Some (cr_auth_token c)) header response"
  have iff: "?run = Ok response \<longleftrightarrow>
      (\<exists>code p. header = Some (basic_prefix @ code) \<and> ac_base64_decode A code = Some (as_bytes (user @ CHR 0x3A # p))
         \<and> utf8_valid (as_bytes (user @ CHR 0x3A # p)) \<and> CHR 0x3A \<notin> set user \<and> validate_password A X p (cr_auth_token c))"
  proof
    assume "?run = Ok response"
    then obtain h decoded p where h: "header = Some h" "starts_with basic_prefix h"
      and d: "ac_base64_decode A (drop 6 h) = Some decoded" "from_utf8 decoded = Some (user @ CHR 0x3A # p)"
        "CHR 0x3A \<notin> set user" "validate_password A X p (cr_auth_token c)"
      by (auto simp: auth_middleware_def split_once_Some split: option.splits if_splits)
    have "length basic_prefix = 6" by (simp add: basic_prefix_def)
    with h(2) have "h = basic_prefix @ drop 6 h" unfolding starts_with_def by (metis append_take_drop_id)
    with h d show "\<exists>code p. header = Some (basic_prefix @ code)
         \<and> ac_base64_decode A code = Some (as_bytes (user @ CHR 0x3A # p)) \<and> utf8_valid (as_bytes (user @ CHR 0x3A # p))
         \<and> CHR 0x3A \<notin> set user \<and> validate_password A X p (cr_auth_token c)"
      by (metis from_utf8_Some)
  next
    have text_of: "from_utf8 (as_bytes s) = (if utf8_valid (as_bytes s) then Some s else None)" for s
      by (simp add: from_utf8_def)
    have once: "CHR 0x3A \<notin> set user \<Longrightarrow> split_once CHR 0x3A (user @ CHR 0x3A # p) = Some (user, p)" for p
      by (simp add: split_once_Some)
    assume "\<exists>code p. header = Some (basic_prefix @ code) \<and> ac_base64_decode A code = Some (as_bytes (user @ CHR 0x3A # p))
       \<and> utf8_valid (as_bytes (user @ CHR 0x3A # p)) \<and> CHR 0x3A \<notin> set user \<and> validate_password A X p (cr_auth_token c)"
    then show "?run = Ok response"
      by (auto simp: auth_middleware_def starts_with_def basic_prefix_def text_of once)
  qed
  have "?run \<in> {Ok response, Err 401}"
    by (simp add: auth_middleware_def UNAUTHORIZED_def split: option.split)
  then show ?thesis
    unfolding user iff validate_generated [OF assms] by (auto simp: auth_middleware_def)
qed

text \<open>Crates with a toy digest and with base64 replaced by the bytes themselves.\<close>

definition sample_auth :: auth_crates where
  "sample_auth = \<lparr>ac_hmac = (\<lambda>key message. Some (key @ message)), ac_base64_decode = (\<lambda>s. Some (as_bytes s)),
     ac_base64_url_encode = of_bytes\<rparr>"

text \<open>The password is accepted; another one, and no header, are not.\<close>

theorem generated_credentials_accepted_witness:
  "\<exists>c. gen_auth sample_auth sample_crates [1, 2] [] (Err []) ''alice'' (Some ''secret'') = Ok c
     \<and> auth_middleware sample_auth sample_crates (Some ''alice'') (Some (cr_auth_token c)) (Some ''Basic alice:secret'') (5 :: nat) = Ok 5
     \<and> auth_middleware sample_auth sample_crates (Some ''alice'') (Some (cr_auth_token c)) (Some ''Basic alice:other'') (5 :: nat) = Err 401
     \<and> auth_middleware sample_auth sample_crates (Some ''alice'') (Some (cr_auth_token c)) None (5 :: nat) = Err 401"
proof -
  let ?c = "\<lparr>cr_username = ''alice'', cr_password = ''secret'', cr_salt = hex_encode sample_crates [1, 2],
    cr_hmac = hex_encode sample_crates (as_bytes (hex_encode sample_crates [1, 2]) @ as_bytes ''secret''), cr_auth_user = ''alice'',
    cr_auth_token = hex_encode sample_crates [1, 2] @ CHR 0x24
      # hex_encode sample_crates (as_bytes (hex_encode sample_crates [1, 2]) @ as_bytes ''secret'')\<rparr>"
  have c: "gen_auth sample_auth sample_crates [1, 2] [] (Err []) ''alice'' (Some ''secret'') = Ok ?c"
    by (simp add: gen_auth_def generate_salt_def password_to_hmac_def sample_auth_def Let_def)
  have small: "char_of n \<noteq> CHR 0x24" if "n < 16" for n :: nat
  proof
    assume "char_of n = CHR 0x24"
    then have "of_char (char_of n :: char) = (36 :: nat)" by simp
    with that show False by simp
  qed
  have "CHR 0x24 \<notin> {char_of (unat b div 16), char_of (unat b mod 16)}" for b :: u8
    using small [of "unat b div 16"] small [of "unat b mod 16"] unsigned_less [of b, where 'a = nat] by force
  then have digits: "\<forall>bs. CHR 0x24 \<notin> set (hex_encode sample_crates bs)" by (auto simp: sample_crates_def)
  note accepted = generated_credentials_accepted [OF sample_crates_ok(1) digits c, where response = "5 :: nat"]
  have valid: "utf8_valid (as_bytes ''alice:secret'')" "utf8_valid (as_bytes ''alice:other'')"
    by (rule utf8_valid_ascii, simp)+
  let ?run = "\<lambda>header. auth_middleware sample_auth sample_crates (Some ''alice'') (Some (cr_auth_token ?c)) header (5 :: nat)"
  have "?run (Some ''Basic alice:secret'') = Ok 5"
    using accepted [of "Some ''Basic alice:secret''"] valid by (simp add: basic_prefix_def sample_auth_def)
  moreover have "?run (Some ''Basic alice:other'') \<noteq> Ok 5"
    using accepted [of "Some ''Basic alice:other''"] by (auto simp: basic_prefix_def sample_auth_def)
  moreover have "?run None \<noteq> Ok 5" using accepted [of None] by simp
  moreover have "?run header \<in> {Ok 5, Err 401}" for header
    using accepted [of header, THEN conjunct2, THEN conjunct1] by (simp only: credentials.simps)
  ultimately have "?run (Some ''Basic alice:secret'') = Ok 5 \<and> ?run (Some ''Basic alice:other'') = Err 401 \<and> ?run None = Err 401"
    by blast
  with c show ?thesis by blast
qed

end
