(* ===== verification/Spec2Isabelle.thy ===== *)
theory Spec2Isabelle
  imports P2Pool_Prelude F64 Difficulty_Adjuster Ordered_Table Accounting_Store Pool_Config Payout
    Codec Share_Block Share_Store Share_Dag Mailbox Store_Writer Chain_Handle Wire_Messages Peer_Node Block_Template
    Stratum_Messages Client_Connections Hex_Text Job_Tracker Pool_Metrics Stratum_Session Share_Submit Stratum_Server
    Utf8_Text Api_Server
begin

text \<open>
  P2Poolv2 is a bitcoin mining pool node. This library models it from its sources in
  \<open>src/\<close>; paths below are relative to \<open>src/p2poolv2_lib/src/\<close> unless they name another
  crate. It is a shallow embedding: structs are records, enums datatypes, machine integers words of
  their width, floats the IEEE doubles of \<open>F64\<close>, and a function that can return an error or
  panic yields an \<open>outcome\<close> (\<open>Ok\<close>, \<open>Err\<close> or \<open>Panic\<close>), so that every \<open>?\<close>, \<open>unwrap\<close> and
  out-of-range index of the source is a branch of the model.

  \<^bold>\<open>How the parts work together.\<close> Miners connect to the stratum server. Each connection has a
  session with its own difficulty; the notifier builds a job from a block template of bitcoind and
  the payout over the shares of the last window, and announces it to all connections. A submitted
  share is checked against its job, counted by the metrics and sent to the emission worker, which
  stores it for the payout or, when the pool is part of the peer-to-peer network, makes a share
  block of it. Share blocks form a DAG in the store, are announced to peers and received from
  them, and the chain store handle decides which of them is the tip.

  \<^bold>\<open>The theories.\<close>
  \<^item> \<open>P2Pool_Prelude\<close>: outcomes, hash sets and maps, byte strings, and the lemmas all parts share.
  \<open>F64\<close>: doubles with rounding, comparisons and conversions. \<open>Ordered_Table\<close>: a
  column family ordered by key, as a locale and its implementation by a sorted list. \<open>Codec\<close>:
  the contract of an encoder and a decoder, and its combinators. \<open>Mailbox\<close>: a task that
  serves a channel, with the lemmas that its state is what the commands and direct writes yield one by
  one and that what a reply promises stays true. \<open>Hex_Text\<close> and \<open>Utf8_Text\<close>: numbers as text, and text as bytes.
  \<^item> \<open>Difficulty_Adjuster\<close>: \<open>accounting/calc.rs\<close> and \<open>stratum/difficulty_adjuster/mod.rs\<close>.
  The difficulty stays within the bounds of the pool and changes exactly when, and to what, is stated.
  \<^item> \<open>Accounting_Store\<close>: the shares, users and jobs of the accounting
  (\<open>store/pplns_shares.rs\<close>, \<open>store/user.rs\<close>, \<open>store/job_store.rs\<close>,
  \<open>store/background_tasks.rs\<close>). A window query returns exactly the shares of the window.
  \<^item> \<open>Pool_Config\<close> and \<open>Payout\<close>: \<open>config.rs\<close> and
  \<open>accounting/simple_pplns/payout.rs\<close>. The search for shares returns and selects the shares of the
  windows backwards, none passed over, and what is paid adds up to the reward.
  \<^item> \<open>Share_Block\<close>: \<open>shares/share_block/\<close>, \<open>shares/share_commitment.rs\<close>,
  \<open>shares/genesis/\<close> and the stored metadata. Everything encoded is decoded again, and
  commitments bind.
  \<^item> \<open>Share_Store\<close> and \<open>Share_Dag\<close>: \<open>store/mod.rs\<close>, \<open>store/share_store.rs\<close>,
  \<open>store/transaction_store.rs\<close>, \<open>store/organise.rs\<close>, \<open>store/dag_store.rs\<close>. A
  column family is a function from keys to cells (absent, stored or corrupt), a write batch a list
  of operations applied on commit. Adding a share enters it into every index and changes nothing
  else, it is read back as stated, the traversals return what they promise, and the confirmed entries refine a
  growing chain.
  \<^item> \<open>Store_Writer\<close>: \<open>store/writer/\<close>; writes are serialised in the order sent, between
  the prunes of the background task, and acknowledged writes stay.
  \<open>Chain_Handle\<close>: \<open>shares/chain/chain_store_handle.rs\<close> and
  \<open>shares/validation/mod.rs\<close>; heights and work, the choice of the tip, locators, validation.
  \<^item> \<open>Wire_Messages\<close> and \<open>Peer_Node\<close>: \<open>node/\<close>, \<open>service/\<close>,
  \<open>middleware/\<close>. The node is a state machine over the events of the swarm, its commands and
  the service; messages survive framing and the codec, each kind of request has the
  effect stated and is answered once, silent peers are dropped.
  \<^item> \<open>Block_Template\<close>: \<open>stratum/work/block_template.rs\<close>, \<open>gbt.rs\<close>, \<open>coinbase.rs\<close>
  and \<open>stratum/util.rs\<close>; merkle branches give the merkle root and the halves of a coinbase
  give the coinbase.
  \<^item> \<open>Stratum_Messages\<close>, \<open>Client_Connections\<close>, \<open>Job_Tracker\<close>, \<open>Pool_Metrics\<close>,
  \<open>Stratum_Session\<close>, \<open>Share_Submit\<close>, \<open>Stratum_Server\<close>: \<open>stratum/\<close>,
  \<open>accounting/stats/\<close>, \<open>node/emission_worker.rs\<close> and \<open>shares/handle_stratum_share.rs\<close>.
  An announced job pays the reward, a submission is checked against the header the miner hashed, no
  share is credited twice, sessions are well formed, the metrics add up.
  \<^item> \<open>Api_Server\<close>: \<open>p2poolv2_api/src/api/server.rs\<close>, \<open>auth.rs\<close> and \<open>error.rs\<close> and
  \<open>p2poolv2_cli/src/commands/gen_auth.rs\<close>; generated credentials are the ones accepted, and the
  graph of \<open>/chain/dag\<close> is the stored one.
  \<^item> This theory: what spans the accounting, the share chain and the stratum server.

  \<^bold>\<open>Code outside the repository\<close> is a parameter: the encodings, hashes and scripts of the
  bitcoin crate are the fields of the records \<open>btc\<close> and \<open>crates\<close>, the JSON of serde
  and printed floats the fields of \<open>stratum_context\<close>, the exponential function, libp2p's results,
  the traversal order of hash maps, clocks and random numbers arguments. What a property relies on is a named
  predicate with the documented behaviour (\<open>btc_ok\<close>, \<open>hex_ok\<close>, \<open>hashes_ok\<close>,
  \<open>pushes_ok\<close>, \<open>tx_layout\<close>, \<open>frame_layout\<close>), and its witness instantiates it.

  \<^bold>\<open>Bounds and termination.\<close> Loops over finite data are recursive functions with a
  termination proof. The backwards search of the payout, the walk that loads a chain and the heights of
  a locator are partial functions; \<open>Payout.selection_returns\<close>,
  \<open>Share_Dag.init_restores_chain_state\<close> and \<open>Chain_Handle.locator_built\<close> show when they
  return. The only counted loop is the source's own, 1000 steps in \<open>is_on_main_chain\<close>. Integer
  arithmetic wraps where the release build wraps and is a \<open>Panic\<close> where the source checks.

  \<^bold>\<open>Atomicity.\<close> A handler is one step. Steps of different tasks interleave in the
  state machines of the store writer, the node, the client connections and the stratum server. The metrics actor and the notifier
  are taken to be alive while the server runs. A prune of the background task is one step too, at any moment between
  the writer's. A merge is taken to be applied to the stored list; that the operator loses hashes when the database
  merges operands with each other first is \<open>Share_Store.partial_merge_loses_hashes\<close>. A commit of a write batch fails exactly on a store opened read-only.

  \<^bold>\<open>Not modelled.\<close>
  \<^item> The database viewer (\<open>p2poolv2_api/src/api/db_viewer.rs\<close>, \<open>store/db_viewer_ops.rs\<close>) and
  the other commands of the command line (\<open>cli_commands/\<close>): read-only views, the first of raw
  RocksDB bytes that the typed tables of this library do not have. Routing and serving HTTP: axum.
  \<^item> The RPC client (\<open>bitcoindrpc\<close>), the polling of templates in \<open>gbt.rs\<close>,
  \<open>stratum/zmq_listener.rs\<close> and \<open>bitcoin_block_validation.rs\<close>: requests to bitcoind.
  \<^item> \<open>shares/compact_block.rs\<close> and \<open>short_ids.rs\<close>: wrappers nothing calls yet.
  \<^item> The node binary, logging, signals, files of user statistics, time providers: input and output.
  \<^item> Deserialisation by serde, opening the database, libp2p and tower themselves: other crates.
\<close>

section \<open>From a submission to the payout\<close>

lemma batch_keeps_shares: "share_cf (apply_batch ops st) = share_cf st"
proof (rule frame_fold)
  show "share_cf (Share_Store.apply_op op s) = share_cf s" for op s by (cases op) simp_all
qed

lemma chain_add_share_keeps_shares: "share_cf (snd (chain_add_share B alive share confirm_txs st)) = share_cf st"
proof -
  have commit: "share_cf (snd (commit_batch batch st)) = share_cf st" for batch st
    by (simp add: commit_batch_def batch_keeps_shares)
  have req: "share_cf (snd (request alive f st)) = share_cf st" if "\<And>st. share_cf (snd (f st)) = share_cf st"
    for f :: "share_store \<Rightarrow> (store_error, unit) outcome \<times> share_store" and st
    using that by (simp add: request_def split_def)
  have "share_cf (snd (write_genesis B share st)) = share_cf st" for st
    by (simp add: write_genesis_def setup_genesis_def Let_def commit set_chain_tip_def add_tip_def set_genesis_blockhash_def)
  moreover have "share_cf (snd (write_share B share h cw confirm_txs st)) = share_cf st" for h cw st
    by (simp add: write_share_def commit)
  moreover have "share_cf (leave_tips share st) = share_cf st" for st
    by (simp add: leave_tips_def remove_tip_def fold_invariant [of _ "\<lambda>_. True" "\<lambda>s. share_cf s = share_cf st"])
  then have "share_cf (snd (reorg B share cw st)) = share_cf st" for cw st
    by (simp add: reorg_def Let_def set_chain_tip_def add_tip_def split: outcome.splits)
  ultimately show ?thesis
    by (auto simp: chain_add_share_def handle_setup_genesis_def handle_add_share_def req split_def split: outcome.splits prod.splits)
qed

text \<open>
  C9: where an accepted share goes: without a public key of the pool's miner (a job without
  commitment) the emission worker stores the share, and every payout window that contains its time
  finds it with the address of its user, besides what it found before. With one the worker builds
  a share block instead and leaves the accounting alone: the payout of the pool, which reads the
  accounting shares only, never sees the work.
\<close>

theorem share_reaches_payout:
  assumes "em_share_commitment em = None \<longrightarrow>
      accounting_inv st \<and> \<not> read_only st \<and> fresh_share_id (clock_millis clk) st
      \<and> micros_fit (pps_n_time (em_pplns em)) \<and> micros_fit a \<and> micros_fit b
      \<and> user_cf st (pps_user_id (em_pplns em)) = Stored u
      \<and> a \<le> pps_n_time (em_pplns em) \<and> pps_n_time (em_pplns em) \<le> b \<and> length (share_cf st) < 100000"
  shows "case em_share_commitment em of
      None \<Rightarrow> (\<exists>st'. emission_worker_step X B network clk True em st = Some ([], st')
        \<and> set (store_query now st' a b)
          = insert ((stored_form (em_pplns em))\<lparr>pps_btcaddress := Some (su_btcaddress u)\<rparr>) (set (store_query now st a b)))
    | Some _ \<Rightarrow> (\<forall>sent st'. emission_worker_step X B network clk True em st = Some (sent, st') \<longrightarrow> share_cf st' = share_cf st)"
proof (cases "em_share_commitment em")
  case None
  with assms have hyps: "accounting_inv st" "\<not> read_only st" "fresh_share_id (clock_millis clk) st"
    "micros_fit (pps_n_time (em_pplns em))" "micros_fit a" "micros_fit b"
    "user_cf st (pps_user_id (em_pplns em)) = Stored u"
    "a \<le> pps_n_time (em_pplns em)" "pps_n_time (em_pplns em) \<le> b" "length (share_cf st) < 100000" by simp_all
  have query: "store_query now s a b = get_pplns_shares_filtered now s (Some 100000) (Some a) (Some b)" for s :: share_store
    by (simp add: store_query_def get_pplns_shares_filtered_def INITIAL_SHARE_VEC_CAPACITY_def)
  obtain st' where add: "add_pplns_share (clock_millis clk) (em_pplns em) st = (Ok (), st')"
    and found: "set (get_pplns_shares_filtered now st' (Some 100000) (Some a) (Some b))
      = insert ((stored_form (em_pplns em))\<lparr>pps_btcaddress := Some (su_btcaddress u)\<rparr>)
          (set (get_pplns_shares_filtered now st (Some 100000) (Some a) (Some b)))"
    using add_share_found [OF hyps, of now] by (metis prod.collapse snd_conv)
  then show ?thesis
    using None by (simp add: emission_worker_step_def handle_stratum_share_def handle_add_pplns_share_def request_def query)
next
  case (Some commitment)
  have chain: "share_cf st1 = share_cf st" if "chain_add_share B True b True st = (r, st1)" for b r st1
    using chain_add_share_keeps_shares [of B True b True st] that by simp
  obtain r st1 where handled: "handle_stratum_share X B network clk True em st = (r, st1)" by force
  then have "share_cf st1 = share_cf st"
    using Some by (auto simp: handle_stratum_share_def dest: chain split: outcome.split_asm prod.split_asm)
  then have keeps: "share_cf st' = share_cf st" if "emission_worker_step X B network clk True em st = Some (sent, st')" for sent st'
    using that handled by (auto simp: emission_worker_step_def split: outcome.split_asm option.split_asm)
  show ?thesis unfolding Some option.case using keeps by blast
qed

text \<open>A share of a known user, in a store that has one already.\<close>

definition solo_emission :: emission where
  "solo_emission = \<lparr>em_pplns = sample_share, em_header = \<lparr>bh_version = 0, bh_prev_blockhash = 0, bh_merkle_root = 0, bh_time = 0, bh_bits = 0, bh_nonce = 0\<rparr>, em_coinbase = coinbase_tx 2 [] [],
     em_blocktemplate = miner_template, em_share_commitment = None\<rparr>"

theorem share_reaches_payout_witness:
  "\<exists>st'. emission_worker_step sample_crates miner_btc Signet \<lparr>clock_millis = CUSTOM_EPOCH + 1, clock_secs = 1\<rparr> True solo_emission empty_store
       = Some ([], st')
     \<and> (stored_form sample_share)\<lparr>pps_btcaddress := Some ''addr''\<rparr> \<in> set (store_query 0 st' 95 100)"
proof -
  have "fresh_share_id (CUSTOM_EPOCH + 1) empty_store"
    by (simp add: fresh_share_id_def empty_store_def accounting_store.defs sample_accounting_def sample_next_id make_key_eq_iff)
  moreover have "user_cf empty_store (pps_user_id sample_share) = Stored \<lparr>su_user_id = 7, su_btcaddress = ''addr'', su_created_at = 1\<rparr>"
    "length (share_cf empty_store) < 100000"
    by (simp_all add: empty_store_def accounting_store.defs sample_accounting_def sample_share_def simple_pplns_share_new_def)
  ultimately show ?thesis
    using share_reaches_payout [of solo_emission empty_store "\<lparr>clock_millis = CUSTOM_EPOCH + 1, clock_secs = 1\<rparr>" 95 100
        "\<lparr>su_user_id = 7, su_btcaddress = ''addr'', su_created_at = 1\<rparr>" sample_crates miner_btc Signet 0]
    by (auto simp: solo_emission_def empty_store_accounting micros_fit_def sample_share_def simple_pplns_share_new_def)
qed

end
